(* ===== verification/Prelude.thy ===== *)
theory Prelude
  imports Main "HOL-Library.Word"
begin

text \<open>
  Shared vocabulary of the development.

  \<^item> machine types: \<open>u8\<close> is an 8-bit word, \<open>bytes\<close> a byte string
    (\<open>Bytes\<close>, \<open>BytesMut\<close>, \<open>&[u8]\<close> and \<open>Vec<u8>\<close> of the sources);
  \<^item> big-endian conversion of byte strings and numbers, with its round trips;
  \<^item> the checked arithmetic of Rust's \<open>u64\<close> on natural numbers;
  \<^item> the interface \<open>frame_codec\<close> of an encoder with its decoder and what it gives for
    streams of encoded values, and the interface \<open>bit_flags\<close> of a set of one-bit flags
    kept in a byte.

  Rust results are sums: \<open>Inl\<close> holds the error, \<open>Inr\<close> the value.
\<close>

unbundle bit_operations_syntax

section \<open>Types\<close>

type_synonym u8 = "8 word"
type_synonym u32 = "32 word"
type_synonym bytes = "u8 list"

text \<open>The byte string of an ASCII literal (\<open>b"..."\<close>).\<close>

definition ascii :: "string \<Rightarrow> bytes" where
  "ascii s = map of_char s"

text \<open>Addition of \<open>usize\<close> values on a 64-bit target, wrapping as in a release build.\<close>

definition usize_add :: "nat \<Rightarrow> nat \<Rightarrow> nat" where
  "usize_add a b = (a + b) mod 2 ^ 64"

lemma usize_add_small: "a + b < 2 ^ 64 \<Longrightarrow> usize_add a b = a + b"
  by (simp add: usize_add_def)

definition u64_max :: nat where
  "u64_max = 2 ^ 64 - 1"

text \<open>
  How a Rust operation can fail: with an error value, or by a panic (an \<open>unreachable!\<close>,
  a failed \<open>unwrap\<close> or an index out of range).
\<close>

datatype 'e fault = Panic | Err 'e

text \<open>The protocol versions of \<open>http::Version\<close>.\<close>

datatype Version = HTTP_09 | HTTP_10 | HTTP_11 | HTTP_2 | HTTP_3

section \<open>Collections of rules\<close>

named_theorems codec_simps \<open>equations that evaluate encoders and decoders\<close>
named_theorems consumes \<open>how many bytes a decoder takes off its input\<close>

section \<open>Checked arithmetic on 64-bit numbers\<close>

definition checked_add :: "nat \<Rightarrow> nat \<Rightarrow> nat option" where
  "checked_add a b = (if a + b \<le> u64_max then Some (a + b) else None)"

definition checked_mul :: "nat \<Rightarrow> nat \<Rightarrow> nat option" where
  "checked_mul a b = (if a * b \<le> u64_max then Some (a * b) else None)"

lemma checked_add_Some_iff [simp]:
  "checked_add a b = Some c \<longleftrightarrow> c = a + b \<and> a + b \<le> u64_max"
  by (auto simp: checked_add_def)

lemma checked_mul_Some_iff [simp]:
  "checked_mul a b = Some c \<longleftrightarrow> c = a * b \<and> a * b \<le> u64_max"
  by (auto simp: checked_mul_def)

section \<open>Big-endian numbers\<close>

text \<open>\<open>from_be_bytes\<close> of the unsigned types, and \<open>to_be_bytes\<close> for a width of \<open>k\<close> bytes.\<close>

definition from_be :: "bytes \<Rightarrow> nat" where
  "from_be bs = foldl (\<lambda>n b. n * 256 + unat b) 0 bs"

fun to_be :: "nat \<Rightarrow> nat \<Rightarrow> bytes" where
  "to_be 0 n = []"
| "to_be (Suc k) n = to_be k (n div 256) @ [word_of_nat n]"

lemma from_be_Nil [simp]: "from_be [] = 0"
  by (simp add: from_be_def)

lemma from_be_snoc [simp]: "from_be (bs @ [b]) = from_be bs * 256 + unat b"
  by (simp add: from_be_def)

lemma length_to_be [simp]: "length (to_be k n) = k"
  by (induction k n rule: to_be.induct) simp_all

lemma to_be_Nil_iff [simp]: "to_be k n = [] \<longleftrightarrow> k = 0"
  by (metis length_0_conv length_to_be)

lemma unat_u8_of_nat [simp]: "unat (word_of_nat n :: u8) = n mod 256"
  by (simp add: unat_of_nat)

lemma unat_u8_less [simp]: "unat (b :: u8) < 256"
  using unsigned_less [of b] by simp

lemma unat_u8_le [simp]: "unat (b :: u8) \<le> 255"
  using unat_u8_less [of b] by linarith

lemma from_be_to_be: "from_be (to_be k n) = n mod 256 ^ k"
proof (induction k n rule: to_be.induct)
  case (2 k n)
  have "(n div 256 mod 256 ^ k) * 256 + n mod 256 = n mod (256 * 256 ^ k)"
    by (simp add: mod_mult2_eq mult.commute)
  with 2 show ?case by simp
qed simp

lemma from_be_to_be_id [simp]: "n < 256 ^ k \<Longrightarrow> from_be (to_be k n) = n"
  by (simp add: from_be_to_be)

lemma from_be_bound: "from_be bs < 256 ^ length bs"
proof (induction bs rule: rev_induct)
  case (snoc b bs)
  have "from_be bs * 256 + unat b < (from_be bs + 1) * 256" by simp
  also have "\<dots> \<le> 256 ^ length bs * 256"
    using snoc by (simp add: Suc_le_eq del: power_Suc)
  finally show ?case by simp
qed simp

lemma to_be_from_be: "length bs = k \<Longrightarrow> to_be k (from_be bs) = bs"
proof (induction bs arbitrary: k rule: rev_induct)
  case (snoc b bs)
  then obtain j where k: "k = Suc j" "length bs = j" by auto
  have "(from_be bs * 256 + unat b) div 256 = from_be bs" by (simp add: div_add1_eq)
  moreover have "word_of_nat (from_be bs * 256 + unat b) = b"
  proof -
    have "word_of_nat (from_be bs * 256 + unat b) = word_of_nat (from_be bs) * (256 :: u8) + b"
      by simp
    also have "(256 :: u8) = 0" by simp
    finally show ?thesis by simp
  qed
  ultimately show ?case using snoc.IH k by simp
qed simp

section \<open>Byte strings\<close>

text \<open>Rust's \<open>eq_ignore_ascii_case\<close> and \<open>to_ascii_lowercase\<close>.\<close>

definition ascii_lower :: "u8 \<Rightarrow> u8" where
  "ascii_lower b = (if 65 \<le> b \<and> b \<le> 90 then b + 32 else b)"

definition eq_ignore_ascii_case :: "bytes \<Rightarrow> bytes \<Rightarrow> bool" where
  "eq_ignore_ascii_case a b \<longleftrightarrow> map ascii_lower a = map ascii_lower b"

text \<open>The pieces between the separators, as \<open>str::split(',')\<close> yields them: at least one.\<close>

fun split_on :: "'a \<Rightarrow> 'a list \<Rightarrow> 'a list list" where
  "split_on c [] = [[]]"
| "split_on c (x # xs) =
     (if x = c then [] # split_on c xs
      else (case split_on c xs of [] \<Rightarrow> [[x]] | p # ps \<Rightarrow> (x # p) # ps))"

lemma split_on_nonempty [simp]: "split_on c xs \<noteq> []"
  by (induction xs) (auto split: list.splits)

text \<open>\<open>str::trim\<close> on ASCII text: tab, newline, vertical tab, form feed, return, space.\<close>

definition is_space :: "u8 \<Rightarrow> bool" where
  "is_space b \<longleftrightarrow> b = 32 \<or> (9 \<le> b \<and> b \<le> 13)"

definition trim :: "bytes \<Rightarrow> bytes" where
  "trim bs = rev (dropWhile is_space (rev (dropWhile is_space bs)))"

section \<open>An encoder with its decoder\<close>

text \<open>
  What a wire format promises: decoding an encoded value followed by anything yields the
  value and leaves the rest, and an encoded value is never empty. An encoder may have a
  choice (a random mask, whether to compress), which the decoder undoes: \<open>enc c a\<close> is the
  encoding of \<open>a\<close> under the choice \<open>c\<close>. The decoder answers \<open>None\<close> when it needs more
  input or refuses what it sees.
\<close>

locale frame_codec =
  fixes valid :: "'a \<Rightarrow> bool"
    and enc :: "'c \<Rightarrow> 'a \<Rightarrow> 'b list"
    and dec :: "'b list \<Rightarrow> ('a \<times> 'b list) option"
  assumes dec_enc: "valid a \<Longrightarrow> dec (enc c a @ rest) = Some (a, rest)"
    and enc_nonempty: "valid a \<Longrightarrow> enc c a \<noteq> []"
begin

text \<open>At most \<open>n\<close> values are read off the input, stopping where the decoder stops.\<close>

primrec decode_many :: "nat \<Rightarrow> 'b list \<Rightarrow> 'a list \<times> 'b list" where
  "decode_many 0 bs = ([], bs)"
| "decode_many (Suc n) bs =
     (case dec bs of
        None \<Rightarrow> ([], bs)
      | Some (a, rest) \<Rightarrow> (let (as, rest') = decode_many n rest in (a # as, rest')))"

definition enc_all :: "('c \<times> 'a) list \<Rightarrow> 'b list" where
  "enc_all cas = concat (map (\<lambda>(c, a). enc c a) cas)"

lemma enc_all_simps [simp]:
  "enc_all [] = []" "enc_all ((c, a) # cas) = enc c a @ enc_all cas"
  by (simp_all add: enc_all_def)

lemma decode_many_enc_all:
  "\<forall>(c, a) \<in> set cas. valid a \<Longrightarrow>
   decode_many (length cas) (enc_all cas @ rest) = (map snd cas, rest)"
  by (induction cas) (auto simp: dec_enc)

lemma enc_inject:
  assumes "valid a" and "valid b" and eq: "enc c a @ r = enc d b @ s"
  shows "a = b \<and> r = s"
proof -
  from eq have "dec (enc c a @ r) = dec (enc d b @ s)" by (rule arg_cong)
  with assms(1,2) show ?thesis by (simp add: dec_enc)
qed

text \<open>Nothing else can be read out of a stream of encoded values.\<close>

lemma enc_all_inject:
  assumes "\<forall>(c, a) \<in> set cas. valid a" and "\<forall>(c, a) \<in> set dbs. valid a"
    and "enc_all cas = enc_all dbs"
  shows "map snd cas = map snd dbs"
  using assms
proof (induction cas arbitrary: dbs)
  case Nil
  then show ?case by (cases dbs) (auto simp: enc_nonempty)
next
  case (Cons ca cas)
  obtain c a where ca: "ca = (c, a)" by (cases ca)
  from Cons.prems(1,3) have "dbs \<noteq> []" by (auto simp: enc_nonempty ca)
  then obtain d b dbs' where dbs: "dbs = (d, b) # dbs'" by (cases dbs) auto
  from Cons.prems(1,2) have "valid a" "valid b"
    and vas: "\<forall>(c, a) \<in> set cas. valid a" and vbs: "\<forall>(c, a) \<in> set dbs'. valid a"
    by (auto simp: ca dbs)
  moreover from Cons.prems(3) have "enc c a @ enc_all cas = enc d b @ enc_all dbs'"
    by (simp add: ca dbs)
  ultimately have "a = b" and eq: "enc_all cas = enc_all dbs'"
    by (blast dest: enc_inject)+
  moreover from vas vbs eq have "map snd cas = map snd dbs'" by (rule Cons.IH)
  ultimately show ?case by (simp add: ca dbs)
qed

end

section \<open>One-bit flags in a byte\<close>

text \<open>
  \<open>insert\<close>, \<open>remove\<close> and \<open>contains\<close> of the flag types of the WebSocket codec and the
  HTTP/1 context, for the flags whose bits are distinct.
\<close>

locale bit_flags =
  fixes insert :: "'s \<Rightarrow> u8 \<Rightarrow> 's"
    and remove :: "'s \<Rightarrow> u8 \<Rightarrow> 's"
    and contains :: "'s \<Rightarrow> u8 \<Rightarrow> bool"
    and flags :: "u8 set"
  assumes contains_insert: "f \<in> flags \<Longrightarrow> g \<in> flags \<Longrightarrow> contains (insert s f) g = (g = f \<or> contains s g)"
    and contains_remove: "f \<in> flags \<Longrightarrow> g \<in> flags \<Longrightarrow> contains (remove s f) g = (g \<noteq> f \<and> contains s g)"
begin

definition flag_set :: "'s \<Rightarrow> u8 set" where
  "flag_set s = {f \<in> flags. contains s f}"

lemma flag_set_insert: "f \<in> flags \<Longrightarrow> flag_set (insert s f) = Set.insert f (flag_set s)"
  by (auto simp: flag_set_def contains_insert)

lemma flag_set_remove: "f \<in> flags \<Longrightarrow> flag_set (remove s f) = flag_set s - {f}"
  by (auto simp: flag_set_def contains_remove)

end

text \<open>The bit operations the flag types use, on single-bit masks.\<close>

lemma and_or_mask:
  fixes s f g :: u8
  assumes "f AND g = 0 \<or> f = g"
  shows "(s OR f) AND g = g \<longleftrightarrow> f = g \<or> s AND g = g"
  using assms by (auto simp: bit_eq_iff bit_simps)

lemma and_not_mask:
  fixes s f g :: u8
  assumes "f AND g = 0 \<or> f = g" and "g \<noteq> 0"
  shows "(s AND NOT f) AND g = g \<longleftrightarrow> f \<noteq> g \<and> s AND g = g"
  using assms by (auto simp: bit_eq_iff bit_simps)

lemma bit_flags_of_masks:
  assumes "\<And>f g. f \<in> F \<Longrightarrow> g \<in> F \<Longrightarrow> f AND g = 0 \<or> f = g" and "\<And>g. g \<in> F \<Longrightarrow> g \<noteq> 0"
  shows "bit_flags (\<lambda>s f. s OR f) (\<lambda>s f. s AND NOT f) (\<lambda>s f. s AND f = f) F"
proof
  fix s f g :: u8
  assume "f \<in> F" "g \<in> F"
  then have fg: "f AND g = 0 \<or> f = g" and g: "g \<noteq> 0" using assms by blast+
  show "((s OR f) AND g = g) = (g = f \<or> s AND g = g)"
    using and_or_mask [OF fg, of s] by (simp add: eq_commute [of g f])
  show "((s AND NOT f) AND g = g) = (g \<noteq> f \<and> s AND g = g)"
    using and_not_mask [OF fg g, of s] by (simp add: eq_commute [of g f])
qed

end
