(* ===== verification/Ws_Proto.thy ===== *)
theory Ws_Proto
  imports Prelude
begin

text \<open>
  The WebSocket vocabulary of \<open>http-ws/src/proto.rs\<close> and \<open>http-ws/src/error.rs\<close>:
  operation codes, close codes, close reasons and the two error types, with the
  conversions between codes and wire numbers. A Rust \<open>String\<close> is the byte string of its
  UTF-8 encoding.
\<close>

section \<open>Operation codes\<close>

datatype OpCode =
    Op_Continue
  | Op_Text
  | Op_Binary
  | Op_Close
  | Op_Ping
  | Op_Pong
  | Op_Bad

definition u8_from_opcode :: "OpCode \<Rightarrow> u8" where
  "u8_from_opcode op =
     (case op of
        Op_Continue \<Rightarrow> 0
      | Op_Text \<Rightarrow> 1
      | Op_Binary \<Rightarrow> 2
      | Op_Close \<Rightarrow> 8
      | Op_Ping \<Rightarrow> 9
      | Op_Pong \<Rightarrow> 10
      | Op_Bad \<Rightarrow> 8)"

definition opcode_from_u8 :: "u8 \<Rightarrow> OpCode" where
  "opcode_from_u8 byte =
     (if byte = 0 then Op_Continue
      else if byte = 1 then Op_Text
      else if byte = 2 then Op_Binary
      else if byte = 8 then Op_Close
      else if byte = 9 then Op_Ping
      else if byte = 10 then Op_Pong
      else Op_Bad)"

section \<open>Close codes\<close>

text \<open>\<open>u16\<close> numbers are naturals below \<open>2 ^ 16\<close>.\<close>

datatype CloseCode =
    CC_Normal
  | CC_Away
  | CC_Protocol
  | CC_Unsupported
  | CC_Abnormal
  | CC_Invalid
  | CC_Policy
  | CC_Size
  | CC_Extension
  | CC_Error
  | CC_Restart
  | CC_Again
  | CC_Tls
  | CC_Other nat

definition u16_from_close_code :: "CloseCode \<Rightarrow> nat" where
  "u16_from_close_code code =
     (case code of
        CC_Normal \<Rightarrow> 1000
      | CC_Away \<Rightarrow> 1001
      | CC_Protocol \<Rightarrow> 1002
      | CC_Unsupported \<Rightarrow> 1003
      | CC_Abnormal \<Rightarrow> 1006
      | CC_Invalid \<Rightarrow> 1007
      | CC_Policy \<Rightarrow> 1008
      | CC_Size \<Rightarrow> 1009
      | CC_Extension \<Rightarrow> 1010
      | CC_Error \<Rightarrow> 1011
      | CC_Restart \<Rightarrow> 1012
      | CC_Again \<Rightarrow> 1013
      | CC_Tls \<Rightarrow> 1015
      | CC_Other c \<Rightarrow> c)"

definition close_code_from_u16 :: "nat \<Rightarrow> CloseCode" where
  "close_code_from_u16 code =
     (if code = 1000 then CC_Normal
      else if code = 1001 then CC_Away
      else if code = 1002 then CC_Protocol
      else if code = 1003 then CC_Unsupported
      else if code = 1006 then CC_Abnormal
      else if code = 1007 then CC_Invalid
      else if code = 1008 then CC_Policy
      else if code = 1009 then CC_Size
      else if code = 1010 then CC_Extension
      else if code = 1011 then CC_Error
      else if code = 1012 then CC_Restart
      else if code = 1013 then CC_Again
      else if code = 1015 then CC_Tls
      else CC_Other code)"

record CloseReason =
  code :: CloseCode
  description :: "bytes option"

definition close_reason_from_code :: "CloseCode \<Rightarrow> CloseReason" where
  "close_reason_from_code c = \<lparr>code = c, description = None\<rparr>"

definition close_reason_from_pair :: "CloseCode \<times> bytes \<Rightarrow> CloseReason" where
  "close_reason_from_pair info = \<lparr>code = fst info, description = Some (snd info)\<rparr>"

section \<open>Errors\<close>

datatype ProtocolError =
    UnmaskedFrame
  | MaskedFrame
  | InvalidOpcode u8
  | InvalidLength nat
  | BadOpCode
  | Overflow
  | ContinuationNotStarted
  | ContinuationStarted
  | ContinuationFragment OpCode
  | Closed

datatype HandshakeError =
    GetMethodRequired
  | ConnectMethodRequired
  | NoWebsocketUpgrade
  | NoConnectionUpgrade
  | NoVersionHeader
  | UnsupportedVersion
  | BadWebsocketKey

section \<open>Conversions\<close>

lemma opcode_from_u8_from_opcode:
  "op \<noteq> Op_Bad \<Longrightarrow> opcode_from_u8 (u8_from_opcode op) = op"
  by (cases op) (simp_all add: opcode_from_u8_def u8_from_opcode_def)

lemma u8_from_opcode_from_u8:
  "opcode_from_u8 b \<noteq> Op_Bad \<Longrightarrow> u8_from_opcode (opcode_from_u8 b) = b"
  by (auto simp: opcode_from_u8_def u8_from_opcode_def split: if_splits)

lemma u8_from_opcode_nibble: "u8_from_opcode op AND 15 = u8_from_opcode op"
  by (cases op) (simp_all add: u8_from_opcode_def)

lemma u8_from_opcode_bit7: "u8_from_opcode op AND 128 = 0"
  by (cases op) (simp_all add: u8_from_opcode_def)

text \<open>A close code that the numbering of \<open>From<u16>\<close> can produce.\<close>

definition canonical_code :: "CloseCode \<Rightarrow> bool" where
  "canonical_code c \<longleftrightarrow>
     (case c of CC_Other n \<Rightarrow> n < 2 ^ 16 \<and> close_code_from_u16 n = CC_Other n | _ \<Rightarrow> True)"

lemma u16_from_close_code_from_u16 [simp]:
  "u16_from_close_code (close_code_from_u16 n) = n"
  by (simp add: u16_from_close_code_def close_code_from_u16_def)

lemma close_code_from_u16_from_close_code:
  "canonical_code c \<Longrightarrow> close_code_from_u16 (u16_from_close_code c) = c"
  by (cases c) (simp_all add: canonical_code_def u16_from_close_code_def close_code_from_u16_def)

lemma canonical_code_from_u16: "n < 2 ^ 16 \<Longrightarrow> canonical_code (close_code_from_u16 n)"
  by (simp add: canonical_code_def close_code_from_u16_def)

lemma canonical_code_u16: "canonical_code c \<Longrightarrow> u16_from_close_code c < 65536"
  by (cases c) (simp_all add: canonical_code_def u16_from_close_code_def)

end
