(* ===== verification/Ws_Mask.thy ===== *)
theory Ws_Mask
  imports Prelude
begin

text \<open>
  Payload masking, \<open>http-ws/src/mask.rs\<close>. The byte-wise loop \<open>apply_mask_fallback\<close>, and the
  routine \<open>apply_mask_fast32\<close> in use, which works on 32-bit words in native byte order.
  Where \<open>align_to_mut\<close> cuts the buffer depends on its address, and the byte order on the
  target: the length \<open>head\<close> of the unaligned prefix, the number \<open>n\<close> of words and the
  byte order \<open>big\<close> are arguments of the model, and the theorems hold for all of them.
\<close>

type_synonym mask = "u8 \<times> u8 \<times> u8 \<times> u8"

section \<open>Byte-wise masking\<close>

definition mask_at :: "mask \<Rightarrow> nat \<Rightarrow> u8" where
  "mask_at m i = (case m of (a, b, c, d) \<Rightarrow> [a, b, c, d] ! (i mod 4))"

definition apply_mask_fallback :: "bytes \<Rightarrow> mask \<Rightarrow> bytes" where
  "apply_mask_fallback buf m = map (\<lambda>(i, byte). byte XOR mask_at m i) (enumerate 0 buf)"

section \<open>Native 32-bit words\<close>

definition u32_from_be :: "mask \<Rightarrow> u32" where
  "u32_from_be m = (case m of (a, b, c, d) \<Rightarrow>
     push_bit 24 (ucast a) OR push_bit 16 (ucast b) OR push_bit 8 (ucast c) OR ucast d)"

definition u32_to_be :: "u32 \<Rightarrow> mask" where
  "u32_to_be w = (ucast (drop_bit 24 w), ucast (drop_bit 16 w), ucast (drop_bit 8 w), ucast w)"

fun swap4 :: "mask \<Rightarrow> mask" where
  "swap4 (a, b, c, d) = (d, c, b, a)"

definition u32_from_ne_bytes :: "bool \<Rightarrow> mask \<Rightarrow> u32" where
  "u32_from_ne_bytes big m = (if big then u32_from_be m else u32_from_be (swap4 m))"

definition u32_to_ne_bytes :: "bool \<Rightarrow> u32 \<Rightarrow> mask" where
  "u32_to_ne_bytes big w = (if big then u32_to_be w else swap4 (u32_to_be w))"

section \<open>Word-wise masking\<close>

text \<open>The loop over the aligned words: each four bytes are one word.\<close>

fun mask_words :: "bool \<Rightarrow> u32 \<Rightarrow> bytes \<Rightarrow> bytes" where
  "mask_words big mw (a # b # c # d # ws) =
     (case u32_to_ne_bytes big (u32_from_ne_bytes big (a, b, c, d) XOR mw) of
        (a', b', c', d') \<Rightarrow> a' # b' # c' # d' # mask_words big mw ws)"
| "mask_words big mw ws = ws"

definition rotated_mask :: "bool \<Rightarrow> nat \<Rightarrow> mask \<Rightarrow> u32" where
  "rotated_mask big prefix_len m =
     (let mask_u32 = u32_from_ne_bytes big m; head = prefix_len mod 4 in
      if head > 0 then
        (if big then word_rotl (8 * head) mask_u32 else word_rotr (8 * head) mask_u32)
      else mask_u32)"

definition apply_mask_fast32 :: "bool \<Rightarrow> nat \<Rightarrow> nat \<Rightarrow> bytes \<Rightarrow> mask \<Rightarrow> bytes" where
  "apply_mask_fast32 big head n buf m =
     (let prefix = take head buf;
          words = take (4 * n) (drop head buf);
          suffix = drop (head + 4 * n) buf;
          mask_u32 = rotated_mask big (length prefix) m
      in apply_mask_fallback prefix m
         @ mask_words big mask_u32 words
         @ apply_mask_fallback suffix (u32_to_ne_bytes big mask_u32))"

text \<open>
  \<open>apply_mask\<close> hands the whole buffer over. An \<open>align\<close> value says how the buffer lies in
  memory: the target's byte order and how many bytes precede the first aligned address.
  \<open>align_to_mut\<close> makes the middle part as large as possible.
\<close>

type_synonym align = "bool \<times> nat"

definition apply_mask :: "align \<Rightarrow> bytes \<Rightarrow> mask \<Rightarrow> bytes" where
  "apply_mask al buf m =
     (let head = min (snd al) (length buf)
      in apply_mask_fast32 (fst al) head ((length buf - head) div 4) buf m)"

section \<open>Facts\<close>

lemma length_apply_mask_fallback [simp]: "length (apply_mask_fallback buf m) = length buf"
  by (simp add: apply_mask_fallback_def)

lemma nth_apply_mask_fallback [simp]:
  "i < length buf \<Longrightarrow> apply_mask_fallback buf m ! i = buf ! i XOR mask_at m i"
  by (simp add: apply_mask_fallback_def nth_enumerate_eq)

lemma apply_mask_fallback_involution [simp]:
  "apply_mask_fallback (apply_mask_fallback buf m) m = buf"
  by (rule nth_equalityI) (simp_all add: xor.assoc)

lemma u8_bit_bound: "bit (b :: u8) n \<Longrightarrow> n < 8"
  by (drule bit_imp_le_length) simp

lemma u32_to_be_from_be [simp]: "u32_to_be (u32_from_be m) = m"
  by (cases m) (auto simp: u32_to_be_def u32_from_be_def bit_eq_iff bit_simps dest: u8_bit_bound)

lemma swap4_swap4 [simp]: "swap4 (swap4 m) = m"
  by (cases m) simp

lemma u32_to_ne_from_ne [simp]: "u32_to_ne_bytes big (u32_from_ne_bytes big m) = m"
  by (simp add: u32_to_ne_bytes_def u32_from_ne_bytes_def)

text \<open>XOR on words is XOR on their bytes.\<close>

fun xor4 :: "mask \<Rightarrow> mask \<Rightarrow> mask" where
  "xor4 (a, b, c, d) (a', b', c', d') = (a XOR a', b XOR b', c XOR c', d XOR d')"

lemma u32_to_be_xor: "u32_to_be (v XOR w) = xor4 (u32_to_be v) (u32_to_be w)"
  by (auto simp: u32_to_be_def bit_eq_iff bit_simps)

lemma swap4_xor4: "swap4 (xor4 x y) = xor4 (swap4 x) (swap4 y)"
  by (cases x; cases y) simp

lemma u32_to_ne_xor:
  "u32_to_ne_bytes big (u32_from_ne_bytes big x XOR w) = xor4 x (u32_to_ne_bytes big w)"
  by (cases big)
    (simp_all add: u32_to_ne_bytes_def u32_from_ne_bytes_def u32_to_be_xor swap4_xor4)

text \<open>The mask as the bytes after the first \<open>h\<close> see it.\<close>

definition shift_mask :: "nat \<Rightarrow> mask \<Rightarrow> mask" where
  "shift_mask h m = (mask_at m h, mask_at m (h + 1), mask_at m (h + 2), mask_at m (h + 3))"

lemma mod4_cases: "(i :: nat) mod 4 = 0 \<or> i mod 4 = 1 \<or> i mod 4 = 2 \<or> i mod 4 = 3"
  by presburger

lemma mask_at_mod [simp]: "mask_at m (i mod 4) = mask_at m i"
  by (simp add: mask_at_def)

lemma mask_at_shift: "mask_at (shift_mask h m) i = mask_at m (h + i)"
proof -
  have "mask_at (shift_mask h m) i = mask_at m (h + i mod 4)"
    using mod4_cases [of i] by (auto simp: mask_at_def shift_mask_def split: prod.split)
  also have "\<dots> = mask_at m (h + i)"
    by (metis mask_at_mod mod_add_right_eq)
  finally show ?thesis .
qed

lemma shift_mask_cong: "h mod 4 = k mod 4 \<Longrightarrow> shift_mask h m = shift_mask k m"
  unfolding shift_mask_def by (metis mask_at_mod mod_add_left_eq)

lemma apply_mask_fallback_append:
  "apply_mask_fallback (xs @ ys) m =
   apply_mask_fallback xs m @ apply_mask_fallback ys (shift_mask (length xs) m)"
  by (rule nth_equalityI) (auto simp: nth_append mask_at_shift)

text \<open>Rotating the native word by whole bytes shifts the mask.\<close>

lemma rot_bytes_be:
  "u32_to_be (word_rotl 8 (u32_from_be (a, b, c, d))) = (b, c, d, a)"
  "u32_to_be (word_rotl 16 (u32_from_be (a, b, c, d))) = (c, d, a, b)"
  "u32_to_be (word_rotl 24 (u32_from_be (a, b, c, d))) = (d, a, b, c)"
  "u32_to_be (word_rotr 8 (u32_from_be (a, b, c, d))) = (d, a, b, c)"
  "u32_to_be (word_rotr 16 (u32_from_be (a, b, c, d))) = (c, d, a, b)"
  "u32_to_be (word_rotr 24 (u32_from_be (a, b, c, d))) = (b, c, d, a)"
  by (auto simp: u32_to_be_def u32_from_be_def bit_eq_iff bit_simps mod_if dest: u8_bit_bound)

lemma rotated_mask_bytes: "u32_to_ne_bytes big (rotated_mask big k m) = shift_mask k m"
proof -
  obtain a b c d where m: "m = (a, b, c, d)" by (cases m)
  have "u32_to_ne_bytes big (rotated_mask big k m) = shift_mask (k mod 4) m"
    using mod4_cases [of k]
    by (auto simp: rotated_mask_def Let_def m u32_to_ne_bytes_def u32_from_ne_bytes_def
        rot_bytes_be shift_mask_def mask_at_def)
  then show ?thesis using shift_mask_cong [of "k mod 4" k] by simp
qed

lemma mask_words_eq:
  "4 dvd length ws \<Longrightarrow> mask_words big mw ws = apply_mask_fallback ws (u32_to_ne_bytes big mw)"
proof (induction big mw ws rule: mask_words.induct)
  case (1 big mw a b c d ws)
  obtain p q r s where m: "u32_to_ne_bytes big mw = (p, q, r, s)"
    by (cases "u32_to_ne_bytes big mw")
  have "4 dvd length ws" using "1.prems" by simp presburger
  with "1.IH" have IH: "mask_words big mw ws = apply_mask_fallback ws (p, q, r, s)"
    unfolding m by (metis prod.collapse)
  have "apply_mask_fallback ([a, b, c, d] @ ws) (p, q, r, s)
      = (a XOR p) # (b XOR q) # (c XOR r) # (d XOR s) # apply_mask_fallback ws (p, q, r, s)"
    unfolding apply_mask_fallback_append
    by (simp add: shift_mask_def) (simp add: apply_mask_fallback_def mask_at_def)
  with IH show ?case by (simp add: u32_to_ne_xor m)
qed (simp_all add: apply_mask_fallback_def dvd_def, presburger+)

lemma fast_mask_eq:
  assumes "head + 4 * n \<le> length buf"
  shows "apply_mask_fast32 big head n buf m = apply_mask_fallback buf m"
proof -
  let ?p = "take head buf" and ?w = "take (4 * n) (drop head buf)"
    and ?s = "drop (head + 4 * n) buf"
  have buf: "buf = ?p @ ?w @ ?s"
    by (metis append_take_drop_id drop_drop add.commute)
  have len: "length ?p = head" "length ?w = 4 * n" using assms by simp_all
  have "apply_mask_fallback (?p @ ?w @ ?s) m = apply_mask_fallback ?p m
      @ apply_mask_fallback ?w (shift_mask head m)
      @ apply_mask_fallback ?s (shift_mask (length ?w) (shift_mask head m))"
    by (simp only: apply_mask_fallback_append len)
  also have "shift_mask (length ?w) (shift_mask head m) = shift_mask head m"
    unfolding len by (subst shift_mask_cong [where k = 0]) (simp_all add: shift_mask_def mask_at_shift mask_at_def)
  finally show ?thesis
    using len by (simp add: apply_mask_fast32_def Let_def rotated_mask_bytes mask_words_eq buf [symmetric])
qed

lemma apply_mask_eq [simp]: "apply_mask al buf m = apply_mask_fallback buf m"
  unfolding apply_mask_def Let_def 
  by (rule fast_mask_eq)
    (use times_div_less_eq_dividend [of 4 "length buf - min (snd al) (length buf)"] in linarith)

section \<open>Properties\<close>

text \<open>
  C21: The masking routine that works on aligned 32-bit words computes what the byte-wise routine computes, for
  every alignment of the buffer and either byte order of the machine, and masking twice with the same key gives
  the buffer back.
\<close>

theorem apply_mask_correct:
  "apply_mask al buf m = apply_mask_fallback buf m \<and> apply_mask al' (apply_mask al buf m) m = buf"
  by simp

end
