(* ===== verification/Utf8.thy ===== *)
theory Utf8
  imports Prelude
begin

text \<open>
  UTF-8 as the standard library reads it: \<open>utf8_first\<close> looks at the first character of a
  byte string the way \<open>core::str\<close>'s validation does, \<open>valid_utf8\<close> is
  \<open>from_utf8(..).is_ok()\<close>, and \<open>from_utf8_lossy\<close> replaces each maximal ill-formed piece by
  U+FFFD. Shown: the lossy text is always valid, and valid text is left alone.
\<close>

section \<open>Definitions\<close>

definition byte_at :: "bytes \<Rightarrow> nat \<Rightarrow> u8" where
  "byte_at bs i = (if i < length bs then bs ! i else 0)"

definition is_cont :: "u8 \<Rightarrow> bool" where
  "is_cont b \<longleftrightarrow> b AND 192 = 128"

definition second_of_3 :: "u8 \<Rightarrow> u8 \<Rightarrow> bool" where
  "second_of_3 b c \<longleftrightarrow>
     (b = 0xE0 \<and> 0xA0 \<le> c \<and> c \<le> 0xBF) \<or>
     (0xE1 \<le> b \<and> b \<le> 0xEC \<and> 0x80 \<le> c \<and> c \<le> 0xBF) \<or>
     (b = 0xED \<and> 0x80 \<le> c \<and> c \<le> 0x9F) \<or>
     (0xEE \<le> b \<and> b \<le> 0xEF \<and> 0x80 \<le> c \<and> c \<le> 0xBF)"

definition second_of_4 :: "u8 \<Rightarrow> u8 \<Rightarrow> bool" where
  "second_of_4 b c \<longleftrightarrow>
     (b = 0xF0 \<and> 0x90 \<le> c \<and> c \<le> 0xBF) \<or>
     (0xF1 \<le> b \<and> b \<le> 0xF3 \<and> 0x80 \<le> c \<and> c \<le> 0xBF) \<or>
     (b = 0xF4 \<and> 0x80 \<le> c \<and> c \<le> 0x8F)"

text \<open>Whether the first character is well formed, and how many bytes it or the ill-formed piece has.\<close>

definition utf8_first :: "bytes \<Rightarrow> bool \<times> nat" where
  "utf8_first bs =
     (let b = byte_at bs 0 in
      if b < 0x80 then (True, 1)
      else if 0xC2 \<le> b \<and> b \<le> 0xDF then
        (if is_cont (byte_at bs 1) then (True, 2) else (False, 1))
      else if 0xE0 \<le> b \<and> b \<le> 0xEF then
        (if \<not> second_of_3 b (byte_at bs 1) then (False, 1)
         else if is_cont (byte_at bs 2) then (True, 3) else (False, 2))
      else if 0xF0 \<le> b \<and> b \<le> 0xF4 then
        (if \<not> second_of_4 b (byte_at bs 1) then (False, 1)
         else if \<not> is_cont (byte_at bs 2) then (False, 2)
         else if is_cont (byte_at bs 3) then (True, 4) else (False, 3))
      else (False, 1))"

lemma utf8_first_pos: "utf8_first bs = (v, n) \<Longrightarrow> 0 < n"
  by (auto simp: utf8_first_def Let_def split: if_splits)

function valid_utf8 :: "bytes \<Rightarrow> bool" where
  "valid_utf8 bs =
     (if bs = [] then True
      else (case utf8_first bs of (v, n) \<Rightarrow> if v then valid_utf8 (drop n bs) else False))"
  by pat_completeness auto
termination
  by (relation "measure length") (auto dest: utf8_first_pos [OF sym])

definition replacement_char :: bytes where
  "replacement_char = [0xEF, 0xBF, 0xBD]"

function from_utf8_lossy :: "bytes \<Rightarrow> bytes" where
  "from_utf8_lossy bs =
     (if bs = [] then []
      else (case utf8_first bs of (v, n) \<Rightarrow>
        (if v then take n bs else replacement_char) @ from_utf8_lossy (drop n bs)))"
  by pat_completeness auto
termination
  by (relation "measure length") (auto dest: utf8_first_pos [OF sym])

declare valid_utf8.simps [simp del] from_utf8_lossy.simps [simp del]

section \<open>Facts\<close>

lemma valid_utf8_Nil [simp]: "valid_utf8 []"
  by (subst valid_utf8.simps) simp

lemma from_utf8_lossy_Nil [simp]: "from_utf8_lossy [] = []"
  by (subst from_utf8_lossy.simps) simp

lemma byte_at_append: "i < length bs \<Longrightarrow> byte_at (bs @ cs) i = byte_at bs i"
  by (simp add: byte_at_def nth_append)

lemma nonzero_byte_at: "byte_at bs i \<noteq> 0 \<Longrightarrow> i < length bs"
  by (simp add: byte_at_def split: if_splits)

lemma is_cont_nonzero: "is_cont b \<Longrightarrow> b \<noteq> 0"
  by (auto simp: is_cont_def)

lemma second_nonzero: "second_of_3 b c \<Longrightarrow> c \<noteq> 0" "second_of_4 b c \<Longrightarrow> c \<noteq> 0"
  by (auto simp: second_of_3_def second_of_4_def)

text \<open>A well-formed character lies within the string, and what follows it does not matter.\<close>

lemma utf8_first_length:
  assumes "utf8_first bs = (True, n)" and "bs \<noteq> []"
  shows "n \<le> length bs"
  using assms
  by (auto simp: utf8_first_def Let_def Suc_le_eq numeral_eq_Suc split: if_splits
      dest!: is_cont_nonzero dest: nonzero_byte_at)

lemma byte_at_take: "i < n \<Longrightarrow> byte_at (take n bs @ cs) i = byte_at bs i" if "n \<le> length bs"
  using that by (simp add: byte_at_def nth_append)

lemma utf8_first_take:
  assumes "utf8_first bs = (True, n)" and "n \<le> length bs"
  shows "utf8_first (take n bs @ cs) = (True, n)"
proof -
  have at: "i < n \<Longrightarrow> byte_at (take n bs @ cs) i = byte_at bs i" for i
    by (rule byte_at_take) (use assms in auto)
  have "0 < n" using assms(1) by (rule utf8_first_pos)
  with assms(1) at show ?thesis
    by (auto simp: utf8_first_def Let_def split: if_splits)
qed

lemma valid_utf8_replacement: "valid_utf8 (replacement_char @ cs) = valid_utf8 cs"
  by (subst valid_utf8.simps)
    (simp add: replacement_char_def utf8_first_def byte_at_def second_of_3_def is_cont_def)

lemma from_utf8_lossy_valid: "valid_utf8 (from_utf8_lossy bs)"
proof (induction bs rule: from_utf8_lossy.induct)
  case (1 bs)
  obtain v n where f: "utf8_first bs = (v, n)" by (cases "utf8_first bs")
  show ?case
  proof (cases "bs = []")
    case False
    with 1 f have IH: "valid_utf8 (from_utf8_lossy (drop n bs))" by simp
    show ?thesis
    proof (cases v)
      case True
      with f False have n: "n \<le> length bs" by (simp add: utf8_first_length)
      with f True have "utf8_first (take n bs @ from_utf8_lossy (drop n bs)) = (True, n)"
        by (simp add: utf8_first_take)
      with n IH have "valid_utf8 (take n bs @ from_utf8_lossy (drop n bs))"
        by (subst valid_utf8.simps) simp
      with False f True show ?thesis by (simp add: from_utf8_lossy.simps [of bs])
    next
      case False
      with \<open>bs \<noteq> []\<close> f IH show ?thesis
        by (simp add: from_utf8_lossy.simps [of bs] valid_utf8_replacement)
    qed
  qed simp
qed

lemma from_utf8_lossy_id: "valid_utf8 bs \<Longrightarrow> from_utf8_lossy bs = bs"
proof (induction bs rule: from_utf8_lossy.induct)
  case (1 bs)
  then show ?case
    by (cases "bs = []")
      (auto simp: from_utf8_lossy.simps [of bs] valid_utf8.simps [of bs] split: prod.splits)
qed

end
