(* ===== verification/Ws_Frame.thy ===== *)
theory Ws_Frame
  imports Ws_Proto Ws_Mask Utf8
begin

text \<open>
  WebSocket frames, \<open>http-ws/src/frame.rs\<close>: reading the frame header and the frame off the
  receive buffer, writing a frame into the send buffer, and the payload of close frames.
  The buffer is the list of its bytes; \<open>parse\<close> returns it with what is left. \<open>usize\<close> is
  64 bits wide, and the one addition that can exceed it wraps as in a release build. Indexing,
  slicing, conversion of a slice to an array, \<open>advance\<close> and \<open>split_to\<close> panic out of range. The
  random mask that \<open>write_message\<close> draws is its argument \<open>rnd\<close>; the \<open>align\<close> arguments say
  how the masked bytes lie in memory.
\<close>

type_synonym metadata = "nat \<times> bool \<times> OpCode \<times> nat \<times> mask option"
type_synonym frame = "bool \<times> OpCode \<times> bytes option"

section \<open>Reading\<close>

text \<open>\<open>src[i]\<close> and \<open>src[i..j]\<close>; \<open>None\<close> is the panic out of range.\<close>

definition at :: "bytes \<Rightarrow> nat \<Rightarrow> u8 option" where
  "at src i = (if i < length src then Some (src ! i) else None)"

definition slice :: "bytes \<Rightarrow> nat \<Rightarrow> nat \<Rightarrow> bytes option" where
  "slice src i j = (if i \<le> j \<and> j \<le> length src then Some (take (j - i) (drop i src)) else None)"

text \<open>\<open>uN::from_be_bytes\<close> and \<open><[u8; 4]>::try_from\<close> of a slice; a slice of another length makes \<open>unwrap\<close> panic.\<close>

definition be_array :: "nat \<Rightarrow> bytes option \<Rightarrow> nat option" where
  "be_array n bs = Option.bind bs (\<lambda>bs. if length bs = n then Some (from_be bs) else None)"

definition mask_array :: "bytes option \<Rightarrow> mask option" where
  "mask_array bs = Option.bind bs (\<lambda>bs. if length bs = 4 then Some (bs ! 0, bs ! 1, bs ! 2, bs ! 3) else None)"

text \<open>The extended payload length: the index after it and the length.\<close>

definition parse_length :: "bytes \<Rightarrow> nat \<Rightarrow> nat \<Rightarrow> ProtocolError fault + (nat \<times> nat) option" where
  "parse_length src len max_size =
     (let chunk_len = length src; idx = 2 in
      if len = 126 then
        (if chunk_len < 4 then Inr None
         else (case be_array 2 (slice src idx (idx + 2)) of
             None \<Rightarrow> Inl Panic
           | Some l \<Rightarrow> Inr (Some (idx + 2, l))))
      else if len = 127 then
        (if chunk_len < 10 then Inr None
         else (case be_array 8 (slice src idx (idx + 8)) of
             None \<Rightarrow> Inl Panic
           | Some l \<Rightarrow> if l > max_size then Inl (Err Overflow) else Inr (Some (idx + 8, l))))
      else Inr (Some (idx, len)))"

definition parse_metadata :: "bytes \<Rightarrow> bool \<Rightarrow> nat \<Rightarrow> ProtocolError fault + metadata option" where
  "parse_metadata src server max_size =
     (let chunk_len = length src in
      if chunk_len < 2 then Inr None
      else (case (at src 0, at src 1) of
          (Some first, Some second) \<Rightarrow>
            (let finished = first AND 0x80 \<noteq> 0; masked = second AND 0x80 \<noteq> 0 in
             if \<not> masked \<and> server then Inl (Err UnmaskedFrame)
             else if masked \<and> \<not> server then Inl (Err MaskedFrame)
             else (let opcode = opcode_from_u8 (first AND 0x0F) in
               if opcode = Op_Bad then Inl (Err (InvalidOpcode (first AND 0x0F)))
               else (case parse_length src (unat (second AND 0x7F)) max_size of
                   Inl e \<Rightarrow> Inl e
                 | Inr None \<Rightarrow> Inr None
                 | Inr (Some (idx, len)) \<Rightarrow>
                     if len > max_size then Inl (Err Overflow)
                     else if server then
                       (if chunk_len < idx + 4 then Inr None
                        else (case mask_array (slice src idx (idx + 4)) of
                            None \<Rightarrow> Inl Panic
                          | Some m \<Rightarrow> Inr (Some (idx + 4, finished, opcode, len, Some m))))
                     else Inr (Some (idx, finished, opcode, len, None)))))
        | _ \<Rightarrow> Inl Panic))"

definition parse ::
  "align \<Rightarrow> bytes \<Rightarrow> bool \<Rightarrow> nat \<Rightarrow> (ProtocolError fault + frame option) \<times> bytes" where
  "parse al src server max_size =
     (case parse_metadata src server max_size of
        Inl e \<Rightarrow> (Inl e, src)
      | Inr None \<Rightarrow> (Inr None, src)
      | Inr (Some (idx, finished, opcode, len, msk)) \<Rightarrow>
          if length src < usize_add idx len then (Inr None, src)
          else if length src < idx then (Inl Panic, src)
          else (let src = drop idx src in
            if len = 0 then (Inr (Some (finished, opcode, None)), src)
            else if length src < len then (Inl Panic, src)
            else (let data = take len src; src = drop len src in
              if (opcode = Op_Ping \<or> opcode = Op_Pong) \<and> len > 125
              then (Inl (Err (InvalidLength len)), src)
              else if opcode = Op_Close \<and> len > 125
              then (Inr (Some (True, Op_Close, None)), src)
              else (let data = (case msk of Some m \<Rightarrow> apply_mask al data m | None \<Rightarrow> data) in
                (Inr (Some (finished, opcode, Some data)), src)))))"

definition parse_close_payload :: "bytes \<Rightarrow> CloseReason option" where
  "parse_close_payload payload =
     (if 2 \<le> length payload
      then Some \<lparr>code = close_code_from_u16 (from_be (take 2 payload)),
                 description = (if length payload > 2
                   then Some (from_utf8_lossy (drop 2 payload)) else None)\<rparr>
      else None)"

section \<open>Writing\<close>

fun mask_bytes :: "mask \<Rightarrow> bytes" where
  "mask_bytes (a, b, c, d) = [a, b, c, d]"

definition frame_head :: "u8 \<Rightarrow> u8 \<Rightarrow> nat \<Rightarrow> bytes" where
  "frame_head one two len =
     (if len < 126 then [one, two OR word_of_nat len]
      else if len \<le> 65535 then [one, two OR 126] @ to_be 2 len
      else [one, two OR 127] @ to_be 8 len)"

definition write_message ::
  "align \<Rightarrow> mask \<Rightarrow> bytes \<Rightarrow> bytes \<Rightarrow> OpCode \<Rightarrow> bool \<Rightarrow> bool \<Rightarrow> bytes" where
  "write_message al rnd dst payload op fin msk =
     (let one = (if fin then 0x80 OR u8_from_opcode op else u8_from_opcode op);
          len = length payload;
          two = (if msk then 0x80 else 0);
          dst = dst @ frame_head one two len
      in if msk then
           (let dst = dst @ mask_bytes rnd @ payload; pos = length dst - len
            in take pos dst @ apply_mask al (drop pos dst) rnd)
         else dst @ payload)"

definition write_close :: "align \<Rightarrow> mask \<Rightarrow> bytes \<Rightarrow> CloseReason option \<Rightarrow> bool \<Rightarrow> bytes" where
  "write_close al rnd dst reason msk =
     (let payload = (case reason of
            None \<Rightarrow> []
          | Some r \<Rightarrow> to_be 2 (u16_from_close_code (code r))
              @ (case description r of None \<Rightarrow> [] | Some d \<Rightarrow> d))
      in write_message al rnd dst payload Op_Close True msk)"

section \<open>What reading does\<close>

lemma length_mask_bytes [simp]: "length (mask_bytes m) = 4"
  by (cases m) simp

text \<open>The guards on the length of the input make every access succeed.\<close>

definition mask_at :: "nat \<Rightarrow> bytes \<Rightarrow> mask" where
  "mask_at i src = (src ! i, src ! (i + 1), src ! (i + 2), src ! (i + 3))"

lemma mask_at_bytes [simp]: "length h = i \<Longrightarrow> mask_at i (h @ mask_bytes m @ r) = m"
  by (cases m) (simp add: mask_at_def nth_append)

lemma mask_at_Suc [simp]: "mask_at (Suc i) (x # src) = mask_at i src"
  by (simp add: mask_at_def add.commute)

lemma mask_at_append [simp]: "i + 4 \<le> length p \<Longrightarrow> mask_at i (p @ q) = mask_at i p"
  by (simp add: mask_at_def nth_append)

lemma parse_length_guarded:
  "parse_length src len max_size =
     (if len = 126 then
        (if length src < 4 then Inr None else Inr (Some (4, from_be (take 2 (drop 2 src)))))
      else if len = 127 then
        (if length src < 10 then Inr None
         else (let l = from_be (take 8 (drop 2 src)) in
           if l > max_size then Inl (Err Overflow) else Inr (Some (10, l))))
      else Inr (Some (2, len)))"
  by (simp add: parse_length_def be_array_def slice_def Let_def)

lemma parse_metadata_guarded:
  "parse_metadata src server max_size =
     (if length src < 2 then Inr None
      else (let first = src ! 0; second = src ! 1;
                finished = first AND 0x80 \<noteq> 0; masked = second AND 0x80 \<noteq> 0 in
        if \<not> masked \<and> server then Inl (Err UnmaskedFrame)
        else if masked \<and> \<not> server then Inl (Err MaskedFrame)
        else (let opcode = opcode_from_u8 (first AND 0x0F) in
          if opcode = Op_Bad then Inl (Err (InvalidOpcode (first AND 0x0F)))
          else (case parse_length src (unat (second AND 0x7F)) max_size of
              Inl e \<Rightarrow> Inl e
            | Inr None \<Rightarrow> Inr None
            | Inr (Some (idx, len)) \<Rightarrow>
                if len > max_size then Inl (Err Overflow)
                else if server then
                  (if length src < idx + 4 then Inr None
                   else Inr (Some (idx + 4, finished, opcode, len, Some (mask_at idx src))))
                else Inr (Some (idx, finished, opcode, len, None))))))"
  by (auto simp: parse_metadata_def at_def mask_array_def slice_def mask_at_def Let_def min_def split: sum.splits option.splits)

lemma write_message_eq:
  "write_message al rnd dst payload op fin msk =
   dst @ frame_head (if fin then 0x80 OR u8_from_opcode op else u8_from_opcode op)
             (if msk then 0x80 else 0) (length payload)
       @ (if msk then mask_bytes rnd @ apply_mask_fallback payload rnd else payload)"
  by (simp add: write_message_def Let_def)

lemma frame_head_flags:
  "(0x80 OR u8_from_opcode op) AND 0x80 \<noteq> 0"
  "(0x80 OR u8_from_opcode op) AND 0x0F = u8_from_opcode op"
  by (cases op, simp_all add: u8_from_opcode_def)+

lemma length_7bit:
  assumes "n < 126"
  shows "unat ((word_of_nat n :: u8) AND 0x7F) = n"
    and "unat ((0x80 OR word_of_nat n :: u8) AND 0x7F) = n"
    and "(word_of_nat n :: u8) AND 0x80 = 0"
    and "(0x80 OR word_of_nat n :: u8) AND 0x80 \<noteq> 0"
proof -
  have "\<forall>n \<in> set [0..<126]. unat ((word_of_nat n :: u8) AND 0x7F) = n
      \<and> unat ((0x80 OR word_of_nat n :: u8) AND 0x7F) = n
      \<and> (word_of_nat n :: u8) AND 0x80 = 0 \<and> (0x80 OR word_of_nat n :: u8) AND 0x80 \<noteq> 0"
    by code_simp
  then show "unat ((word_of_nat n :: u8) AND 0x7F) = n"
    and "unat ((0x80 OR word_of_nat n :: u8) AND 0x7F) = n"
    and "(word_of_nat n :: u8) AND 0x80 = 0"
    and "(0x80 OR word_of_nat n :: u8) AND 0x80 \<noteq> 0"
    using assms by auto
qed

text \<open>The second byte of a frame and the extended length after it.\<close>

definition len_byte :: "nat \<Rightarrow> u8" where
  "len_byte len = (if len < 126 then word_of_nat len else if len \<le> 65535 then 126 else 127)"

definition len_ext :: "nat \<Rightarrow> bytes" where
  "len_ext len = (if len < 126 then [] else if len \<le> 65535 then to_be 2 len else to_be 8 len)"

lemma frame_head_eq: "frame_head one two len = one # (two OR len_byte len) # len_ext len"
  by (simp add: frame_head_def len_byte_def len_ext_def)

lemma len_byte_bits:
  "unat (len_byte len AND 0x7F) = (if len < 126 then len else if len \<le> 65535 then 126 else 127)"
  "unat ((0x80 OR len_byte len) AND 0x7F) = (if len < 126 then len else if len \<le> 65535 then 126 else 127)"
  "len_byte len AND 0x80 = 0"
  "(0x80 OR len_byte len) AND 0x80 \<noteq> 0"
  by (simp_all add: len_byte_def length_7bit)

lemma parse_length_frame:
  assumes "len \<le> max_size" and "len < 2 ^ 64"
  shows "parse_length (one # two # len_ext len @ tail)
      (if len < 126 then len else if len \<le> 65535 then 126 else 127) max_size
    = Inr (Some (2 + length (len_ext len), len))"
  using assms by (simp add: parse_length_guarded len_ext_def)

lemma parse_metadata_frame:
  assumes op: "op \<noteq> Op_Bad" and len: "len \<le> max_size" "len < 2 ^ 64"
  shows "parse_metadata (frame_head (if fin then 0x80 OR u8_from_opcode op else u8_from_opcode op)
           (if msk then 0x80 else 0) len @ (if msk then mask_bytes rnd else []) @ tail) msk max_size
    = Inr (Some (2 + length (len_ext len) + (if msk then 4 else 0), fin, op, len,
        if msk then Some rnd else None))"
  using op len
  by (simp add: parse_metadata_guarded frame_head_eq Let_def parse_length_frame len_byte_bits
      frame_head_flags u8_from_opcode_bit7 u8_from_opcode_nibble opcode_from_u8_from_opcode)

text \<open>A frame that the reader accepts as it was written.\<close>

definition frame_ok :: "nat \<Rightarrow> frame \<Rightarrow> bool" where
  "frame_ok max_size f =
     (case f of (fin, op, payload) \<Rightarrow>
        op \<noteq> Op_Bad \<and> payload \<noteq> Some [] \<and>
        (case payload of None \<Rightarrow> True | Some pl \<Rightarrow> length pl \<le> max_size \<and>
          (op \<in> {Op_Ping, Op_Pong, Op_Close} \<longrightarrow> length pl \<le> 125)))"

definition write_frame :: "align \<Rightarrow> bool \<Rightarrow> mask \<Rightarrow> frame \<Rightarrow> bytes" where
  "write_frame al msk rnd f =
     (case f of (fin, op, payload) \<Rightarrow>
        write_message al rnd [] (case payload of None \<Rightarrow> [] | Some pl \<Rightarrow> pl) op fin msk)"

lemma parse_by_metadata:
  assumes "parse_metadata (h @ data @ rest) server max_size
      = Inr (Some (length h, fin, op, length data, msk))"
    and "length h + length data < 2 ^ 64"
    and "op \<in> {Op_Ping, Op_Pong, Op_Close} \<Longrightarrow> length data \<le> 125"
  shows "parse al (h @ data @ rest) server max_size =
    (Inr (Some (fin, op, if data = [] then None
       else Some (case msk of Some m \<Rightarrow> apply_mask_fallback data m | None \<Rightarrow> data))), rest)"
  using assms by (cases op) (simp_all add: parse_def usize_add_small split: option.split)

lemma parse_written:
  assumes op: "op \<noteq> Op_Bad" and len: "length pl \<le> max_size" "max_size < 2 ^ 63"
    and ctl: "op \<in> {Op_Ping, Op_Pong, Op_Close} \<Longrightarrow> length pl \<le> 125"
  shows "parse al (write_message al' rnd [] pl op fin msk @ rest) msk max_size
    = (Inr (Some (fin, op, if pl = [] then None else Some pl)), rest)"
proof -
  define one :: u8 where "one = (if fin then 0x80 OR u8_from_opcode op else u8_from_opcode op)"
  define two :: u8 where "two = (if msk then 0x80 else 0)"
  define h where "h = frame_head one two (length pl) @ (if msk then mask_bytes rnd else [])"
  define body where "body = (if msk then apply_mask_fallback pl rnd else pl)"
  have w: "write_message al' rnd [] pl op fin msk @ rest = h @ body @ rest"
    by (simp add: write_message_eq h_def body_def one_def two_def)
  have lh: "length h = 2 + length (len_ext (length pl)) + (if msk then 4 else 0)"
    by (simp add: h_def frame_head_eq)
  have lb: "length body = length pl" by (simp add: body_def)
  have "parse_metadata (h @ body @ rest) msk max_size
      = Inr (Some (2 + length (len_ext (length pl)) + (if msk then 4 else 0), fin, op, length pl,
          if msk then Some rnd else None))"
    unfolding h_def one_def two_def append_assoc
    by (rule parse_metadata_frame) (use op len in auto)
  then have "parse_metadata (h @ body @ rest) msk max_size
      = Inr (Some (length h, fin, op, length body, if msk then Some rnd else None))"
    by (simp only: lh lb)
  moreover have "length h + length body < 2 ^ 64"
    using len by (simp add: lh lb len_ext_def)
  moreover have "op \<in> {Op_Ping, Op_Pong, Op_Close} \<Longrightarrow> length body \<le> 125"
    using ctl lb by simp
  ultimately have "parse al (h @ body @ rest) msk max_size =
    (Inr (Some (fin, op, if body = [] then None
       else Some (case if msk then Some rnd else None of
           Some m \<Rightarrow> apply_mask_fallback body m | None \<Rightarrow> body))), rest)"
    by (rule parse_by_metadata)
  moreover have "body = [] \<longleftrightarrow> pl = []" using lb by (metis length_0_conv)
  ultimately show ?thesis unfolding w by (simp add: body_def)
qed

section \<open>More input never changes a decision\<close>

lemma parse_length_append:
  assumes "parse_length p l max_size = r" and "r \<noteq> Inr None"
  shows "parse_length (p @ q) l max_size = r"
  using assms by (auto simp: parse_length_guarded Let_def split: if_splits)

lemma parse_length_idx:
  "parse_length src l max_size = Inr (Some (idx, len)) \<Longrightarrow> 2 \<le> length src \<Longrightarrow>
   2 \<le> idx \<and> idx \<le> 10 \<and> idx \<le> length src"
  by (auto simp: parse_length_guarded Let_def split: if_splits)

lemma parse_metadata_append:
  assumes "parse_metadata p server max_size = r" and "r \<noteq> Inr None"
  shows "parse_metadata (p @ q) server max_size = r"
proof -
  let ?l = "unat (p ! 1 AND 0x7F)"
  from assms have len: "2 \<le> length p"
    by (auto simp: parse_metadata_guarded Let_def split: if_splits)
  then have nth: "(p @ q) ! 0 = p ! 0" "(p @ q) ! 1 = p ! 1"
    by (auto simp: nth_append)
  show ?thesis
  proof (cases "parse_length p ?l max_size = Inr None")
    case True
    with assms len nth show ?thesis
      by (auto simp: parse_metadata_guarded Let_def split: if_splits)
  next
    case False
    then have "parse_length (p @ q) ?l max_size = parse_length p ?l max_size"
      by (simp add: parse_length_append)
    with assms len nth show ?thesis
      by (auto simp: parse_metadata_guarded Let_def split: if_splits sum.splits option.splits
          dest: parse_length_idx)
  qed
qed

lemma parse_metadata_bounds:
  assumes "parse_metadata src server max_size = Inr (Some (idx, fin, op, len, msk))"
  shows "2 \<le> idx" and "idx \<le> 14" and "idx \<le> length src" and "len \<le> max_size"
    and "op \<noteq> Op_Bad" and "(msk = None) = (\<not> server)"
  using assms
  by (auto simp: parse_metadata_guarded Let_def split: if_splits sum.splits option.splits
      dest: parse_length_idx)

text \<open>A frame that fits the limit: the sum of header and payload length stays a \<open>usize\<close>.\<close>

lemma parse_metadata_no_wrap:
  assumes "parse_metadata src server max_size = Inr (Some (idx, fin, op, len, msk))"
    and "max_size < 2 ^ 63"
  shows "usize_add idx len = idx + len"
  using parse_metadata_bounds [OF assms(1)] assms(2) by (simp add: usize_add_small)

text \<open>Under such a limit the frame is read by natural numbers, and no branch panics.\<close>

lemma parse_eq:
  assumes "max_size < 2 ^ 63"
  shows "parse al src server max_size =
     (case parse_metadata src server max_size of
        Inl e \<Rightarrow> (Inl e, src)
      | Inr None \<Rightarrow> (Inr None, src)
      | Inr (Some (idx, finished, opcode, len, msk)) \<Rightarrow>
          if length src < idx + len then (Inr None, src)
          else (if len = 0 then Inr (Some (finished, opcode, None))
                else if (opcode = Op_Ping \<or> opcode = Op_Pong) \<and> len > 125
                then Inl (Err (InvalidLength len))
                else if opcode = Op_Close \<and> len > 125
                then Inr (Some (True, Op_Close, None))
                else Inr (Some (finished, opcode, Some
                  (case msk of Some m \<Rightarrow> apply_mask_fallback (take len (drop idx src)) m
                   | None \<Rightarrow> take len (drop idx src)))),
             drop (idx + len) src))"
proof (cases "parse_metadata src server max_size")
  case (Inl e)
  then show ?thesis by (simp add: parse_def)
next
  case (Inr md)
  show ?thesis
  proof (cases md)
    case None
    with Inr show ?thesis by (simp add: parse_def)
  next
    case (Some t)
    obtain idx fin op len msk where t: "t = (idx, fin, op, len, msk)" by (cases t)
    with Inr Some have m: "parse_metadata src server max_size = Inr (Some (idx, fin, op, len, msk))"
      by simp
    have "idx \<le> length src" by (rule parse_metadata_bounds [OF m])
    then have short: "length src - idx < len \<longleftrightarrow> length src < idx + len" by linarith
    show ?thesis
      unfolding parse_def m
      by (cases msk) (simp_all add: parse_metadata_no_wrap [OF m assms] Let_def add.commute short)
  qed
qed

lemma parse_append:
  assumes "parse al p server max_size = (res, r)" and "res \<noteq> Inr None" and "max_size < 2 ^ 63"
  shows "parse al (p @ q) server max_size = (res, r @ q)"
proof -
  have "parse_metadata p server max_size \<noteq> Inr None"
    using assms(1,2) by (auto simp: parse_def)
  then have "parse_metadata (p @ q) server max_size = parse_metadata p server max_size"
    by (simp add: parse_metadata_append)
  with assms show ?thesis
    by (auto simp: parse_eq split: if_splits sum.splits option.splits prod.splits
        dest: parse_metadata_bounds)
qed

text \<open>No header makes the reader panic, and what it takes off the buffer is a prefix.\<close>

lemma parse_metadata_no_panic: "parse_metadata src server max_size \<noteq> Inl Panic"
  by (auto simp: parse_metadata_guarded parse_length_guarded Let_def split: if_splits sum.splits option.splits)

lemma parse_no_panic:
  "max_size < 2 ^ 63 \<Longrightarrow> fst (parse al src server max_size) \<noteq> Inl Panic"
  using parse_metadata_no_panic by (auto simp: parse_eq split: sum.splits option.splits prod.splits)

lemma parse_length_u64:
  "parse_length src l max_size = Inr (Some (idx, len)) \<Longrightarrow> l < 128 \<Longrightarrow> len < 2 ^ 64"
  using from_be_bound [of "take 8 (drop 2 src)"] from_be_bound [of "take 2 (drop 2 src)"]
  by (auto simp: parse_length_guarded Let_def split: if_splits)

lemma parse_metadata_u64:
  assumes "parse_metadata src server max_size = Inr (Some (idx, fin, op, len, msk))"
  shows "len < 2 ^ 64"
proof -
  have "unat (w AND 0x7F) < 128" for w :: u8
    using word_and_le1 [of w "0x7F"] by (simp add: word_le_nat_alt)
  then show ?thesis using assms
    by (auto simp: parse_metadata_guarded Let_def split: if_splits sum.splits option.splits dest: parse_length_u64)
qed

lemma parse_suffix:
  assumes "parse al src server max_size = (res, rest)" and "max_size < 2 ^ 63"
  shows "\<exists>n. n \<le> length src \<and> rest = drop n src \<and> (\<forall>f. res = Inr (Some f) \<longrightarrow> 2 \<le> n)"
proof (cases "res = Inr None \<or> (\<exists>e. parse_metadata src server max_size = Inl e)")
  case True
  with assms have "rest = src \<and> (\<forall>f. res \<noteq> Inr (Some f))"
    by (auto simp: parse_eq split: sum.splits option.splits prod.splits if_splits)
  then show ?thesis by (intro exI [of _ 0]) auto
next
  case False
  with assms obtain idx fin op len msk where
    m: "parse_metadata src server max_size = Inr (Some (idx, fin, op, len, msk))"
    by (auto simp: parse_eq split: sum.splits option.splits prod.splits)
  with False assms have "idx + len \<le> length src" and "rest = drop (idx + len) src"
    by (auto simp: parse_eq split: if_splits)
  with parse_metadata_bounds(1) [OF m] show ?thesis by (intro exI [of _ "idx + len"]) auto
qed

definition read_frame :: "align \<Rightarrow> bool \<Rightarrow> nat \<Rightarrow> bytes \<Rightarrow> (frame \<times> bytes) option" where
  "read_frame al server max_size src =
     (case parse al src server max_size of
        (Inr (Some f), rest) \<Rightarrow> Some (f, rest)
      | _ \<Rightarrow> None)"

text \<open>Frames written by one end are read by the other, whatever masks were drawn.\<close>

interpretation ws_frames:
  frame_codec "\<lambda>f. max_size < 2 ^ 63 \<and> frame_ok max_size f"
    "\<lambda>(al, rnd). write_frame al msk rnd" "read_frame al msk max_size"
  for al msk max_size
proof
  fix f :: frame and c :: "align \<times> mask" and rest
  assume ok: "max_size < 2 ^ 63 \<and> frame_ok max_size f"
  obtain al' rnd where c: "c = (al', rnd)" by (cases c)
  obtain fin op pl where f: "f = (fin, op, pl)" by (cases f)
  have "parse al (write_message al' rnd [] (case pl of None \<Rightarrow> [] | Some p \<Rightarrow> p) op fin msk @ rest)
      msk max_size = (Inr (Some f), rest)"
    using ok unfolding f frame_ok_def
    by (subst parse_written) (auto split: option.splits)
  then show "read_frame al msk max_size ((case c of (al, rnd) \<Rightarrow> write_frame al msk rnd) f @ rest)
      = Some (f, rest)"
    by (simp add: read_frame_def write_frame_def c f)
  show "(case c of (al, rnd) \<Rightarrow> write_frame al msk rnd) f \<noteq> []"
    by (simp add: c f write_frame_def write_message_eq frame_head_eq)
qed

section \<open>Properties\<close>

text \<open>
  C22: A sequence of frames written by one end, each with its own mask, is read back by the other end as the
  same sequence of frames, and the bytes that follow are left in the buffer.
\<close>

theorem frame_stream_roundtrip:
  assumes "max_size < 2 ^ 63" and "\<forall>(c, f)\<in>set cfs. frame_ok max_size f"
  shows "ws_frames.decode_many al msk max_size (length cfs) (ws_frames.enc_all msk cfs @ rest) = (map snd cfs, rest)"
  by (rule ws_frames.decode_many_enc_all) (use assms in auto)

theorem frame_stream_roundtrip_witness:
  "ws_frames.decode_many (False, 3) True 65536 (Suc (Suc 0))
     (ws_frames.enc_all True [(((True, 1), (1, 2, 3, 4)), (True, Op_Text, Some (ascii ''hi''))),
        (((False, 0), (9, 8, 7, 6)), (True, Op_Ping, None))] @ [5])
   = ([(True, Op_Text, Some (ascii ''hi'')), (True, Op_Ping, None)], [5])"
  using frame_stream_roundtrip [of 65536 "[(((True, 1), (1, 2, 3, 4)), (True, Op_Text, Some (ascii ''hi''))),
        (((False, 0), (9, 8, 7, 6)), (True, Op_Ping, None))]" "(False, 3)" True "[5]"]
  by (simp add: frame_ok_def ascii_def del: ws_frames.decode_many.simps ws_frames.enc_all_simps)

text \<open>
  C27: The parser panics for exactly one reason. No length of the input makes an access of the header fail; the
  parser panics if and only if the header is complete and admitted by the size limit, and header and payload
  together exceed the largest \<open>usize\<close>, so that the check for missing data wraps around. With a limit below
  \<open>2\<^sup>6\<^sup>4 - 14\<close> it never panics. (No buffer is longer than \<open>2\<^sup>6\<^sup>3 - 1\<close> bytes.)
\<close>

theorem parse_panics_iff:
  assumes "length src < 2 ^ 63"
  shows "(fst (parse al src server max_size) = Inl Panic \<longleftrightarrow>
      (\<exists>idx fin op len msk. parse_metadata src server max_size = Inr (Some (idx, fin, op, len, msk)) \<and> 2 ^ 64 \<le> idx + len)) \<and>
    (max_size < 2 ^ 64 - 14 \<longrightarrow> fst (parse al src server max_size) \<noteq> Inl Panic)"
proof (cases "\<exists>idx fin op len msk. parse_metadata src server max_size = Inr (Some (idx, fin, op, len, msk))")
  case False
  then show ?thesis using parse_metadata_no_panic [of src server max_size]
    by (auto simp: parse_def split: sum.splits option.splits prod.splits)
next
  case True
  then obtain idx fin op len msk where m: "parse_metadata src server max_size = Inr (Some (idx, fin, op, len, msk))" by blast
  note b = parse_metadata_bounds [OF m]
  have "fst (parse al src server max_size) = Inl Panic \<longleftrightarrow> 2 ^ 64 \<le> idx + len"
  proof (cases "2 ^ 64 \<le> idx + len")
    case True
    then have "usize_add idx len \<le> length src" "len \<noteq> 0" "length src - idx < len"
      using b parse_metadata_u64 [OF m] assms by (auto simp: usize_add_def mod_if)
    then show ?thesis using True b(3) by (simp add: parse_def m)
  next
    case False
    then show ?thesis using b(3) by (auto simp: parse_def m usize_add_small Let_def)
  qed
  then show ?thesis using m b(2,4) by auto
qed

theorem parse_panics_iff_witness:
  "fst (parse (False, 0) [0x82, 0x7f, 255, 255, 255, 255, 255, 255, 255, 255] False (2 ^ 64 - 1)) = Inl Panic \<and>
   fst (parse (False, 0) [0x82, 0x7f, 255, 255, 255, 255, 255, 255, 255, 255] False 65536) \<noteq> Inl Panic"
proof -
  let ?src = "[0x82, 0x7f, 255, 255, 255, 255, 255, 255, 255, 255] :: bytes"
  have "parse_metadata ?src False (2 ^ 64 - 1) = Inr (Some (10, True, Op_Binary, 2 ^ 64 - 1, None))"
    by (simp add: parse_metadata_guarded parse_length_guarded Let_def opcode_from_u8_def from_be_def)
  then show ?thesis using parse_panics_iff [of ?src "(False, 0)" False "2 ^ 64 - 1"] parse_panics_iff [of ?src "(False, 0)" False 65536]
    by auto
qed

end
