(* ===== verification/Ws_Codec.thy ===== *)
theory Ws_Codec
  imports Ws_Frame
begin

text \<open>
  The WebSocket codec of \<open>http-ws/src/codec.rs\<close>: messages, the codec with its flag byte, its
  configuration, encoding and decoding of messages; and the streams of
  \<open>http-ws/src/stream.rs\<close> over it: the request stream that decodes body chunks, and the
  sender that encodes messages into a channel.
\<close>

section \<open>Messages\<close>

datatype Item =
    FirstText bytes
  | FirstBinary bytes
  | Item_Continue bytes
  | Item_Last bytes

datatype Message =
    Msg_Text bytes
  | Msg_Binary bytes
  | Msg_Continuation Item
  | Msg_Ping bytes
  | Msg_Pong bytes
  | Msg_Close "CloseReason option"
  | Msg_Nop

section \<open>The flag byte\<close>

type_synonym Flags = u8

definition SERVER :: u8 where "SERVER = 1"
definition CONTINUATION :: u8 where "CONTINUATION = 2"
definition CLOSED :: u8 where "CLOSED = 4"

definition flags_remove :: "Flags \<Rightarrow> u8 \<Rightarrow> Flags" where
  "flags_remove s other = s AND NOT other"

definition flags_insert :: "Flags \<Rightarrow> u8 \<Rightarrow> Flags" where
  "flags_insert s other = s OR other"

definition flags_contains :: "Flags \<Rightarrow> u8 \<Rightarrow> bool" where
  "flags_contains s other \<longleftrightarrow> s AND other = other"

section \<open>The codec\<close>

record Codec =
  flags :: Flags
  capacity :: nat
  max_size :: nat

definition codec_new :: Codec where
  "codec_new = \<lparr>flags = SERVER, capacity = 128, max_size = 65536\<rparr>"

definition set_max_size :: "Codec \<Rightarrow> nat \<Rightarrow> Codec" where
  "set_max_size c n = c\<lparr>max_size := n\<rparr>"

definition set_capacity :: "Codec \<Rightarrow> nat \<Rightarrow> Codec" where
  "set_capacity c n = c\<lparr>capacity := n\<rparr>"

definition client_mode :: "Codec \<Rightarrow> Codec" where
  "client_mode c =
     (let c = c\<lparr>flags := flags_remove (flags c) SERVER\<rparr>
      in c\<lparr>flags := flags_remove (flags c) CONTINUATION\<rparr>)"

definition duplicate :: "Codec \<Rightarrow> Codec" where
  "duplicate c = c\<lparr>flags := flags_remove (flags c) CONTINUATION\<rparr>"

definition try_start_continue :: "Codec \<Rightarrow> (ProtocolError + unit) \<times> Codec" where
  "try_start_continue c =
     (if \<not> flags_contains (flags c) CONTINUATION
      then (Inr (), c\<lparr>flags := flags_insert (flags c) CONTINUATION\<rparr>)
      else (Inl ContinuationStarted, c))"

text \<open>\<open>encode\<close> returns the codec and the buffer \<open>dst\<close> as it leaves them.\<close>

definition encode ::
  "align \<Rightarrow> mask \<Rightarrow> Codec \<Rightarrow> Message \<Rightarrow> bytes \<Rightarrow> (ProtocolError + unit) \<times> Codec \<times> bytes" where
  "encode al rnd c item dst =
     (if flags_contains (flags c) CLOSED then (Inl Closed, c, dst)
      else (let msk = \<not> flags_contains (flags c) SERVER in
        case item of
          Msg_Text b \<Rightarrow> (Inr (), c, write_message al rnd dst b Op_Text True msk)
        | Msg_Binary b \<Rightarrow> (Inr (), c, write_message al rnd dst b Op_Binary True msk)
        | Msg_Ping b \<Rightarrow> (Inr (), c, write_message al rnd dst b Op_Ping True msk)
        | Msg_Pong b \<Rightarrow> (Inr (), c, write_message al rnd dst b Op_Pong True msk)
        | Msg_Close reason \<Rightarrow>
            (Inr (), c\<lparr>flags := flags_insert (flags c) CLOSED\<rparr>, write_close al rnd dst reason msk)
        | Msg_Continuation cont \<Rightarrow>
            (case cont of
               FirstText data \<Rightarrow>
                 (case try_start_continue c of
                    (Inl e, c) \<Rightarrow> (Inl e, c, dst)
                  | (Inr _, c) \<Rightarrow> (Inr (), c, write_message al rnd dst data Op_Text False msk))
             | FirstBinary data \<Rightarrow>
                 (case try_start_continue c of
                    (Inl e, c) \<Rightarrow> (Inl e, c, dst)
                  | (Inr _, c) \<Rightarrow> (Inr (), c, write_message al rnd dst data Op_Binary False msk))
             | Item_Continue data \<Rightarrow>
                 if \<not> flags_contains (flags c) CONTINUATION
                 then (Inl ContinuationNotStarted, c, dst)
                 else (Inr (), c, write_message al rnd dst data Op_Continue False msk)
             | Item_Last data \<Rightarrow>
                 if \<not> flags_contains (flags c) CONTINUATION
                 then (Inl ContinuationNotStarted, c, dst)
                 else (Inr (), c\<lparr>flags := flags_remove (flags c) CONTINUATION\<rparr>,
                       write_message al rnd dst data Op_Continue True msk))
        | Msg_Nop \<Rightarrow> (Inr (), c, dst)))"

definition unwrap_payload :: "bytes option \<Rightarrow> bytes" where
  "unwrap_payload payload = (case payload of None \<Rightarrow> [] | Some b \<Rightarrow> b)"

text \<open>What \<open>decode\<close> makes of one frame.\<close>

definition decode_frame ::
  "Codec \<Rightarrow> frame \<Rightarrow> (ProtocolError + Message) \<times> Codec" where
  "decode_frame c f =
     (case f of (finished, opcode, payload) \<Rightarrow>
       (case opcode of
          Op_Continue \<Rightarrow>
            if \<not> flags_contains (flags c) CONTINUATION then (Inl ContinuationNotStarted, c)
            else (Inr (Msg_Continuation (Item_Continue (unwrap_payload payload))),
                  if finished then c\<lparr>flags := flags_remove (flags c) CONTINUATION\<rparr> else c)
        | Op_Binary \<Rightarrow>
            if \<not> finished then
              (case try_start_continue c of
                 (Inl e, c) \<Rightarrow> (Inl e, c)
               | (Inr _, c) \<Rightarrow> (Inr (Msg_Continuation (FirstBinary (unwrap_payload payload))), c))
            else (Inr (Msg_Binary (unwrap_payload payload)), c)
        | Op_Text \<Rightarrow>
            if \<not> finished then
              (case try_start_continue c of
                 (Inl e, c) \<Rightarrow> (Inl e, c)
               | (Inr _, c) \<Rightarrow> (Inr (Msg_Continuation (FirstText (unwrap_payload payload))), c))
            else (Inr (Msg_Text (unwrap_payload payload)), c)
        | Op_Close \<Rightarrow>
            if \<not> finished then (Inl (ContinuationFragment opcode), c)
            else (Inr (Msg_Close (Option.bind payload parse_close_payload)), c)
        | Op_Ping \<Rightarrow> (Inr (Msg_Ping (unwrap_payload payload)), c)
        | Op_Pong \<Rightarrow> (Inr (Msg_Pong (unwrap_payload payload)), c)
        | Op_Bad \<Rightarrow> (Inl BadOpCode, c)))"

definition decode ::
  "align \<Rightarrow> Codec \<Rightarrow> bytes \<Rightarrow> (ProtocolError fault + Message option) \<times> Codec \<times> bytes" where
  "decode al c src =
     (case parse al src (flags_contains (flags c) SERVER) (max_size c) of
        (Inl e, src) \<Rightarrow> (Inl e, c, src)
      | (Inr None, src) \<Rightarrow> (Inr None, c, src)
      | (Inr (Some f), src) \<Rightarrow>
          (case decode_frame c f of
             (Inl e, c) \<Rightarrow> (Inl (Err e), c, src)
           | (Inr m, c) \<Rightarrow> (Inr (Some m), c, src)))"

section \<open>The request stream\<close>

text \<open>
  The body is a list of what polling it yields next; an exhausted list is pending for good.
\<close>

datatype 'e body_event = Body_Pending | Body_Chunk bytes | Body_Err 'e | Body_End

datatype 'a poll = Pending | Ready 'a

datatype 'e WsError = Ws_Protocol ProtocolError | Ws_Stream 'e

record 'e RequestStream =
  rs_stream :: "'e body_event list"
  rs_buf :: bytes
  rs_codec :: Codec

definition with_codec :: "'e body_event list \<Rightarrow> Codec \<Rightarrow> 'e RequestStream" where
  "with_codec s c = \<lparr>rs_stream = s, rs_buf = [], rs_codec = c\<rparr>"

definition ws_error :: "ProtocolError fault \<Rightarrow> 'e WsError fault" where
  "ws_error f = (case f of Panic \<Rightarrow> Panic | Err e \<Rightarrow> Err (Ws_Protocol e))"

fun poll_events ::
  "align \<Rightarrow> Codec \<Rightarrow> bytes \<Rightarrow> 'e body_event list
   \<Rightarrow> ('e WsError fault + Message) option poll \<times> Codec \<times> bytes \<times> 'e body_event list" where
  "poll_events al c b evs =
     (case decode al c b of
        (Inl e, c, b) \<Rightarrow> (Ready (Some (Inl (ws_error e))), c, b, evs)
      | (Inr (Some msg), c, b) \<Rightarrow> (Ready (Some (Inr msg)), c, b, evs)
      | (Inr None, c, b) \<Rightarrow>
          (case evs of
             [] \<Rightarrow> (Pending, c, b, [])
           | Body_Pending # evs \<Rightarrow> (Pending, c, b, evs)
           | Body_Chunk item # evs \<Rightarrow> poll_events al c (b @ item) evs
           | Body_Err e # evs \<Rightarrow> (Ready (Some (Inl (Err (Ws_Stream e)))), c, b, evs)
           | Body_End # evs \<Rightarrow> (Ready None, c, b, evs)))"

declare poll_events.simps [simp del]

definition poll_next ::
  "align \<Rightarrow> 'e RequestStream \<Rightarrow> ('e WsError fault + Message) option poll \<times> 'e RequestStream" where
  "poll_next al s =
     (case poll_events al (rs_codec s) (rs_buf s) (rs_stream s) of
        (r, c, b, evs) \<Rightarrow> (r, \<lparr>rs_stream = evs, rs_buf = b, rs_codec = c\<rparr>))"

section \<open>The response sender\<close>

text \<open>
  The encoder with its buffer, and the channel: what was sent, and whether the receiver is
  gone (then reserving a slot fails). Sending waits for a free slot; the model is the send
  after that wait.
\<close>

record ResponseSender =
  enc_codec :: Codec
  enc_buf :: bytes
  sent :: "(unit + bytes) list"
  rx_closed :: bool

definition response_stream :: "'e RequestStream \<Rightarrow> ResponseSender" where
  "response_stream s =
     \<lparr>enc_codec = duplicate (rs_codec s), enc_buf = [], sent = [], rx_closed = False\<rparr>"

definition send ::
  "align \<Rightarrow> mask \<Rightarrow> ResponseSender \<Rightarrow> Message \<Rightarrow> (ProtocolError + unit) \<times> ResponseSender" where
  "send al rnd s msg =
     (if rx_closed s then (Inl Closed, s)
      else (case encode al rnd (enc_codec s) msg (enc_buf s) of
          (Inl e, c, b) \<Rightarrow> (Inl e, s\<lparr>enc_codec := c, enc_buf := b\<rparr>)
        | (Inr _, c, b) \<Rightarrow>
            (Inr (), s\<lparr>enc_codec := c, enc_buf := [], sent := sent s @ [Inr b]\<rparr>)))"

definition send_error :: "ResponseSender \<Rightarrow> (ProtocolError + unit) \<times> ResponseSender" where
  "send_error s =
     (if rx_closed s then (Inl Closed, s) else (Inr (), s\<lparr>sent := sent s @ [Inl ()]\<rparr>))"

section \<open>Flags\<close>

interpretation ws_flags: bit_flags flags_insert flags_remove flags_contains
  "{SERVER, CONTINUATION, CLOSED}"
proof -
  have "flags_insert = (\<lambda>s f. s OR f)" "flags_remove = (\<lambda>s f. s AND NOT f)"
    "flags_contains = (\<lambda>s f. s AND f = f)"
    by (simp_all add: fun_eq_iff flags_insert_def flags_remove_def flags_contains_def)
  moreover have "bit_flags (\<lambda>s f. s OR f) (\<lambda>s f. s AND NOT f) (\<lambda>s f. s AND f = f)
      {SERVER, CONTINUATION, CLOSED}"
    by (rule bit_flags_of_masks) (auto simp: SERVER_def CONTINUATION_def CLOSED_def)
  ultimately show "bit_flags flags_insert flags_remove flags_contains {SERVER, CONTINUATION, CLOSED}"
    by simp
qed

lemmas flag_simps [simp] =
  ws_flags.contains_insert ws_flags.contains_remove

lemma flags_distinct [simp]:
  "SERVER \<noteq> CONTINUATION" "CONTINUATION \<noteq> SERVER" "SERVER \<noteq> CLOSED" "CLOSED \<noteq> SERVER"
  "CONTINUATION \<noteq> CLOSED" "CLOSED \<noteq> CONTINUATION"
  by (simp_all add: SERVER_def CONTINUATION_def CLOSED_def)

lemma codec_flag_simps [simp]:
  "flags_contains (flags (client_mode c)) SERVER = False"
  "flags_contains (flags (client_mode c)) CONTINUATION = False"
  "flags_contains (flags (client_mode c)) CLOSED = flags_contains (flags c) CLOSED"
  "flags_contains (flags (duplicate c)) CONTINUATION = False"
  "flags_contains (flags (duplicate c)) SERVER = flags_contains (flags c) SERVER"
  by (simp_all add: client_mode_def duplicate_def Let_def)

section \<open>What one end encodes the other decodes\<close>

text \<open>The encoder of one end and the decoder of the other: opposite roles, same fragmentation state.\<close>

definition peer :: "Codec \<Rightarrow> Codec \<Rightarrow> bool" where
  "peer c d \<longleftrightarrow>
     flags_contains (flags c) SERVER = (\<not> flags_contains (flags d) SERVER) \<and>
     flags_contains (flags c) CONTINUATION = flags_contains (flags d) CONTINUATION"

definition reason_fits :: "nat \<Rightarrow> CloseReason \<Rightarrow> bool" where
  "reason_fits n r \<longleftrightarrow> canonical_code (code r) \<and> 2 \<le> n \<and>
     (case description r of
        None \<Rightarrow> True
      | Some t \<Rightarrow> t \<noteq> [] \<and> valid_utf8 t \<and> length t \<le> 123 \<and> length t + 2 \<le> n)"

fun item_data :: "Item \<Rightarrow> bytes" where
  "item_data (FirstText b) = b"
| "item_data (FirstBinary b) = b"
| "item_data (Item_Continue b) = b"
| "item_data (Item_Last b) = b"

text \<open>Messages within the limits of the protocol and of the receiver.\<close>

fun msg_fits :: "nat \<Rightarrow> Message \<Rightarrow> bool" where
  "msg_fits n (Msg_Text b) = (length b \<le> n)"
| "msg_fits n (Msg_Binary b) = (length b \<le> n)"
| "msg_fits n (Msg_Continuation i) = (length (item_data i) \<le> n)"
| "msg_fits n (Msg_Ping b) = (length b \<le> n \<and> length b \<le> 125)"
| "msg_fits n (Msg_Pong b) = (length b \<le> n \<and> length b \<le> 125)"
| "msg_fits n (Msg_Close r) = (case r of None \<Rightarrow> True | Some r \<Rightarrow> reason_fits n r)"
| "msg_fits n Msg_Nop = False"

text \<open>How a message arrives: the decoder reports the last fragment as a \<open>Continue\<close> item.\<close>

fun received :: "Message \<Rightarrow> Message" where
  "received (Msg_Continuation (Item_Last b)) = Msg_Continuation (Item_Continue b)"
| "received m = m"

lemma unwrap_payload_if [simp]: "unwrap_payload (if b = [] then None else Some b) = b"
  by (simp add: unwrap_payload_def)

lemma parse_close_payload_written:
  assumes "reason_fits n r"
  shows "parse_close_payload (to_be 2 (u16_from_close_code (code r))
           @ (case description r of None \<Rightarrow> [] | Some d \<Rightarrow> d)) = Some r"
proof -
  have "u16_from_close_code (code r) < 65536"
    using assms by (simp add: reason_fits_def canonical_code_u16)
  moreover have "close_code_from_u16 (u16_from_close_code (code r)) = code r"
    using assms by (simp add: reason_fits_def close_code_from_u16_from_close_code)
  ultimately show ?thesis
    using assms
    by (cases r) (auto simp: parse_close_payload_def reason_fits_def from_utf8_lossy_id
        split: option.splits)
qed

lemma decode_of_frame:
  assumes "op \<noteq> Op_Bad" and "length pl \<le> max_size d" and "max_size d < 2 ^ 63"
    and "op \<in> {Op_Ping, Op_Pong, Op_Close} \<Longrightarrow> length pl \<le> 125"
    and "msk = flags_contains (flags d) SERVER"
  shows "decode al (d :: Codec) (write_message al' rnd [] pl op fin msk @ rest) =
     (case decode_frame d (fin, op, if pl = [] then None else Some pl) of
        (Inl e, d) \<Rightarrow> (Inl (Err e), d, rest)
      | (Inr m, d) \<Rightarrow> (Inr (Some m), d, rest))"
proof -
  have "parse al (write_message al' rnd [] pl op fin msk @ rest) msk (max_size d)
      = (Inr (Some (fin, op, if pl = [] then None else Some pl)), rest)"
    by (rule parse_written) (use assms in auto)
  then show ?thesis by (simp only: decode_def assms(5) prod.case sum.case option.case)
qed

text \<open>The frame that carries a message.\<close>

definition close_payload :: "CloseReason option \<Rightarrow> bytes" where
  "close_payload r = (case r of None \<Rightarrow> [] | Some r \<Rightarrow>
     to_be 2 (u16_from_close_code (code r)) @ (case description r of None \<Rightarrow> [] | Some d \<Rightarrow> d))"

fun msg_frame :: "Message \<Rightarrow> bool \<times> OpCode \<times> bytes" where
  "msg_frame (Msg_Text b) = (True, Op_Text, b)"
| "msg_frame (Msg_Binary b) = (True, Op_Binary, b)"
| "msg_frame (Msg_Continuation (FirstText b)) = (False, Op_Text, b)"
| "msg_frame (Msg_Continuation (FirstBinary b)) = (False, Op_Binary, b)"
| "msg_frame (Msg_Continuation (Item_Continue b)) = (False, Op_Continue, b)"
| "msg_frame (Msg_Continuation (Item_Last b)) = (True, Op_Continue, b)"
| "msg_frame (Msg_Ping b) = (True, Op_Ping, b)"
| "msg_frame (Msg_Pong b) = (True, Op_Pong, b)"
| "msg_frame (Msg_Close r) = (True, Op_Close, close_payload r)"
| "msg_frame Msg_Nop = (True, Op_Bad, [])"

lemma encode_writes_frame:
  assumes "encode al rnd c m dst = (Inr (), c', w)" and "m \<noteq> Msg_Nop" and "msg_frame m = (fin, op, pl)"
  shows "w = write_message al rnd dst pl op fin (\<not> flags_contains (flags c) SERVER)"
  using assms
  by (cases m rule: msg_frame.cases)
    (auto simp: encode_def Let_def try_start_continue_def write_close_def close_payload_def
      split: if_splits option.splits)

lemma msg_fits_frame:
  assumes "msg_fits n m" and "msg_frame m = (fin, op, pl)"
  shows "op \<noteq> Op_Bad" and "length pl \<le> n" and "op \<in> {Op_Ping, Op_Pong, Op_Close} \<longrightarrow> length pl \<le> 125"
  using assms
  by (cases m rule: msg_frame.cases, auto simp: close_payload_def reason_fits_def split: option.splits)+

lemma close_payload_Nil [simp]: "close_payload r = [] \<longleftrightarrow> r = None"
  by (auto simp: close_payload_def split: option.split)

lemma parse_close_payload_close_payload:
  assumes "case r of None \<Rightarrow> True | Some r \<Rightarrow> reason_fits n r" and "r \<noteq> None"
  shows "parse_close_payload (close_payload r) = r"
  using assms by (cases r) (auto simp: close_payload_def parse_close_payload_written)

lemma decode_frame_of_msg:
  assumes "encode al rnd c m [] = (Inr (), c', w)" and "peer c d" and "msg_fits n m"
    and "msg_frame m = (fin, op, pl)"
  shows "\<exists>d'. decode_frame d (fin, op, if pl = [] then None else Some pl) = (Inr (received m), d')
           \<and> peer c' d' \<and> max_size d' = max_size d"
  using assms
  by (cases m rule: msg_frame.cases)
    (auto simp: encode_def Let_def try_start_continue_def decode_frame_def peer_def
      parse_close_payload_close_payload split: if_splits)

lemma encode_decode:
  assumes enc: "encode al rnd c m [] = (Inr (), c', w)"
    and peer: "peer c d" and fits: "msg_fits (max_size d) m" and limit: "max_size d < 2 ^ 63"
  shows "\<exists>d'. decode al' d (w @ rest) = (Inr (Some (received m)), d', rest)
           \<and> peer c' d' \<and> max_size d' = max_size d"
proof -
  obtain fin op pl where fr: "msg_frame m = (fin, op, pl)" by (cases "msg_frame m")
  have "m \<noteq> Msg_Nop" using fits by auto
  with enc fr have w: "w = write_message al rnd [] pl op fin (\<not> flags_contains (flags c) SERVER)"
    by (blast dest: encode_writes_frame)
  obtain d' where d': "decode_frame d (fin, op, if pl = [] then None else Some pl) = (Inr (received m), d')"
    "peer c' d'" "max_size d' = max_size d"
    using decode_frame_of_msg [OF enc peer fits fr] by blast
  have "decode al' d (w @ rest) =
     (case decode_frame d (fin, op, if pl = [] then None else Some pl) of
        (Inl e, d) \<Rightarrow> (Inl (Err e), d, rest)
      | (Inr m, d) \<Rightarrow> (Inr (Some m), d, rest))"
    unfolding w
    by (rule decode_of_frame) (use msg_fits_frame [OF fits fr] peer limit in \<open>auto simp: peer_def\<close>)
  with d' show ?thesis by auto
qed

text \<open>A whole conversation in one direction.\<close>

fun encode_all :: "(align \<times> mask) list \<Rightarrow> Codec \<Rightarrow> Message list \<Rightarrow> (Codec \<times> bytes) option" where
  "encode_all cs c [] = Some (c, [])"
| "encode_all [] c (m # ms) = None"
| "encode_all ((al, rnd) # cs) c (m # ms) =
     (case encode al rnd c m [] of
        (Inl _, _, _) \<Rightarrow> None
      | (Inr _, c', w) \<Rightarrow> map_option (\<lambda>(c'', w'). (c'', w @ w')) (encode_all cs c' ms))"

fun decode_n :: "align \<Rightarrow> nat \<Rightarrow> Codec \<Rightarrow> bytes \<Rightarrow> (Message list \<times> Codec \<times> bytes) option" where
  "decode_n al 0 d src = Some ([], d, src)"
| "decode_n al (Suc n) d src =
     (case decode al d src of
        (Inr (Some m), d', src') \<Rightarrow> map_option (\<lambda>(ms, r). (m # ms, r)) (decode_n al n d' src')
      | _ \<Rightarrow> None)"

lemma encode_all_decode_n:
  assumes "encode_all cs c ms = Some (c', w)" and "peer c d"
    and "\<forall>m \<in> set ms. msg_fits (max_size d) m" and "max_size d < 2 ^ 63"
  shows "\<exists>d'. decode_n al (length ms) d (w @ rest) = Some (map received ms, d', rest) \<and> peer c' d'"
  using assms
proof (induction cs c ms arbitrary: d w rule: encode_all.induct)
  case (3 al' rnd cs c m ms)
  from "3.prems"(1) obtain c1 w1 w2 where
    e1: "encode al' rnd c m [] = (Inr (), c1, w1)" and e2: "encode_all cs c1 ms = Some (c', w2)"
    and w: "w = w1 @ w2"
    by (auto split: sum.splits prod.splits)
  obtain d1 where d1: "decode al d (w1 @ w2 @ rest) = (Inr (Some (received m)), d1, w2 @ rest)"
    "peer c1 d1" "max_size d1 = max_size d"
    using encode_decode [OF e1 "3.prems"(2) _ "3.prems"(4)] "3.prems"(3) by fastforce
  obtain d' where "decode_n al (length ms) d1 (w2 @ rest) = Some (map received ms, d', rest)" "peer c' d'"
    using "3.IH" [OF e1 [symmetric] refl refl e2 d1(2)] "3.prems"(3,4) d1(3) by auto
  with d1 w show ?case by auto
qed auto

section \<open>Chunk boundaries do not matter\<close>

lemma decode_append:
  assumes "decode al c p = (res, c', r)" and "res \<noteq> Inr None" and "max_size c < 2 ^ 63"
  shows "decode al c (p @ q) = (res, c', r @ q)"
proof -
  let ?s = "flags_contains (flags c) SERVER"
  obtain pr r0 where pr: "parse al p ?s (max_size c) = (pr, r0)"
    by (cases "parse al p ?s (max_size c)")
  have "pr \<noteq> Inr None" using assms(1,2) pr by (auto simp: decode_def)
  with pr assms(3) have "parse al (p @ q) ?s (max_size c) = (pr, r0 @ q)" by (simp add: parse_append)
  with pr assms(1) show ?thesis
    by (auto simp: decode_def split: sum.splits option.splits prod.splits)
qed

lemma parse_none: "parse al src server n = (Inr None, r) \<Longrightarrow> r = src"
  by (auto simp: parse_def Let_def split: sum.splits option.splits prod.splits if_splits)

lemma decode_none: "decode al c src = (Inr None, c', r) \<Longrightarrow> c' = c \<and> r = src"
  by (auto simp: decode_def split: sum.splits option.splits prod.splits dest: parse_none)

text \<open>
  What a poll of the request stream yields is what decoding all bytes at once yields, and
  what it leaves behind is what that leaves behind.
\<close>

definition decode_result ::
  "(ProtocolError fault + Message option) \<Rightarrow> ('e WsError fault + Message) option poll" where
  "decode_result r =
     (case r of
        Inl e \<Rightarrow> Ready (Some (Inl (ws_error e)))
      | Inr (Some m) \<Rightarrow> Ready (Some (Inr m))
      | Inr None \<Rightarrow> Ready None)"

lemma poll_events_chunks:
  assumes "max_size c < 2 ^ 63" and "decode al c (b @ concat xs) = (res, c', rest)"
  shows "\<exists>b' ys. poll_events al c b (map Body_Chunk xs @ [Body_End])
      = (decode_result res, c', b', if res = Inr None then [] else map Body_Chunk ys @ [Body_End])
      \<and> b' @ concat ys = rest"
  using assms(2)
proof (induction xs arbitrary: b)
  case Nil
  then show ?case
    by (auto simp: poll_events.simps [of al c b] decode_result_def
        split: sum.splits option.splits intro: exI [of _ "[]"] dest: decode_none)
next
  case (Cons x xs)
  obtain r0 c0 b0 where d: "decode al c b = (r0, c0, b0)" by (cases "decode al c b")
  show ?case
  proof (cases "r0 = Inr None")
    case True
    with d have "c0 = c" "b0 = b" by (auto dest: decode_none)
    with True d Cons.IH [of "b @ x"] Cons.prems show ?thesis
      by (simp add: poll_events.simps [of al c b])
  next
    case False
    have "decode al c (b @ concat (x # xs)) = (r0, c0, b0 @ concat (x # xs))"
      by (rule decode_append [OF d False assms(1)])
    with Cons.prems have "res = r0" "c' = c0" "rest = b0 @ concat (x # xs)" by auto
    with d False show ?thesis
      by (auto simp: poll_events.simps [of al c b] decode_result_def split: sum.splits option.splits
          intro!: exI [of _ "x # xs"])
  qed
qed

section \<open>Properties\<close>

text \<open>
  C15: A conversation of messages encoded by one end is decoded by the other end, message by message and in
  order, whatever masks were drawn; both ends agree on the fragmentation state afterwards. The last fragment of
  a fragmented message arrives as a \<open>Continue\<close> item.
\<close>

theorem conversation_roundtrip:
  assumes "encode_all cs c ms = Some (c', w)" and "peer c d"
    and "\<forall>m \<in> set ms. msg_fits (max_size d) m" and "max_size d < 2 ^ 63"
  shows "\<exists>d'. decode_n al (length ms) d (w @ rest) = Some (map received ms, d', rest) \<and> peer c' d'"
  using assms by (rule encode_all_decode_n)

theorem conversation_roundtrip_witness:
  "\<exists>c' w d'. encode_all [((False, 0), (1, 2, 3, 4)), ((True, 2), (5, 6, 7, 8))] (client_mode codec_new)
       [Msg_Continuation (FirstText (ascii ''he'')), Msg_Continuation (Item_Last (ascii ''llo''))] = Some (c', w) \<and>
     decode_n (False, 1) (Suc (Suc 0)) codec_new (w @ [7]) =
       Some ([Msg_Continuation (FirstText (ascii ''he'')), Msg_Continuation (Item_Continue (ascii ''llo''))], d', [7]) \<and>
     peer c' d'"
proof -
  let ?ms = "[Msg_Continuation (FirstText (ascii ''he'')), Msg_Continuation (Item_Last (ascii ''llo''))]"
  have "flags_contains (flags (client_mode codec_new)) CLOSED = False"
    by simp (simp add: codec_new_def flags_contains_def SERVER_def CLOSED_def)
  then obtain c' w where e: "encode_all [((False, 0), (1, 2, 3, 4)), ((True, 2), (5, 6, 7, 8))]
      (client_mode codec_new) ?ms = Some (c', w)"
    by (simp add: encode_def try_start_continue_def Let_def)
  have "peer (client_mode codec_new) codec_new"
    by (simp add: peer_def) (simp add: codec_new_def flags_contains_def SERVER_def CONTINUATION_def)
  moreover have "max_size codec_new = 65536" by (simp add: codec_new_def)
  ultimately have "\<exists>d'. decode_n (False, 1) (length ?ms) codec_new (w @ [7]) = Some (map received ?ms, d', [7]) \<and> peer c' d'"
    by (intro conversation_roundtrip [OF e]) (simp_all add: ascii_def)
  with e show ?thesis by (simp del: decode_n.simps encode_all.simps)
qed



text \<open>
  C26: What the request stream yields does not depend on how the body was cut into chunks: polling over any
  sequence of chunks gives what decoding their concatenation gives, and nothing of the rest is lost.
\<close>

theorem poll_split_independent:
  assumes "max_size c < 2 ^ 63" and "decode al c (b @ concat xs) = (res, c', rest)"
  shows "\<exists>b' ys. poll_events al c b (map Body_Chunk xs @ [Body_End])
      = (decode_result res, c', b', if res = Inr None then [] else map Body_Chunk ys @ [Body_End])
      \<and> b' @ concat ys = rest"
  using assms by (rule poll_events_chunks)

theorem poll_split_independent_witness:
  "\<exists>b' ys. poll_events (False, 0) (client_mode codec_new) [] (map Body_Chunk [[0x89], [0], [1]] @ [Body_End])
      = (decode_result (Inr (Some (Msg_Ping []))), client_mode codec_new, b', map Body_Chunk ys @ [Body_End])
      \<and> b' @ concat ys = [1]"
proof -
  have m: "max_size (client_mode codec_new) = 65536" by (simp add: client_mode_def codec_new_def Let_def)
  have "decode (False, 0) (client_mode codec_new) ([] @ concat [[0x89], [0], [1]]) =
      (Inr (Some (Msg_Ping [])), client_mode codec_new, [1])"
    using decode_of_frame [of Op_Ping "[]" "client_mode codec_new" False "(False, 0)" "(False, 0)" "(0, 0, 0, 0)" True "[1]"]
    by (simp add: m write_message_def u8_from_opcode_def Let_def frame_head_def decode_frame_def unwrap_payload_def)
  from poll_split_independent [OF _ this] show ?thesis by (simp add: m)
qed

end
