(* ===== verification/Ws_Handshake.thy ===== *)
theory Ws_Handshake
  imports Ws_Codec
begin

text \<open>
  The opening handshake, \<open>http-ws/src/lib.rs\<close> and \<open>hash_key\<close> of \<open>http-ws/src/proto.rs\<close>:
  the client's request, the server's checks and its response. SHA-1, Base64 and the
  conversions of \<open>http::HeaderValue\<close> are library code: they are the fields of \<open>ws_lib\<close>, and the
  theorems name what they rely on. Header names and methods are strings; a header map is
  the map from names to the first value.
\<close>

record ws_lib =
  sha1 :: "bytes \<Rightarrow> bytes"
  base64 :: "bytes \<Rightarrow> bytes"
  to_str :: "bytes \<Rightarrow> bytes option"
  from_bytes :: "bytes \<Rightarrow> bytes option"

type_synonym header_map = "string \<rightharpoonup> bytes"

record request =
  req_method :: string
  req_version :: Version
  req_headers :: header_map

record builder =
  status :: nat
  res_headers :: "(string \<times> bytes) list"

section \<open>The client's request\<close>

definition WEBSOCKET :: bytes where "WEBSOCKET = ascii ''websocket''"
definition UPGRADE_VALUE :: bytes where "UPGRADE_VALUE = ascii ''upgrade''"
definition SEC_WEBSOCKET_VERSION_VALUE :: bytes where "SEC_WEBSOCKET_VERSION_VALUE = ascii ''13''"

text \<open>
  \<open>key\<close> is the random input of 16 bytes. A panic: the Base64 text has not 24 bytes, or is
  no header value.
\<close>

definition client_request_extend :: "ws_lib \<Rightarrow> bytes \<Rightarrow> request \<Rightarrow> unit fault + request" where
  "client_request_extend lib key req =
     (let finish = (\<lambda>req. Inr (req\<lparr>req_headers :=
            (req_headers req)(''sec-websocket-version'' \<mapsto> SEC_WEBSOCKET_VERSION_VALUE)\<rparr>)) in
      case req_version req of
        HTTP_11 \<Rightarrow>
          (let hs = (req_headers req)(''upgrade'' \<mapsto> WEBSOCKET, ''connection'' \<mapsto> UPGRADE_VALUE);
               output = base64 lib key in
           if length output \<noteq> 24 then Inl Panic
           else (case from_bytes lib output of
               None \<Rightarrow> Inl Panic
             | Some v \<Rightarrow> finish (req\<lparr>req_headers := hs(''sec-websocket-key'' \<mapsto> v)\<rparr>)))
      | HTTP_2 \<Rightarrow>
          finish (req\<lparr>req_method := ''CONNECT'',
                      req_headers := (req_headers req)(''protocol'' \<mapsto> WEBSOCKET)\<rparr>)
      | _ \<Rightarrow> finish req)"

definition client_request_from_uri :: "ws_lib \<Rightarrow> bytes \<Rightarrow> Version \<Rightarrow> unit fault + request" where
  "client_request_from_uri lib key version =
     client_request_extend lib key
       \<lparr>req_method = ''GET'', req_version = version, req_headers = Map.empty\<rparr>"

section \<open>The server's checks\<close>

definition WS_GUID :: bytes where
  "WS_GUID = ascii ''258EAFA5-E914-47DA-95CA-C5AB0DC85B11''"

definition hash_key :: "ws_lib \<Rightarrow> bytes \<Rightarrow> unit fault + bytes" where
  "hash_key lib key =
     (let hash_b64 = base64 lib (sha1 lib (key @ WS_GUID))
      in if length hash_b64 \<noteq> 28 then Inl Panic else Inr hash_b64)"

fun has_infix :: "'a list \<Rightarrow> 'a list \<Rightarrow> bool" where
  "has_infix needle [] = (needle = [])"
| "has_infix needle (x # xs) = (take (length needle) (x # xs) = needle \<or> has_infix needle xs)"

text \<open>Whether a header is set to text that holds the word in any letter case.\<close>

definition header_contains :: "ws_lib \<Rightarrow> header_map \<Rightarrow> string \<Rightarrow> string \<Rightarrow> bool" where
  "header_contains lib headers name word =
     (case Option.bind (headers name) (to_str lib) of
        None \<Rightarrow> False
      | Some s \<Rightarrow> has_infix (ascii word) (map ascii_lower s))"

definition ws_version_check :: "header_map \<Rightarrow> HandshakeError + unit" where
  "ws_version_check headers =
     (case headers ''sec-websocket-version'' of
        None \<Rightarrow> Inl NoVersionHeader
      | Some v \<Rightarrow>
          if v \<noteq> ascii ''13'' \<and> v \<noteq> ascii ''8'' \<and> v \<noteq> ascii ''7'' then Inl UnsupportedVersion
          else Inr ())"

definition verify_handshake :: "ws_lib \<Rightarrow> string \<Rightarrow> header_map \<Rightarrow> HandshakeError + bytes" where
  "verify_handshake lib method headers =
     (if method \<noteq> ''GET'' then Inl GetMethodRequired
      else if \<not> header_contains lib headers ''upgrade'' ''websocket'' then Inl NoWebsocketUpgrade
      else if \<not> header_contains lib headers ''connection'' ''upgrade'' then Inl NoConnectionUpgrade
      else (case ws_version_check headers of
          Inl e \<Rightarrow> Inl e
        | Inr _ \<Rightarrow>
            (case headers ''sec-websocket-key'' of
               None \<Rightarrow> Inl BadWebsocketKey
             | Some v \<Rightarrow> Inr v)))"

definition handshake_response :: "ws_lib \<Rightarrow> bytes \<Rightarrow> 'e fault + builder" where
  "handshake_response lib key =
     (case hash_key lib key of
        Inl _ \<Rightarrow> Inl Panic
      | Inr k \<Rightarrow>
          (case from_bytes lib k of
             None \<Rightarrow> Inl Panic
           | Some v \<Rightarrow> Inr \<lparr>status = 101, res_headers =
               [(''upgrade'', WEBSOCKET), (''connection'', UPGRADE_VALUE),
                (''sec-websocket-accept'', v)]\<rparr>))"

definition handshake :: "ws_lib \<Rightarrow> string \<Rightarrow> header_map \<Rightarrow> HandshakeError fault + builder" where
  "handshake lib method headers =
     (case verify_handshake lib method headers of
        Inl e \<Rightarrow> Inl (Err e)
      | Inr key \<Rightarrow> handshake_response lib key)"

definition handshake_h2 :: "string \<Rightarrow> header_map \<Rightarrow> HandshakeError fault + builder" where
  "handshake_h2 method headers =
     (if method \<noteq> ''CONNECT'' then Inl (Err ConnectMethodRequired)
      else (case ws_version_check headers of
          Inl e \<Rightarrow> Inl (Err e)
        | Inr _ \<Rightarrow> Inr \<lparr>status = 200, res_headers = []\<rparr>))"

definition builder_from_error :: "HandshakeError \<Rightarrow> builder" where
  "builder_from_error e =
     (case e of
        GetMethodRequired \<Rightarrow> \<lparr>status = 405, res_headers = [(''allow'', ascii ''GET'')]\<rparr>
      | _ \<Rightarrow> \<lparr>status = 400, res_headers = []\<rparr>)"

text \<open>\<open>ws\<close>: the handshake of the request's version, and the two streams over its body.\<close>

definition ws ::
  "ws_lib \<Rightarrow> request \<Rightarrow> 'e body_event list
   \<Rightarrow> HandshakeError fault + ('e RequestStream \<times> builder \<times> ResponseSender)" where
  "ws lib req body =
     (let res = (case req_version req of
            HTTP_2 \<Rightarrow> handshake_h2 (req_method req) (req_headers req)
          | _ \<Rightarrow> handshake lib (req_method req) (req_headers req)) in
      case res of
        Inl e \<Rightarrow> Inl e
      | Inr b \<Rightarrow> (let decode = with_codec body codec_new
          in Inr (decode, b, response_stream decode)))"

section \<open>Facts\<close>

text \<open>
  What the library promises: SHA-1 has 20 bytes; Base64 with padding writes four characters
  for every three bytes; its text is a header value and text; the literals used are text.
\<close>

definition lib_ok :: "ws_lib \<Rightarrow> bool" where
  "lib_ok lib \<longleftrightarrow>
     (\<forall>x. length (sha1 lib x) = 20) \<and>
     (\<forall>x. length (base64 lib x) = 4 * ((length x + 2) div 3)) \<and>
     (\<forall>x. from_bytes lib (base64 lib x) = Some (base64 lib x)) \<and>
     (\<forall>x. to_str lib x = Some x \<or> \<not> (\<forall>b \<in> set x. 32 \<le> b \<and> b < 127))"

lemma hash_key_ok: "lib_ok lib \<Longrightarrow> hash_key lib key = Inr (base64 lib (sha1 lib (key @ WS_GUID)))"
  by (simp add: hash_key_def lib_ok_def)

lemma verify_handshake_iff:
  "verify_handshake lib method headers = Inr key \<longleftrightarrow>
     method = ''GET'' \<and> header_contains lib headers ''upgrade'' ''websocket''
     \<and> header_contains lib headers ''connection'' ''upgrade''
     \<and> (\<exists>v. headers ''sec-websocket-version'' = Some v
           \<and> v \<in> {ascii ''13'', ascii ''8'', ascii ''7''})
     \<and> headers ''sec-websocket-key'' = Some key"
  by (auto simp: verify_handshake_def ws_version_check_def split: option.splits)

lemma handshake_response_ok:
  assumes "lib_ok lib"
  shows "handshake_response lib key = Inr \<lparr>status = 101, res_headers =
      [(''upgrade'', WEBSOCKET), (''connection'', UPGRADE_VALUE),
       (''sec-websocket-accept'', base64 lib (sha1 lib (key @ WS_GUID)))]\<rparr>"
  using assms by (simp add: handshake_response_def hash_key_ok) (simp add: lib_ok_def)

lemma to_str_word:
  assumes "lib_ok lib" and "\<forall>b \<in> set x. 32 \<le> b \<and> b < 127"
  shows "to_str lib x = Some x"
  using assms unfolding lib_ok_def by blast

lemma client_headers_accepted:
  assumes "lib_ok lib" and "hs ''upgrade'' = Some WEBSOCKET" and "hs ''connection'' = Some UPGRADE_VALUE"
  shows "header_contains lib hs ''upgrade'' ''websocket''"
    and "header_contains lib hs ''connection'' ''upgrade''"
proof -
  have "to_str lib WEBSOCKET = Some WEBSOCKET" "to_str lib UPGRADE_VALUE = Some UPGRADE_VALUE"
    by (rule to_str_word [OF assms(1)], simp add: WEBSOCKET_def UPGRADE_VALUE_def ascii_def)+
  then show "header_contains lib hs ''upgrade'' ''websocket''"
    and "header_contains lib hs ''connection'' ''upgrade''"
    using assms(2,3)
    by (simp_all add: header_contains_def WEBSOCKET_def UPGRADE_VALUE_def ascii_def ascii_lower_def)
qed

lemma client_request_accepted:
  assumes "lib_ok lib" and "length key = 16"
    and "client_request_from_uri lib key HTTP_11 = Inr req"
  shows "verify_handshake lib (req_method req) (req_headers req) = Inr (base64 lib key)"
  using assms
  by (auto simp: client_request_from_uri_def client_request_extend_def Let_def verify_handshake_iff
      SEC_WEBSOCKET_VERSION_VALUE_def client_headers_accepted lib_ok_def
      split: option.splits if_splits)

section \<open>Properties\<close>

text \<open>
  C25: The server accepts the request that the client builds and answers it with status 101 and the accept
  value that RFC 6455 derives from the key the client sent.
\<close>

theorem handshake_agrees:
  assumes "lib_ok lib" and "length key = 16" and "client_request_from_uri lib key HTTP_11 = Inr req"
  shows "handshake lib (req_method req) (req_headers req) = Inr \<lparr>status = 101, res_headers =
      [(''upgrade'', WEBSOCKET), (''connection'', UPGRADE_VALUE),
       (''sec-websocket-accept'', base64 lib (sha1 lib (base64 lib key @ WS_GUID)))]\<rparr>"
  by (simp add: handshake_def client_request_accepted [OF assms] handshake_response_ok [OF assms(1)])

definition plain_lib :: ws_lib where
  "plain_lib = \<lparr>sha1 = (\<lambda>x. replicate 20 (if x = [] then 1 else 0)),
     base64 = (\<lambda>x. replicate (4 * ((length x + 2) div 3)) 65), to_str = Some, from_bytes = Some\<rparr>"

theorem handshake_agrees_witness:
  "\<exists>req. client_request_from_uri plain_lib (replicate 16 7) HTTP_11 = Inr req \<and>
     handshake plain_lib (req_method req) (req_headers req) = Inr \<lparr>status = 101, res_headers =
       [(''upgrade'', WEBSOCKET), (''connection'', UPGRADE_VALUE), (''sec-websocket-accept'', replicate 28 65)]\<rparr>"
proof -
  have lib: "lib_ok plain_lib" by (simp add: lib_ok_def plain_lib_def)
  obtain req where req: "client_request_from_uri plain_lib (replicate 16 7) HTTP_11 = Inr req"
    by (simp add: client_request_from_uri_def client_request_extend_def Let_def plain_lib_def)
  from handshake_agrees [OF lib _ req] show ?thesis using req by (simp add: plain_lib_def)
qed

text \<open>
  The server accepts exactly the \<open>GET\<close> requests that ask for an upgrade to \<open>websocket\<close>, carry a supported
  version and a key; every other request is refused.
\<close>

theorem handshake_accepts_iff:
  "(\<exists>key. verify_handshake lib meth headers = Inr key) \<longleftrightarrow>
     meth = ''GET'' \<and> header_contains lib headers ''upgrade'' ''websocket''
     \<and> header_contains lib headers ''connection'' ''upgrade''
     \<and> headers ''sec-websocket-version'' \<in> Some ` {ascii ''13'', ascii ''8'', ascii ''7''}
     \<and> headers ''sec-websocket-key'' \<noteq> None"
  by (auto simp: verify_handshake_iff)

end
