(* ===== verification/H1_Chunked.thy ===== *)
theory H1_Chunked
  imports H1_Codec
begin

text \<open>
  Correctness of the chunked decoder of \<open>H1_Codec\<close>. \<open>run\<close> is the decoder one byte at a
  time; \<open>drain\<close> calls \<open>decode\<close> as long as it yields data, as the body reader of the
  dispatcher does. Draining a buffer gives what \<open>run\<close> gives, and \<open>run\<close> is a fold, so the
  decoded body does not depend on how the input was cut into reads.
\<close>

section \<open>One byte at a time\<close>

definition byte_step :: "ChunkedState \<Rightarrow> nat \<Rightarrow> u8 \<Rightarrow> io_error + (ChunkedState \<times> nat \<times> bytes)" where
  "byte_step st n b =
     (if st = Body then Inr (if n > 1 then Body else BodyCr, n - 1, [b])
      else (case step st [b] n of
          (Inl e, _) \<Rightarrow> Inl e
        | (Inr (Some st'), _, n', _) \<Rightarrow> Inr (st', n', [])
        | (Inr None, _, n', _) \<Rightarrow> Inr (st, n', [])))"

fun run :: "ChunkedState \<Rightarrow> nat \<Rightarrow> bytes \<Rightarrow> bytes \<times> (io_error + ChunkedState \<times> nat) \<times> bytes" where
  "run st n [] = ([], Inr (st, n), [])"
| "run st n (b # bs) =
     (if st = End then ([], Inr (st, n), b # bs)
      else (case byte_step st n b of
          Inl e \<Rightarrow> ([], Inl e, bs)
        | Inr (st', n', out) \<Rightarrow>
            (case run st' n' bs of (data, r, rest) \<Rightarrow> (out @ data, r, rest))))"

text \<open>Feeding more input goes on where the machine stands.\<close>

lemma run_append:
  "run st n (xs @ ys) =
     (case run st n xs of
        (d, Inl e, rest) \<Rightarrow> (d, Inl e, rest @ ys)
      | (d, Inr (st', n'), rest) \<Rightarrow>
          if st' = End then (d, Inr (st', n'), rest @ ys)
          else (case run st' n' ys of (d', r, rest') \<Rightarrow> (d @ d', r, rest')))"
proof (induction st n xs rule: run.induct)
  case (1 st n)
  then show ?case by (cases ys) (auto split: prod.splits sum.splits)
next
  case (2 st n b bs)
  then show ?case by (auto split: prod.splits sum.splits)
qed

lemma run_End [simp]: "run End n bs = ([], Inr (End, n), bs)"
  by (cases bs) simp_all

text \<open>The states the decoder can be in: in a chunk body some of it is still to come.\<close>

definition chunk_wf :: "ChunkedState \<Rightarrow> nat \<Rightarrow> bool" where
  "chunk_wf st n \<longleftrightarrow> (st = Body \<longrightarrow> n > 0)"

lemma run_body:
  "0 < n \<Longrightarrow> run Body n bs =
     (if length bs < n then (bs, Inr (Body, n - length bs), [])
      else (case run BodyCr 0 (drop n bs) of (d, r, rest) \<Rightarrow> (take n bs @ d, r, rest)))"
proof (induction bs arbitrary: n)
  case (Cons b bs)
  show ?case
  proof (cases "n = 1")
    case True
    then show ?thesis by (simp add: byte_step_def split: prod.splits)
  next
    case False
    with Cons.prems have "0 < n - 1" by simp
    with Cons.IH [of "n - 1"] Cons.prems False show ?thesis
      by (auto simp: byte_step_def take_Cons' drop_Cons' split: prod.splits)
  qed
qed simp

text \<open>Outside a chunk body the machine looks at one byte only.\<close>

lemma add_digit_state: "fst (add_digit n d) \<noteq> Inr None" "fst (add_digit n d) = Inr (Some s) \<Longrightarrow> s = Size"
  by (auto simp: add_digit_def split: option.splits)

lemma read_size_Cons: "read_size (b # bs) n = (fst (read_size [b] n), bs, snd (snd (read_size [b] n)))"
  by (simp add: case_prod_beta)

lemma read_size_state:
  "fst (read_size [b] n) \<noteq> Inr None" "fst (read_size [b] n) = Inr (Some s) \<Longrightarrow> s \<noteq> Body"
  by (auto simp: case_prod_beta add_digit_state dest: add_digit_state(2) split: if_splits)

lemma step_Cons:
  assumes "st \<noteq> Body" "st \<noteq> End"
  shows "step st (b # bs) n = (fst (step st [b] n), bs, fst (snd (snd (step st [b] n))), None)"
  using assms
  by (cases st) (simp_all add: step_def read_size_Cons [of b bs] case_prod_beta del: read_size.simps)

lemma step_some:
  assumes "st \<noteq> Body" "st \<noteq> End"
  shows "fst (step st [b] n) \<noteq> Inr None"
  using assms
  by (cases st) (simp_all add: step_def case_prod_beta read_size_state del: read_size.simps)

lemma step_wf:
  assumes "step st [b] n = (Inr (Some st'), rest, n', out)" and "st \<noteq> Body"
  shows "chunk_wf st' n'"
  using assms read_size_state(2) [of b n st']
  by (cases st) (simp_all add: step_def case_prod_beta chunk_wf_def del: read_size.simps split: if_splits)
section \<open>The loop of decode\<close>

definition loop_agrees ::
  "ChunkedState \<Rightarrow> nat \<Rightarrow> bytes \<Rightarrow> ChunkResult \<Rightarrow> TransferCoding \<Rightarrow> bytes \<Rightarrow> bool" where
  "loop_agrees st n src r tc rest \<longleftrightarrow>
     (case r of
        CR_Ok d \<Rightarrow> (\<exists>st' n'. tc = DecodeChunked st' n' \<and> st' \<noteq> End \<and> chunk_wf st' n' \<and> d \<noteq> []
            \<and> length rest < length src
            \<and> run st n src = (case run st' n' rest of (d', R) \<Rightarrow> (d @ d', R)))
      | InsufficientData \<Rightarrow> (\<exists>st' n'. tc = DecodeChunked st' n' \<and> st' \<noteq> End \<and> chunk_wf st' n'
            \<and> rest = [] \<and> run st n src = ([], Inr (st', n'), []))
      | OnEof \<Rightarrow> tc = TC_Eof \<and> (\<exists>n'. run st n src = ([], Inr (End, n'), rest))
      | CR_Err e \<Rightarrow> run st n src = ([], Inl e, rest)
      | _ \<Rightarrow> False)"

lemma loop_agrees_cons:
  assumes "byte_step st n b = Inr (st', n', [])" and "st \<noteq> End" and "loop_agrees st' n' bs r tc rest"
  shows "loop_agrees st n (b # bs) r tc rest"
proof -
  have "run st n (b # bs) = run st' n' bs" using assms(1,2) by (simp split: prod.split)
  then show ?thesis using assms(3) unfolding loop_agrees_def by (cases r) (auto intro: less_SucI)
qed

lemma decode_loop_Nil:
  assumes "st \<noteq> End"
  shows "decode_loop st n [] = (InsufficientData, DecodeChunked st n, [])"
proof -
  have "step st [] n = (Inr None, [], n, None)"
    using assms by (cases st) (simp_all add: step_def read_body_def)
  then show ?thesis by (simp add: decode_loop.simps [of st])
qed

lemma decode_loop_body:
  assumes "0 < n" and "src \<noteq> []" and "decode_loop Body n src = (r, tc, rest)"
  shows "loop_agrees Body n src r tc rest"
proof (cases "length src < n")
  case True
  with assms have "r = CR_Ok src" "tc = DecodeChunked Body (n - length src)" "rest = []"
    by (auto simp: decode_loop.simps [of Body] step_def read_body_def bounded_split_def Let_def)
  with True assms show ?thesis by (simp add: loop_agrees_def chunk_wf_def run_body)
next
  case False
  with assms have "r = CR_Ok (take n src)" "tc = DecodeChunked BodyCr 0" "rest = drop n src"
    by (auto simp: decode_loop.simps [of Body] step_def read_body_def bounded_split_def Let_def
        split: if_splits)
  with False assms show ?thesis
    by (simp add: loop_agrees_def chunk_wf_def run_body case_prod_beta)
qed

lemma decode_loop_agrees:
  assumes "chunk_wf st n" and "st \<noteq> End" and "decode_loop st n src = (r, tc, rest)"
  shows "loop_agrees st n src r tc rest"
  using assms
proof (induction src arbitrary: st n)
  case Nil
  then show ?case by (auto simp: decode_loop_Nil loop_agrees_def)
next
  case (Cons b bs)
  show ?case
  proof (cases "st = Body")
    case True
    with Cons.prems show ?thesis by (auto simp: chunk_wf_def intro!: decode_loop_body)
  next
    case False
    obtain r1 rest1 n1 out1 where s: "step st [b] n = (r1, rest1, n1, out1)"
      by (cases "step st [b] n")
    have s': "step st (b # bs) n = (r1, bs, n1, None)" and r1: "r1 \<noteq> Inr None"
      using step_Cons [OF False Cons.prems(2), of b bs n] step_some [OF False Cons.prems(2), of b n] s
      by simp_all
    show ?thesis
    proof (cases r1)
      case (Inl e)
      with Cons.prems False s s' show ?thesis
        by (auto simp: decode_loop.simps [of st] loop_agrees_def byte_step_def)
    next
      case (Inr o1)
      with r1 obtain st1 where o1: "r1 = Inr (Some st1)" by (cases o1) auto
      have bs: "byte_step st n b = Inr (st1, n1, [])" using s o1 False by (simp add: byte_step_def)
      show ?thesis
      proof (cases "st1 = End")
        case True
        with Cons.prems False s' o1 bs show ?thesis
          by (auto simp: decode_loop.simps [of st] loop_agrees_def)
      next
        case ne: False
        have "chunk_wf st1 n1" using s o1 False by (auto dest: step_wf)
        moreover have "decode_loop st1 n1 bs = (r, tc, rest)"
          using Cons.prems(3) s' o1 ne by (simp add: decode_loop.simps [of st])
        ultimately have "loop_agrees st1 n1 bs r tc rest" using ne by (blast intro: Cons.IH)
        with bs Cons.prems(2) show ?thesis by (rule loop_agrees_cons)
      qed
    qed
  qed
qed

lemma run_rest: "run st n xs = (d, Inr (st', n'), rest) \<Longrightarrow> st' \<noteq> End \<Longrightarrow> rest = []"
  by (induction st n xs arbitrary: d rule: run.induct) (auto split: prod.splits sum.splits if_splits)

section \<open>Draining a buffer\<close>

text \<open>
  \<open>drain\<close> calls \<open>decode\<close> until it yields no data. Every call that yields data takes at least
  one byte, so the length of the buffer is enough fuel.
\<close>

fun drain ::
  "nat \<Rightarrow> TransferCoding \<Rightarrow> bytes \<Rightarrow> (bytes list \<times> ChunkResult \<times> TransferCoding \<times> bytes) option" where
  "drain 0 tc src = None"
| "drain (Suc k) tc src =
     (case decode tc src of
        (Inl _, _, _) \<Rightarrow> None
      | (Inr (CR_Ok d), tc', src') \<Rightarrow>
          (case drain k tc' src' of
             Some (ds, r) \<Rightarrow> Some (d # ds, r)
           | None \<Rightarrow> None)
      | (Inr r, tc', src') \<Rightarrow> Some ([], r, tc', src'))"

definition drain_agrees ::
  "bytes \<times> (io_error + ChunkedState \<times> nat) \<times> bytes \<Rightarrow> bytes list \<Rightarrow> ChunkResult \<Rightarrow>
     TransferCoding \<Rightarrow> bytes \<Rightarrow> bool" where
  "drain_agrees out ds r tc rest \<longleftrightarrow>
     (case out of (d, R, rest') \<Rightarrow>
        concat ds = d \<and> [] \<notin> set ds \<and> rest = rest' \<and>
        (case R of
           Inl e \<Rightarrow> r = CR_Err e
         | Inr (st, n) \<Rightarrow>
             if st = End then r = OnEof \<and> tc = TC_Eof
             else r = InsufficientData \<and> tc = DecodeChunked st n \<and> chunk_wf st n))"

lemma decode_chunked:
  assumes "st \<noteq> End"
  shows "decode (DecodeChunked st n) src =
    (case decode_loop st n src of (r, tc, src) \<Rightarrow> (Inr r, tc, src))"
  using assms by (cases st) (simp_all add: decode_def decode_loop_Nil)

lemma drain_chunked:
  assumes "chunk_wf st n" and "st \<noteq> End" and "length src < k"
  shows "\<exists>ds r tc rest. drain k (DecodeChunked st n) src = Some (ds, r, tc, rest) \<and>
           drain_agrees (run st n src) ds r tc rest"
  using assms
proof (induction k arbitrary: st n src)
  case (Suc k)
  obtain r tc rest where loop: "decode_loop st n src = (r, tc, rest)" by (cases "decode_loop st n src")
  have agr: "loop_agrees st n src r tc rest" by (rule decode_loop_agrees [OF Suc.prems(1,2) loop])
  note dec = decode_chunked [OF Suc.prems(2), of n src] loop
  show ?case
  proof (cases r)
    case (CR_Ok d)
    with agr obtain st' n' where tc: "tc = DecodeChunked st' n'" "st' \<noteq> End" "chunk_wf st' n'"
      and d: "d \<noteq> []" and len: "length rest < length src"
      and run: "run st n src = (case run st' n' rest of (d', R) \<Rightarrow> (d @ d', R))"
      by (auto simp: loop_agrees_def)
    have "length rest < k" using len Suc.prems(3) by simp
    from Suc.IH [OF tc(3,2) this] obtain ds r' tc' rest' where
      "drain k (DecodeChunked st' n') rest = Some (ds, r', tc', rest')"
      "drain_agrees (run st' n' rest) ds r' tc' rest'" by blast
    then show ?thesis using CR_Ok tc(1) d run dec
      by (auto simp: drain_agrees_def split: prod.splits sum.splits)
  qed (use agr dec in \<open>auto simp: loop_agrees_def drain_agrees_def\<close>)
qed simp

text \<open>
  \<open>feed\<close> is the reader over a connection: every read is appended to what is left in the
  buffer, which is then drained; what follows the end of the body stays in the buffer.
\<close>

fun feed ::
  "TransferCoding \<Rightarrow> bytes \<Rightarrow> bytes list \<Rightarrow> (bytes \<times> ChunkResult \<times> TransferCoding \<times> bytes) option" where
  "feed tc buf [] = Some ([], InsufficientData, tc, buf)"
| "feed tc buf (x # xs) =
     (case drain (Suc (length (buf @ x))) tc (buf @ x) of
        None \<Rightarrow> None
      | Some (ds, InsufficientData, tc', rest) \<Rightarrow>
          (case feed tc' rest xs of
             None \<Rightarrow> None
           | Some (d, r) \<Rightarrow> Some (concat ds @ d, r))
      | Some (ds, r, tc', rest) \<Rightarrow> Some (concat ds, r, tc', rest @ concat xs))"

definition feed_agrees ::
  "bytes \<times> (io_error + ChunkedState \<times> nat) \<times> bytes \<Rightarrow>
     bytes \<times> ChunkResult \<times> TransferCoding \<times> bytes \<Rightarrow> bool" where
  "feed_agrees out res \<longleftrightarrow>
     (case (out, res) of ((d, R, rest), (d', r, tc, rest')) \<Rightarrow>
        d' = d \<and> rest' = rest \<and>
        (case R of
           Inl e \<Rightarrow> r = CR_Err e
         | Inr (st, n) \<Rightarrow>
             if st = End then r = OnEof \<and> tc = TC_Eof
             else r = InsufficientData \<and> tc = DecodeChunked st n))"

lemma feed_chunked:
  assumes "chunk_wf st n" and "st \<noteq> End"
  shows "\<exists>res. feed (DecodeChunked st n) [] xs = Some res \<and> feed_agrees (run st n (concat xs)) res"
  using assms
proof (induction xs arbitrary: st n)
  case (Cons x xs)
  obtain ds r tc rest where dr: "drain (Suc (length x)) (DecodeChunked st n) x = Some (ds, r, tc, rest)"
    and agr: "drain_agrees (run st n x) ds r tc rest"
    using drain_chunked [OF Cons.prems, of x "Suc (length x)"] by auto
  obtain d R rest' where run: "run st n x = (d, R, rest')" by (cases "run st n x")
  have app: "run st n (x @ concat xs) = (case R of
        Inl e \<Rightarrow> (d, Inl e, rest' @ concat xs)
      | Inr (st', n') \<Rightarrow> if st' = End then (d, Inr (st', n'), rest' @ concat xs)
          else (case run st' n' (concat xs) of (d', r, rest') \<Rightarrow> (d @ d', r, rest')))"
    by (simp add: run_append run split: sum.splits)
  show ?case
  proof (cases "r = InsufficientData")
    case True
    with agr run obtain st' n' where R: "R = Inr (st', n')" "st' \<noteq> End" "chunk_wf st' n'"
      and tc: "tc = DecodeChunked st' n'" and ds: "concat ds = d"
      by (auto simp: drain_agrees_def split: sum.splits if_splits)
    have "rest = []" using agr run R run_rest [of st n x] by (auto simp: drain_agrees_def)
    then show ?thesis using Cons.IH [OF R(3,2)] True tc ds dr app R
      by (auto simp: feed_agrees_def simp del: drain.simps split: prod.splits sum.splits)
  next
    case False
    then show ?thesis using agr run dr app
      by (cases r) (auto simp: drain_agrees_def feed_agrees_def simp del: drain.simps
          split: sum.splits if_splits)
  qed
qed (simp add: feed_agrees_def)

section \<open>Bodies with a length\<close>

text \<open>A body of \<open>n\<close> bytes ends after exactly \<open>n\<close> bytes, and the rest of the buffer is left.\<close>

lemma drain_length:
  "drain (Suc (Suc k)) (TC_Length n) src = Some
     (if n = 0 then ([], OnEof, TC_Eof, src)
      else if src = [] then ([], InsufficientData, TC_Length n, [])
      else if length src < n then ([src], InsufficientData, TC_Length (n - length src), [])
      else ([take n src], OnEof, TC_Eof, drop n src))"
  by (cases n) (auto simp: decode_def bounded_split_def Let_def split: nat.splits)

lemma feed_length:
  "0 < n \<Longrightarrow> feed (TC_Length n) [] xs = Some
     (if n \<le> length (concat xs) then (take n (concat xs), OnEof, TC_Eof, drop n (concat xs))
      else (concat xs, InsufficientData, TC_Length (n - length (concat xs)), []))"
proof (induction xs arbitrary: n)
  case (Cons x xs)
  have dr: "drain (Suc (length x)) (TC_Length n) x = Some
     (if x = [] then ([], InsufficientData, TC_Length n, [])
      else if length x < n then ([x], InsufficientData, TC_Length (n - length x), [])
      else ([take n x], OnEof, TC_Eof, drop n x))"
  proof (cases x)
    case Nil
    then show ?thesis using Cons.prems by (cases n) (simp_all add: decode_def)
  next
    case (Cons b bs)
    then show ?thesis using drain_length [of "length bs" n x] \<open>0 < n\<close> by (simp del: drain.simps)
  qed
  show ?case
  proof (cases "length x < n")
    case True
    then show ?thesis using Cons.IH [of "n - length x"] Cons.prems dr
      by (auto simp del: drain.simps)
  next
    case False
    then show ?thesis using Cons.prems dr by (auto simp del: drain.simps)
  qed
qed (simp add: decode_def)

text \<open>Draining a buffer always ends, whatever the coding of a request body.\<close>

lemma drain_total:
  assumes "d \<noteq> EncodeChunked" and "\<And>st n. d = DecodeChunked st n \<Longrightarrow> chunk_wf st n"
  shows "\<exists>res. drain (Suc (Suc (length src))) d src = Some res"
proof (cases d)
  case (DecodeChunked st n)
  show ?thesis
  proof (cases "st = End")
    case True
    then show ?thesis using DecodeChunked by (simp add: decode_def)
  next
    case False
    then show ?thesis using drain_chunked [of st n src "Suc (Suc (length src))"] assms(2) DecodeChunked
      by (auto simp del: drain.simps)
  qed
next
  case (TC_Length n)
  then show ?thesis using drain_length [of "length src" n src] by blast
next
  case TC_Upgrade
  then show ?thesis by (auto simp: decode_def)
qed (use assms(1) in \<open>simp_all add: decode_def\<close>)

section \<open>Properties\<close>

text \<open>
  C16: The decoder of chunked bodies computes what the byte-by-byte reference machine computes, however the body
  was cut into reads: the same data in the same order, the same error or end, and the same bytes left over.
\<close>

theorem chunked_split_independent:
  "\<exists>res. feed tc_decode_chunked [] xs = Some res \<and> feed_agrees (run Size 0 (concat xs)) res"
  using feed_chunked [of Size 0 xs] by (simp add: tc_decode_chunked_def chunk_wf_def)

text \<open>
  C29: Draining a buffer ends: every call of the decoder that yields data takes at least one byte, so after at
  most two calls more than the buffer has bytes the decoder asks for more input, reports an error or is done.
\<close>

theorem drain_terminates:
  assumes "d \<noteq> EncodeChunked" and "\<And>st n. d = DecodeChunked st n \<Longrightarrow> chunk_wf st n"
  shows "\<exists>res. drain (Suc (Suc (length src))) d src = Some res"
  using assms by (rule drain_total)

theorem drain_terminates_witness:
  "\<exists>res. drain (Suc (Suc (length (ascii ''5;x'')))) (DecodeChunked Size 0) (ascii ''5;x'') = Some res"
  by (rule drain_terminates) (simp_all add: chunk_wf_def)

end
