(* ===== verification/Bound_Queue.thy ===== *)
theory Bound_Queue
  imports Prelude
begin

text \<open>
  The bounded ring buffers of \<open>unsafe_collection/src/bound_queue\<close>. The trait \<open>Queueable\<close> is a
  record of its operations; \<open>Bounded\<close> is written once over it, as in the source, and used with
  the two storages of the library: the inline array of \<open>StackQueue\<close> and the heap allocation of
  \<open>HeapQueue\<close>. An \<open>unsafe\<close> access returns \<open>None\<close> when it would be undefined behaviour (an index
  out of bounds, or a slot that was never written or whose value has been moved out), so the
  theorems that the operations return \<open>Some\<close> are the safety arguments of the source.
\<close>

section \<open>Model\<close>

record ('q, 'a) Queueable =
  q_capacity :: "'q \<Rightarrow> nat"
  get_unchecked :: "'q \<Rightarrow> nat \<Rightarrow> 'a option"
  read_unchecked :: "'q \<Rightarrow> nat \<Rightarrow> ('a \<times> 'q) option"
  write_unchecked :: "'q \<Rightarrow> nat \<Rightarrow> 'a \<Rightarrow> 'q option"

record 'q Bounded =
  b_queue :: 'q
  b_next :: nat
  b_len :: nat

definition is_empty :: "'q Bounded \<Rightarrow> bool" where
  "is_empty b \<longleftrightarrow> b_len b = 0"

definition is_full :: "('q, 'a) Queueable \<Rightarrow> 'q Bounded \<Rightarrow> bool" where
  "is_full Q b \<longleftrightarrow> b_len b = q_capacity Q (b_queue b)"

definition incr_tail_len :: "('q, 'a) Queueable \<Rightarrow> 'q Bounded \<Rightarrow> 'q Bounded" where
  "incr_tail_len Q b =
     (let b = b\<lparr>b_next := b_next b + 1, b_len := b_len b + 1\<rparr>
      in if b_next b = q_capacity Q (b_queue b) then b\<lparr>b_next := 0\<rparr> else b)"

definition front_idx :: "('q, 'a) Queueable \<Rightarrow> 'q Bounded \<Rightarrow> nat" where
  "front_idx Q b =
     (if b_next b \<ge> b_len b then b_next b - b_len b
      else q_capacity Q (b_queue b) + b_next b - b_len b)"

definition front_unchecked :: "('q, 'a) Queueable \<Rightarrow> 'q Bounded \<Rightarrow> 'a option" where
  "front_unchecked Q b = get_unchecked Q (b_queue b) (front_idx Q b)"

definition front :: "('q, 'a) Queueable \<Rightarrow> 'q Bounded \<Rightarrow> 'a option option" where
  "front Q b =
     (if is_empty b then Some None
      else (case front_unchecked Q b of None \<Rightarrow> None | Some x \<Rightarrow> Some (Some x)))"

text \<open>\<open>front_mut\<close> hands out a reference; \<open>f\<close> is what the caller does through it.\<close>

definition front_mut_unchecked ::
  "('q, 'a) Queueable \<Rightarrow> ('a \<Rightarrow> 'a) \<Rightarrow> 'q Bounded \<Rightarrow> 'q Bounded option" where
  "front_mut_unchecked Q f b =
     (case get_unchecked Q (b_queue b) (front_idx Q b) of
        None \<Rightarrow> None
      | Some x \<Rightarrow> (case write_unchecked Q (b_queue b) (front_idx Q b) (f x) of
          None \<Rightarrow> None
        | Some q \<Rightarrow> Some (b\<lparr>b_queue := q\<rparr>)))"

definition front_mut :: "('q, 'a) Queueable \<Rightarrow> ('a \<Rightarrow> 'a) \<Rightarrow> 'q Bounded \<Rightarrow> 'q Bounded option" where
  "front_mut Q f b = (if is_empty b then Some b else front_mut_unchecked Q f b)"

definition b_truncate :: "('q, 'a) Queueable \<Rightarrow> nat \<Rightarrow> 'q Bounded \<Rightarrow> 'q Bounded" where
  "b_truncate Q n b =
     (if b_len b > n then
        let delta = b_len b - n; b = b\<lparr>b_len := n\<rparr>
        in if delta > b_next b then b\<lparr>b_next := q_capacity Q (b_queue b) + b_next b - delta\<rparr>
           else b\<lparr>b_next := b_next b - delta\<rparr>
      else b)"

definition pop_front_unchecked :: "('q, 'a) Queueable \<Rightarrow> 'q Bounded \<Rightarrow> ('a \<times> 'q Bounded) option" where
  "pop_front_unchecked Q b =
     (let idx = front_idx Q b; b = b\<lparr>b_len := b_len b - 1\<rparr>
      in case read_unchecked Q (b_queue b) idx of
           None \<Rightarrow> None
         | Some (x, q) \<Rightarrow> Some (x, b\<lparr>b_queue := q\<rparr>))"

definition pop_front :: "('q, 'a) Queueable \<Rightarrow> 'q Bounded \<Rightarrow> ('a option \<times> 'q Bounded) option" where
  "pop_front Q b =
     (if is_empty b then Some (None, b)
      else (case pop_front_unchecked Q b of
          None \<Rightarrow> None
        | Some (x, b) \<Rightarrow> Some (Some x, b)))"

definition push_back_unchecked :: "('q, 'a) Queueable \<Rightarrow> 'a \<Rightarrow> 'q Bounded \<Rightarrow> 'q Bounded option" where
  "push_back_unchecked Q x b =
     (case write_unchecked Q (b_queue b) (b_next b) x of
        None \<Rightarrow> None
      | Some q \<Rightarrow> Some (incr_tail_len Q (b\<lparr>b_queue := q\<rparr>)))"

text \<open>The result of \<open>push_back\<close>: \<open>Inl x\<close> is \<open>PushError(x)\<close>, the item handed back.\<close>

definition push_back :: "('q, 'a) Queueable \<Rightarrow> 'a \<Rightarrow> 'q Bounded \<Rightarrow> (('a + unit) \<times> 'q Bounded) option" where
  "push_back Q x b =
     (if is_full Q b then Some (Inl x, b)
      else (case push_back_unchecked Q x b of
          None \<Rightarrow> None
        | Some b \<Rightarrow> Some (Inr (), b)))"

text \<open>\<open>clear\<close> pops until the queue is empty; the length is enough fuel.\<close>

fun pop_all :: "('q, 'a) Queueable \<Rightarrow> nat \<Rightarrow> 'q Bounded \<Rightarrow> ('a list \<times> 'q Bounded) option" where
  "pop_all Q 0 b = None"
| "pop_all Q (Suc k) b =
     (case pop_front Q b of
        None \<Rightarrow> None
      | Some (None, b) \<Rightarrow> Some ([], b)
      | Some (Some x, b) \<Rightarrow> (case pop_all Q k b of None \<Rightarrow> None | Some (xs, b) \<Rightarrow> Some (x # xs, b)))"

definition clear :: "('q, 'a) Queueable \<Rightarrow> 'q Bounded \<Rightarrow> ('a list \<times> 'q Bounded) option" where
  "clear Q b =
     (case pop_all Q (Suc (b_len b)) b of
        None \<Rightarrow> None
      | Some (dropped, b) \<Rightarrow> Some (dropped, b\<lparr>b_next := 0, b_len := 0\<rparr>))"

record 'q Iter =
  it_queue :: 'q
  it_tail :: nat
  it_len :: nat

definition iter :: "'q Bounded \<Rightarrow> 'q Iter" where
  "iter b = \<lparr>it_queue = b_queue b, it_tail = b_next b, it_len = b_len b\<rparr>"

definition iter_next :: "('q, 'a) Queueable \<Rightarrow> 'q Iter \<Rightarrow> ('a option \<times> 'q Iter) option" where
  "iter_next Q it =
     (if it_len it = 0 then Some (None, it)
      else
        let idx = (if it_tail it \<ge> it_len it then it_tail it - it_len it
                   else q_capacity Q (it_queue it) + it_tail it - it_len it);
            it = it\<lparr>it_len := it_len it - 1\<rparr>
        in case get_unchecked Q (it_queue it) idx of
             None \<Rightarrow> None
           | Some x \<Rightarrow> Some (Some x, it))"

fun iter_collect :: "('q, 'a) Queueable \<Rightarrow> nat \<Rightarrow> 'q Iter \<Rightarrow> 'a list option" where
  "iter_collect Q 0 it = None"
| "iter_collect Q (Suc k) it =
     (case iter_next Q it of
        None \<Rightarrow> None
      | Some (None, _) \<Rightarrow> Some []
      | Some (Some x, it) \<Rightarrow> (case iter_collect Q k it of None \<Rightarrow> None | Some xs \<Rightarrow> Some (x # xs)))"

subsection \<open>The two storages\<close>

text \<open>\<open>[MaybeUninit<T>; N]\<close>: \<open>None\<close> is an uninitialised slot; a value read out is moved.\<close>

definition stack_storage :: "('a option list, 'a) Queueable" where
  "stack_storage = \<lparr>
     q_capacity = length,
     get_unchecked = (\<lambda>q i. if i < length q then q ! i else None),
     read_unchecked = (\<lambda>q i. if i < length q then map_option (\<lambda>x. (x, q[i := None])) (q ! i) else None),
     write_unchecked = (\<lambda>q i x. if i < length q then Some (q[i := Some x]) else None)\<rparr>"

definition stack_new :: "nat \<Rightarrow> 'a option list Bounded" where
  "stack_new n = \<lparr>b_queue = replicate n None, b_next = 0, b_len = 0\<rparr>"

text \<open>\<open>HeapQueueInner\<close>: a pointer to an allocation for \<open>CAP\<close> items.\<close>

record 'a heap_alloc =
  ha_mem :: "nat \<rightharpoonup> 'a"
  ha_cap :: nat

definition heap_storage :: "('a heap_alloc, 'a) Queueable" where
  "heap_storage = \<lparr>
     q_capacity = ha_cap,
     get_unchecked = (\<lambda>q i. if i < ha_cap q then ha_mem q i else None),
     read_unchecked = (\<lambda>q i. if i < ha_cap q
        then map_option (\<lambda>x. (x, q\<lparr>ha_mem := (ha_mem q)(i := None)\<rparr>)) (ha_mem q i) else None),
     write_unchecked = (\<lambda>q i x. if i < ha_cap q
        then Some (q\<lparr>ha_mem := (ha_mem q)(i \<mapsto> x)\<rparr>) else None)\<rparr>"

definition heap_new :: "nat \<Rightarrow> 'a heap_alloc Bounded" where
  "heap_new n = \<lparr>b_queue = \<lparr>ha_mem = Map.empty, ha_cap = n\<rparr>, b_next = 0, b_len = 0\<rparr>"

subsection \<open>Sequences of operations\<close>

text \<open>
  A client is a sequence of operations; \<open>queue_op\<close> runs one on the ring buffer and \<open>fifo_op\<close> on
  the specification, a list of at most \<open>c\<close> items.
\<close>

datatype 'a queue_call =
  PushBack 'a | PopFront | Front | FrontMut "'a \<Rightarrow> 'a" | Truncate nat | Clear | IterAll | IsFull | IsEmpty

datatype 'a queue_out =
  Pushed | Refused 'a | Item "'a option" | Done | Items "'a list" | Flag bool

definition queue_op ::
  "('q, 'a) Queueable \<Rightarrow> 'a queue_call \<Rightarrow> 'q Bounded \<Rightarrow> ('a queue_out \<times> 'q Bounded) option" where
  "queue_op Q op b =
     (case op of
        PushBack x \<Rightarrow>
          map_option (\<lambda>(r, b). (case r of Inl x \<Rightarrow> Refused x | Inr _ \<Rightarrow> Pushed, b)) (push_back Q x b)
      | PopFront \<Rightarrow> map_option (\<lambda>(r, b). (Item r, b)) (pop_front Q b)
      | Front \<Rightarrow> map_option (\<lambda>r. (Item r, b)) (front Q b)
      | FrontMut f \<Rightarrow> map_option (\<lambda>b. (Done, b)) (front_mut Q f b)
      | Truncate n \<Rightarrow> Some (Done, b_truncate Q n b)
      | Clear \<Rightarrow> map_option (\<lambda>(xs, b). (Items xs, b)) (clear Q b)
      | IterAll \<Rightarrow> map_option (\<lambda>xs. (Items xs, b)) (iter_collect Q (Suc (b_len b)) (iter b))
      | IsFull \<Rightarrow> Some (Flag (is_full Q b), b)
      | IsEmpty \<Rightarrow> Some (Flag (is_empty b), b))"

fun queue_ops ::
  "('q, 'a) Queueable \<Rightarrow> 'a queue_call list \<Rightarrow> 'q Bounded \<Rightarrow> 'a queue_out list option" where
  "queue_ops Q [] b = Some []"
| "queue_ops Q (op # ops) b =
     (case queue_op Q op b of
        None \<Rightarrow> None
      | Some (r, b) \<Rightarrow> map_option (\<lambda>rs. r # rs) (queue_ops Q ops b))"

definition fifo_op :: "nat \<Rightarrow> 'a queue_call \<Rightarrow> 'a list \<Rightarrow> 'a queue_out \<times> 'a list" where
  "fifo_op c op xs =
     (case op of
        PushBack x \<Rightarrow> if length xs = c then (Refused x, xs) else (Pushed, xs @ [x])
      | PopFront \<Rightarrow> (case xs of [] \<Rightarrow> (Item None, []) | x # xs \<Rightarrow> (Item (Some x), xs))
      | Front \<Rightarrow> (Item (case xs of [] \<Rightarrow> None | x # _ \<Rightarrow> Some x), xs)
      | FrontMut f \<Rightarrow> (Done, case xs of [] \<Rightarrow> [] | x # xs \<Rightarrow> f x # xs)
      | Truncate n \<Rightarrow> (Done, take n xs)
      | Clear \<Rightarrow> (Items xs, [])
      | IterAll \<Rightarrow> (Items xs, xs)
      | IsFull \<Rightarrow> (Flag (length xs = c), xs)
      | IsEmpty \<Rightarrow> (Flag (xs = []), xs))"

fun fifo_ops :: "nat \<Rightarrow> 'a queue_call list \<Rightarrow> 'a list \<Rightarrow> 'a queue_out list" where
  "fifo_ops c [] xs = []"
| "fifo_ops c (op # ops) xs = (case fifo_op c op xs of (r, xs) \<Rightarrow> r # fifo_ops c ops xs)"

section \<open>The ring buffer is a bounded FIFO queue\<close>

text \<open>
  The contract of \<open>Queueable\<close>: \<open>slot\<close> is the content of a slot. From it, \<open>Bounded\<close> is a FIFO
  list of at most \<open>capacity\<close> items, and no \<open>unsafe\<close> access it makes is undefined.
\<close>

locale queueable =
  fixes Q :: "('q, 'a) Queueable"
    and slot :: "'q \<Rightarrow> nat \<Rightarrow> 'a option"
  assumes get_slot: "i < q_capacity Q q \<Longrightarrow> get_unchecked Q q i = slot q i"
    and read_slot: "i < q_capacity Q q \<Longrightarrow> slot q i = Some x \<Longrightarrow>
      \<exists>q'. read_unchecked Q q i = Some (x, q') \<and> q_capacity Q q' = q_capacity Q q
        \<and> slot q' = (slot q)(i := None)"
    and write_slot: "i < q_capacity Q q \<Longrightarrow>
      \<exists>q'. write_unchecked Q q i x = Some q' \<and> q_capacity Q q' = q_capacity Q q
        \<and> slot q' = (slot q)(i \<mapsto> x)"
begin

definition cap :: "'q Bounded \<Rightarrow> nat" where
  "cap b = q_capacity Q (b_queue b)"

text \<open>The slot of the \<open>i\<close>-th item, and the list the ring buffer stands for.\<close>

definition pos :: "'q Bounded \<Rightarrow> nat \<Rightarrow> nat" where
  "pos b i = (if front_idx Q b + i < cap b then front_idx Q b + i else front_idx Q b + i - cap b)"

definition items :: "'q Bounded \<Rightarrow> 'a list" where
  "items b = map (\<lambda>i. the (slot (b_queue b) (pos b i))) [0..<b_len b]"

definition q_inv :: "'q Bounded \<Rightarrow> bool" where
  "q_inv b \<longleftrightarrow> b_len b \<le> cap b \<and> (b_next b < cap b \<or> cap b = 0 \<and> b_next b = 0) \<and>
     (\<forall>i<b_len b. slot (b_queue b) (pos b i) \<noteq> None)"

lemma length_items [simp]: "length (items b) = b_len b"
  by (simp add: items_def)

lemma is_empty_items: "is_empty b \<longleftrightarrow> items b = []"
  by (simp add: is_empty_def items_def)

lemma is_full_items: "is_full Q b \<longleftrightarrow> length (items b) = cap b"
  by (simp add: is_full_def cap_def)

lemma pos_less: "q_inv b \<Longrightarrow> i < b_len b \<Longrightarrow> pos b i < cap b"
  by (auto simp: q_inv_def pos_def front_idx_def cap_def)

lemma pos_inj: "q_inv b \<Longrightarrow> i < b_len b \<Longrightarrow> j < b_len b \<Longrightarrow> pos b i = pos b j \<longleftrightarrow> i = j"
  by (auto simp: q_inv_def pos_def front_idx_def cap_def split: if_splits)

lemma pos_next: "q_inv b \<Longrightarrow> b_len b < cap b \<Longrightarrow> i < b_len b \<Longrightarrow> pos b i \<noteq> b_next b"
  by (auto simp: q_inv_def pos_def front_idx_def cap_def split: if_splits)

lemma front_idx_pos: "front_idx Q b = pos b 0" if "q_inv b" "0 < b_len b"
  using that by (auto simp: q_inv_def pos_def front_idx_def cap_def)

lemma slot_item: "q_inv b \<Longrightarrow> i < b_len b \<Longrightarrow> slot (b_queue b) (pos b i) = Some (items b ! i)"
  by (auto simp: q_inv_def items_def)

lemma front_ok:
  assumes "q_inv b"
  shows "front Q b = Some (case items b of [] \<Rightarrow> None | x # _ \<Rightarrow> Some x)"
proof (cases "items b")
  case Nil
  then show ?thesis by (simp add: front_def is_empty_items)
next
  case (Cons x xs)
  then have "0 < b_len b" using length_items [of b] by (metis length_greater_0_conv list.distinct(1))
  with assms Cons show ?thesis
    using get_slot [of "pos b 0" "b_queue b"] slot_item [of b 0] pos_less [of b 0]
    by (simp add: front_def is_empty_items front_unchecked_def front_idx_pos cap_def)
qed

lemma items_eqI:
  assumes "b_len b = length xs" "\<And>i. i < length xs \<Longrightarrow> slot (b_queue b) (pos b i) = Some (xs ! i)"
  shows "items b = xs"
  using assms by (auto simp: items_def intro!: nth_equalityI)

lemma pop_front_ok:
  assumes "q_inv b"
  shows "\<exists>b'. pop_front Q b = Some (case items b of [] \<Rightarrow> None | x # _ \<Rightarrow> Some x, b') \<and> q_inv b' \<and>
           items b' = tl (items b) \<and> cap b' = cap b"
proof (cases "items b")
  case Nil
  then show ?thesis using assms by (simp add: pop_front_def is_empty_items)
next
  case (Cons x xs)
  then have pos: "0 < b_len b" using length_items [of b] by (metis length_greater_0_conv list.distinct(1))
  obtain q' where rd: "read_unchecked Q (b_queue b) (pos b 0) = Some (x, q')"
    and cap': "q_capacity Q q' = q_capacity Q (b_queue b)"
    and slot': "slot q' = (slot (b_queue b))(pos b 0 := None)"
    using read_slot [of "pos b 0" "b_queue b" x] slot_item [OF assms pos] pos_less [OF assms pos] Cons
    by (auto simp: cap_def)
  define b' where "b' = b\<lparr>b_len := b_len b - 1, b_queue := q'\<rparr>"
  have cap_b': "cap b' = cap b" using cap' by (simp add: cap_def b'_def)
  have pos': "pos b' i = pos b (Suc i)" if "i < b_len b'" for i
    using that pos assms cap' unfolding b'_def
    by (auto simp: pos_def front_idx_def cap_def q_inv_def)
  have slots: "slot (b_queue b') (pos b' i) = Some (tl (items b) ! i)" if "i < b_len b'" for i
  proof -
    have i: "Suc i < b_len b" using that by (simp add: b'_def)
    have "slot (b_queue b') (pos b' i) = slot (b_queue b) (pos b (Suc i))"
      using pos' [OF that] pos_inj [OF assms i pos] slot' by (simp add: b'_def)
    then show ?thesis using slot_item [OF assms i] i by (simp add: nth_tl)
  qed
  have "items b' = tl (items b)" by (rule items_eqI) (use slots in \<open>auto simp: b'_def\<close>)
  moreover have "q_inv b'"
    using assms slots cap_b' pos by (auto simp: q_inv_def b'_def)
  moreover have "pop_front Q b = Some (Some x, b')"
    using pos rd by (simp add: pop_front_def is_empty_def pop_front_unchecked_def
        front_idx_pos [OF assms pos] b'_def)
  ultimately show ?thesis using Cons cap_b' by auto
qed

lemma push_back_ok:
  assumes "q_inv b"
  shows "\<exists>b'. push_back Q x b = Some (if length (items b) = cap b then Inl x else Inr (), b') \<and> q_inv b' \<and>
           items b' = (if length (items b) = cap b then items b else items b @ [x]) \<and> cap b' = cap b"
proof (cases "b_len b = cap b")
  case True
  then show ?thesis using assms by (simp add: push_back_def is_full_items)
next
  case False
  with assms have lt: "b_len b < cap b" "b_next b < cap b" by (auto simp: q_inv_def)
  obtain q' where wr: "write_unchecked Q (b_queue b) (b_next b) x = Some q'"
    and cap': "q_capacity Q q' = q_capacity Q (b_queue b)"
    and slot': "slot q' = (slot (b_queue b))(b_next b \<mapsto> x)"
    using write_slot [of "b_next b" "b_queue b" x] lt by (auto simp: cap_def)
  define b' where "b' = incr_tail_len Q (b\<lparr>b_queue := q'\<rparr>)"
  have b': "b_len b' = Suc (b_len b)" "b_queue b' = q'" "cap b' = cap b"
    "b_next b' = (if Suc (b_next b) = cap b then 0 else Suc (b_next b))"
    using cap' by (simp_all add: b'_def incr_tail_len_def Let_def cap_def)
  have pos': "pos b' i = (if i < b_len b then pos b i else b_next b)" if "i < b_len b'" for i
    using that lt b' cap' unfolding pos_def front_idx_def cap_def by (auto split: if_splits)
  have slots: "slot (b_queue b') (pos b' i) = Some ((items b @ [x]) ! i)" if "i < b_len b'" for i
    using that pos' [OF that] slot' b' pos_next [OF assms lt(1), of i] slot_item [OF assms, of i]
    by (auto simp: nth_append)
  have "items b' = items b @ [x]" by (rule items_eqI) (use slots b' in auto)
  moreover have "q_inv b'" using slots b' lt by (auto simp: q_inv_def)
  moreover have "push_back Q x b = Some (Inr (), b')"
    using False wr by (simp add: push_back_def is_full_items push_back_unchecked_def b'_def)
  ultimately show ?thesis using False b' by auto
qed

lemma front_mut_ok:
  assumes "q_inv b"
  shows "\<exists>b'. front_mut Q f b = Some b' \<and> q_inv b' \<and> cap b' = cap b \<and>
           items b' = (case items b of [] \<Rightarrow> [] | x # xs \<Rightarrow> f x # xs)"
proof (cases "items b")
  case Nil
  then show ?thesis using assms by (simp add: front_mut_def is_empty_items)
next
  case (Cons x xs)
  then have pos: "0 < b_len b" using length_items [of b] by (metis length_greater_0_conv list.distinct(1))
  have get: "get_unchecked Q (b_queue b) (pos b 0) = Some x"
    using get_slot [of "pos b 0"] slot_item [OF assms pos] pos_less [OF assms pos] Cons
    by (simp add: cap_def)
  obtain q' where wr: "write_unchecked Q (b_queue b) (pos b 0) (f x) = Some q'"
    and cap': "q_capacity Q q' = q_capacity Q (b_queue b)"
    and slot': "slot q' = (slot (b_queue b))(pos b 0 \<mapsto> f x)"
    using write_slot [of "pos b 0" "b_queue b" "f x"] pos_less [OF assms pos] by (auto simp: cap_def)
  define b' where "b' = b\<lparr>b_queue := q'\<rparr>"
  have b': "b_len b' = b_len b" "b_queue b' = q'" "cap b' = cap b" "b_next b' = b_next b"
    using cap' by (simp_all add: b'_def cap_def)
  have pos': "pos b' i = pos b i" for i
    using b' cap' by (simp add: pos_def front_idx_def cap_def)
  have len: "b_len b = Suc (length xs)" using length_items [of b] Cons by simp
  have slots: "slot (b_queue b') (pos b' i) = Some ((f x # xs) ! i)" if "i < b_len b'" for i
    using that pos' slot' b' pos_inj [OF assms _ pos, of i] slot_item [OF assms, of i] Cons
    by (auto simp: nth_Cons')
  have "items b' = f x # xs" by (rule items_eqI) (use slots b' len in auto)
  moreover have "q_inv b'" using slots b' assms by (auto simp: q_inv_def)
  moreover have "front_mut Q f b = Some b'"
    using pos get wr by (simp add: front_mut_def is_empty_def front_mut_unchecked_def
        front_idx_pos [OF assms pos] b'_def)
  ultimately show ?thesis using Cons b' by auto
qed

lemma b_truncate_ok:
  assumes "q_inv b"
  shows "q_inv (b_truncate Q n b)" "items (b_truncate Q n b) = take n (items b)" "cap (b_truncate Q n b) = cap b"
proof -
  define b' where "b' = b_truncate Q n b"
  have b': "b_len b' = min n (b_len b)" "b_queue b' = b_queue b"
    by (auto simp: b'_def b_truncate_def Let_def)
  have cap': "cap b' = cap b" by (simp add: cap_def b')
  have next': "b_next b' < cap b \<or> cap b = 0 \<and> b_next b' = 0"
    using assms by (auto simp: b'_def b_truncate_def Let_def q_inv_def cap_def)
  have "front_idx Q b' = front_idx Q b" if "0 < n" "0 < b_len b"
    using that assms by (auto simp: b'_def b_truncate_def Let_def q_inv_def cap_def front_idx_def)
  then have pos': "pos b' i = pos b i" if "i < b_len b'" for i
    using that b' by (auto simp: pos_def cap')
  show "items (b_truncate Q n b) = take n (items b)"
    unfolding b'_def [symmetric]
    by (rule items_eqI) (use pos' b' slot_item [OF assms] in auto)
  show "q_inv (b_truncate Q n b)" "cap (b_truncate Q n b) = cap b"
    using pos' b' cap' next' assms unfolding b'_def [symmetric] by (auto simp: q_inv_def)
qed

lemma pop_all_ok:
  "q_inv b \<Longrightarrow> b_len b < k \<Longrightarrow>
     \<exists>b'. pop_all Q k b = Some (items b, b') \<and> q_inv b' \<and> items b' = [] \<and> cap b' = cap b"
proof (induction k arbitrary: b)
  case (Suc k)
  obtain b' where b': "pop_front Q b = Some (case items b of [] \<Rightarrow> None | x # _ \<Rightarrow> Some x, b')" "q_inv b'"
    "items b' = tl (items b)" "cap b' = cap b" using pop_front_ok [OF Suc.prems(1)] by blast
  show ?case
  proof (cases "items b")
    case Nil
    with b' show ?thesis by auto
  next
    case (Cons x xs)
    then have "b_len b' < k" using Suc.prems(2) length_items [of b] length_items [of b'] b'(3) by auto
    from Suc.IH [OF b'(2) this] Cons b' show ?thesis by auto
  qed
qed simp

lemma clear_ok:
  assumes "q_inv b"
  shows "\<exists>b'. clear Q b = Some (items b, b') \<and> q_inv b' \<and> items b' = [] \<and> cap b' = cap b"
proof -
  obtain b' where "pop_all Q (Suc (b_len b)) b = Some (items b, b')" "q_inv b'" "items b' = []" "cap b' = cap b"
    using pop_all_ok [OF assms] by blast
  then show ?thesis by (auto simp: clear_def q_inv_def cap_def items_def)
qed

lemma iter_collect_ok:
  assumes "q_inv b" and "n \<le> b_len b" and "n < k"
  shows "iter_collect Q k \<lparr>it_queue = b_queue b, it_tail = b_next b, it_len = n\<rparr>
           = Some (drop (b_len b - n) (items b))"
  using assms(2,3)
proof (induction k arbitrary: n)
  case (Suc k)
  show ?case
  proof (cases n)
    case (Suc m)
    define idx where "idx = (if b_next b \<ge> n then b_next b - n else q_capacity Q (b_queue b) + b_next b - n)"
    have lt: "b_len b - n < b_len b" using Suc Suc.prems by simp
    have idx: "idx = pos b (b_len b - n)"
      using assms(1) Suc.prems Suc by (auto simp: idx_def pos_def front_idx_def q_inv_def cap_def)
    have get: "get_unchecked Q (b_queue b) idx = Some (items b ! (b_len b - n))"
      using get_slot [of idx "b_queue b"] slot_item [OF assms(1) lt] pos_less [OF assms(1) lt] idx
      by (simp add: cap_def)
    have "iter_next Q \<lparr>it_queue = b_queue b, it_tail = b_next b, it_len = n\<rparr> =
      Some (Some (items b ! (b_len b - n)), \<lparr>it_queue = b_queue b, it_tail = b_next b, it_len = m\<rparr>)"
      using get Suc by (auto simp: iter_next_def idx_def split: if_splits)
    moreover have "drop (b_len b - n) (items b) = items b ! (b_len b - n) # drop (b_len b - m) (items b)"
      using Suc Suc.prems lt Cons_nth_drop_Suc [of "b_len b - n" "items b"] by (simp add: Suc_diff_Suc)
    ultimately show ?thesis
      using Suc.IH [of m] Suc.prems Suc by simp
  qed (simp add: iter_next_def)
qed simp

lemma iter_ok:
  assumes "q_inv b"
  shows "iter_collect Q (Suc (b_len b)) (iter b) = Some (items b)"
  using iter_collect_ok [OF assms, of "b_len b" "Suc (b_len b)"] by (simp add: iter_def)

lemma queue_op_ok:
  assumes "q_inv b"
  shows "\<exists>b'. queue_op Q op b = Some (fst (fifo_op (cap b) op (items b)), b') \<and> q_inv b' \<and>
           items b' = snd (fifo_op (cap b) op (items b)) \<and> cap b' = cap b"
proof (cases op)
  case (PushBack x)
  then show ?thesis using push_back_ok [OF assms, of x] by (auto simp: queue_op_def fifo_op_def)
next
  case PopFront
  then show ?thesis using pop_front_ok [OF assms]
    by (auto simp: queue_op_def fifo_op_def split: list.splits)
next
  case (FrontMut f)
  then show ?thesis using front_mut_ok [OF assms, of f] by (auto simp: queue_op_def fifo_op_def)
next
  case Clear
  then show ?thesis using clear_ok [OF assms] by (auto simp: queue_op_def fifo_op_def)
qed (use assms in \<open>auto simp: queue_op_def fifo_op_def front_ok b_truncate_ok iter_ok is_full_items
        is_empty_items simp del: iter_collect.simps\<close>)

lemma queue_ops_ok: "q_inv b \<Longrightarrow> queue_ops Q ops b = Some (fifo_ops (cap b) ops (items b))"
proof (induction ops arbitrary: b)
  case (Cons op ops)
  obtain b' where "queue_op Q op b = Some (fst (fifo_op (cap b) op (items b)), b')" "q_inv b'"
    "items b' = snd (fifo_op (cap b) op (items b))" "cap b' = cap b"
    using queue_op_ok [OF Cons.prems] by blast
  then show ?case using Cons.IH [of b'] by (simp add: case_prod_beta)
qed simp

lemma new_ok:
  assumes "q_capacity Q q = n"
  shows "q_inv \<lparr>b_queue = q, b_next = 0, b_len = 0\<rparr>" "items \<lparr>b_queue = q, b_next = 0, b_len = 0\<rparr> = []"
    "cap \<lparr>b_queue = q, b_next = 0, b_len = 0\<rparr> = n"
  using assms by (auto simp: q_inv_def cap_def items_def)

end

interpretation stack_queue: queueable stack_storage "\<lambda>q i. if i < length q then q ! i else None"
  by unfold_locales (auto simp: stack_storage_def nth_list_update fun_eq_iff)

interpretation heap_queue: queueable heap_storage "\<lambda>q i. ha_mem q i"
  by unfold_locales (auto simp: heap_storage_def)

lemma heap_queue_ops:
  fixes ops :: "'a queue_call list"
  shows "queue_ops heap_storage ops (heap_new n) = Some (fifo_ops n ops [])"
proof -
  have "q_capacity heap_storage (\<lparr>ha_mem = Map.empty, ha_cap = n\<rparr> :: 'a heap_alloc) = n"
    by (simp add: heap_storage_def)
  from heap_queue.new_ok [OF this] show ?thesis by (simp add: heap_new_def heap_queue.queue_ops_ok)
qed

lemma stack_queue_ops:
  fixes ops :: "'a queue_call list"
  shows "queue_ops stack_storage ops (stack_new n) = Some (fifo_ops n ops [])"
proof -
  have "q_capacity stack_storage (replicate n None :: 'a option list) = n"
    by (simp add: stack_storage_def)
  from stack_queue.new_ok [OF this] show ?thesis by (simp add: stack_new_def stack_queue.queue_ops_ok)
qed

section \<open>Properties\<close>

text \<open>
  C4: The ring buffer on the heap and the one on the stack are both a first-in first-out queue of at most their
  capacity: for every sequence of calls the answers are those of a list, and no access to uninitialised or
  foreign memory happens on the way.
\<close>

theorem ring_buffer_refines_fifo:
  "queue_ops heap_storage ops (heap_new n) = Some (fifo_ops n ops []) \<and>
   queue_ops stack_storage ops (stack_new n) = Some (fifo_ops n ops [])"
  by (simp add: heap_queue_ops stack_queue_ops)

end
