(* ===== verification/Buf_List.thy ===== *)
theory Buf_List
  imports Bound_Queue
begin

text \<open>
  \<open>BufList\<close> of \<open>unsafe_collection/src/bytes/buf_list.rs\<close> with the vectored reads of
  \<open>uninit.rs\<close>: a bounded queue of buffers that is itself a buffer. The trait \<open>Buf\<close> (of the
  crate \<open>bytes\<close>) with \<open>ChunkVectoredUninit\<close> is a record of operations, and its documented
  behaviour the locale \<open>buf_ops\<close>. \<open>None\<close> is a panic (a failed assertion, a push on a full
  list) or an unchecked access that would be undefined.
\<close>

section \<open>Buffers\<close>

text \<open>\<open>buf_slices k\<close>: the slices \<open>chunks_vectored_uninit\<close> writes to a destination of \<open>k\<close> slots.\<close>

record 'b Buf =
  buf_remaining :: "'b \<Rightarrow> nat"
  buf_advance :: "nat \<Rightarrow> 'b \<Rightarrow> 'b"
  buf_slices :: "nat \<Rightarrow> 'b \<Rightarrow> bytes list"

definition bytes_slices :: "nat \<Rightarrow> bytes \<Rightarrow> bytes list" where
  "bytes_slices k b = (if k = 0 then [] else if b \<noteq> [] then [b] else [])"

definition bytes_buf :: "bytes Buf" where
  "bytes_buf = \<lparr>buf_remaining = length, buf_advance = drop, buf_slices = bytes_slices\<rparr>"

definition either_buf :: "'l Buf \<Rightarrow> 'r Buf \<Rightarrow> ('l + 'r) Buf" where
  "either_buf L R = \<lparr>
     buf_remaining = (\<lambda>b. case b of Inl b \<Rightarrow> buf_remaining L b | Inr b \<Rightarrow> buf_remaining R b),
     buf_advance = (\<lambda>n b. case b of Inl b \<Rightarrow> Inl (buf_advance L n b) | Inr b \<Rightarrow> Inr (buf_advance R n b)),
     buf_slices = (\<lambda>k b. case b of Inl b \<Rightarrow> buf_slices L k b | Inr b \<Rightarrow> buf_slices R k b)\<rparr>"

text \<open>
  \<open>Chain\<close> is a type of the crate \<open>bytes\<close>: its \<open>remaining\<close>, \<open>advance\<close> and its two parts are
  the parameter; the vectored read of a chain is the library's.
\<close>

record ('c, 't, 'u) Chain =
  ch_remaining :: "'c \<Rightarrow> nat"
  ch_advance :: "nat \<Rightarrow> 'c \<Rightarrow> 'c"
  first_ref :: "'c \<Rightarrow> 't"
  last_ref :: "'c \<Rightarrow> 'u"
  ch_new :: "'t \<Rightarrow> 'u \<Rightarrow> 'c"

definition chain_slices :: "('c, 't, 'u) Chain \<Rightarrow> 't Buf \<Rightarrow> 'u Buf \<Rightarrow> nat \<Rightarrow> 'c \<Rightarrow> bytes list" where
  "chain_slices C T U k c =
     (let s = buf_slices T k (first_ref C c)
      in s @ buf_slices U (k - length s) (last_ref C c))"

definition chain_buf :: "('c, 't, 'u) Chain \<Rightarrow> 't Buf \<Rightarrow> 'u Buf \<Rightarrow> 'c Buf" where
  "chain_buf C T U = \<lparr>buf_remaining = ch_remaining C, buf_advance = ch_advance C,
     buf_slices = chain_slices C T U\<rparr>"

section \<open>The list\<close>

record 'b BufList =
  bufs :: "'b heap_alloc Bounded"
  bl_remaining :: nat

definition bl_new :: "nat \<Rightarrow> 'b BufList" where
  "bl_new n = \<lparr>bufs = heap_new n, bl_remaining = 0\<rparr>"

text \<open>\<open>push\<close> in a release build: its \<open>debug_assert\<close> that the buffer has bytes left is not part of it.\<close>

definition bl_push :: "'b Buf \<Rightarrow> 'b \<Rightarrow> 'b BufList \<Rightarrow> 'b BufList option" where
  "bl_push B b l =
     (let l = l\<lparr>bl_remaining := bl_remaining l + buf_remaining B b\<rparr>
      in case push_back heap_storage b (bufs l) of
           Some (Inr _, q) \<Rightarrow> Some (l\<lparr>bufs := q\<rparr>)
         | _ \<Rightarrow> None)"

definition bl_is_full :: "'b BufList \<Rightarrow> bool" where
  "bl_is_full l = is_full heap_storage (bufs l)"

definition bl_is_empty :: "'b BufList \<Rightarrow> bool" where
  "bl_is_empty l = is_empty (bufs l)"

text \<open>The loop of \<open>chunks_vectored_uninit\<close> over the buffers in queue order.\<close>

fun slices_loop :: "'b Buf \<Rightarrow> nat \<Rightarrow> 'b list \<Rightarrow> bytes list" where
  "slices_loop B k [] = []"
| "slices_loop B k (b # bs) =
     (let s = buf_slices B k b
      in if length s = k then s else s @ slices_loop B (k - length s) bs)"

definition bl_slices :: "'b Buf \<Rightarrow> nat \<Rightarrow> 'b BufList \<Rightarrow> bytes list option" where
  "bl_slices B k l =
     (if k = 0 then None
      else map_option (slices_loop B k)
             (iter_collect heap_storage (Suc (b_len (bufs l))) (iter (bufs l))))"

text \<open>The loop of \<open>advance\<close>; every round but the last pops a buffer, so the length is enough fuel.\<close>

fun advance_loop :: "'b Buf \<Rightarrow> nat \<Rightarrow> nat \<Rightarrow> 'b heap_alloc Bounded \<Rightarrow> 'b heap_alloc Bounded option" where
  "advance_loop B 0 cnt q = (if cnt = 0 then Some q else None)"
| "advance_loop B (Suc k) cnt q =
     (if cnt = 0 then Some q
      else (case front heap_storage q of
          Some (Some b) \<Rightarrow>
            let rem = buf_remaining B b
            in if rem > cnt then front_mut heap_storage (buf_advance B cnt) q
               else (case front_mut heap_storage (buf_advance B rem) q of
                   None \<Rightarrow> None
                 | Some q \<Rightarrow>
                     (case pop_front heap_storage q of
                        Some (Some _, q) \<Rightarrow> advance_loop B k (cnt - rem) q
                      | _ \<Rightarrow> None))
        | _ \<Rightarrow> None))"

definition bl_advance :: "'b Buf \<Rightarrow> nat \<Rightarrow> 'b BufList \<Rightarrow> 'b BufList option" where
  "bl_advance B cnt l =
     (if bl_remaining l \<ge> cnt then
        let l = l\<lparr>bl_remaining := bl_remaining l - cnt\<rparr>
        in map_option (\<lambda>q. l\<lparr>bufs := q\<rparr>) (advance_loop B (b_len (bufs l)) cnt (bufs l))
      else None)"

section \<open>The contract of a buffer\<close>

locale buf_ops =
  fixes B :: "'b Buf" and content :: "'b \<Rightarrow> bytes"
  assumes remaining: "buf_remaining B b = length (content b)"
    and advance: "n \<le> length (content b) \<Longrightarrow> content (buf_advance B n b) = drop n (content b)"
    and slices: "\<exists>rest. content b = concat (buf_slices B k b) @ rest \<and>
      (length (buf_slices B k b) < k \<longrightarrow> rest = [])"
    and slices_len: "length (buf_slices B k b) \<le> k"
    and slices_nonempty: "[] \<notin> set (buf_slices B k b)"
begin

abbreviation q_items :: "'b BufList \<Rightarrow> 'b list" where
  "q_items l \<equiv> heap_queue.items (bufs l)"

definition bl_bytes :: "'b BufList \<Rightarrow> bytes" where
  "bl_bytes l = concat (map content (q_items l))"

definition bl_ok :: "nat \<Rightarrow> 'b BufList \<Rightarrow> bool" where
  "bl_ok n l \<longleftrightarrow> heap_queue.q_inv (bufs l) \<and> heap_queue.cap (bufs l) = n \<and>
     bl_remaining l = length (bl_bytes l)"

lemma bl_new_ok: "bl_ok n (bl_new n)" "bl_bytes (bl_new n) = []" "q_items (bl_new n) = []"
proof -
  have "q_capacity heap_storage (\<lparr>ha_mem = Map.empty, ha_cap = n\<rparr> :: 'b heap_alloc) = n"
    by (simp add: heap_storage_def)
  from heap_queue.new_ok [OF this]
  show "bl_ok n (bl_new n)" "bl_bytes (bl_new n) = []" "q_items (bl_new n) = []"
    by (simp_all add: bl_ok_def bl_new_def bl_bytes_def heap_new_def)
qed

lemma bl_push_ok:
  assumes "bl_ok n l" and "length (q_items l) < n"
  shows "\<exists>l'. bl_push B b l = Some l' \<and> bl_ok n l' \<and> q_items l' = q_items l @ [b] \<and>
           bl_bytes l' = bl_bytes l @ content b"
proof -
  obtain q where q: "push_back heap_storage b (bufs l) = Some (Inr (), q)" "heap_queue.q_inv q"
    "heap_queue.items q = q_items l @ [b]" "heap_queue.cap q = n"
    using heap_queue.push_back_ok [of "bufs l" b] assms by (auto simp: bl_ok_def split: if_splits)
  then show ?thesis using assms(1)
    by (auto simp: bl_push_def Let_def bl_ok_def bl_bytes_def remaining)
qed

lemma bl_push_full:
  assumes "bl_ok n l" and "length (q_items l) = n"
  shows "bl_push B b l = None"
  using heap_queue.push_back_ok [of "bufs l" b] assms
  by (auto simp: bl_push_def Let_def bl_ok_def split: option.splits)

lemma bl_is_full_iff: "bl_ok n l \<Longrightarrow> bl_is_full l \<longleftrightarrow> length (q_items l) = n"
  using heap_queue.is_full_items [of "bufs l"] by (simp add: bl_is_full_def bl_ok_def)

lemma bl_is_empty_iff: "bl_is_empty l \<longleftrightarrow> q_items l = []"
  by (simp add: bl_is_empty_def heap_queue.is_empty_items)

lemma slices_loop_ok:
  "\<exists>rest. concat (map content bs) = concat (slices_loop B k bs) @ rest \<and>
     (length (slices_loop B k bs) < k \<longrightarrow> rest = []) \<and> length (slices_loop B k bs) \<le> k \<and>
     [] \<notin> set (slices_loop B k bs)"
proof (induction bs arbitrary: k)
  case (Cons b bs)
  define s where "s = buf_slices B k b"
  obtain r where r: "content b = concat s @ r" "length s < k \<longrightarrow> r = []"
    using slices [of b k] by (auto simp: s_def)
  have s: "length s \<le> k" "[] \<notin> set s" using slices_len [of k b] slices_nonempty [of k b] by (simp_all add: s_def)
  show ?case
  proof (cases "length s = k")
    case True
    then show ?thesis using r s by (simp add: s_def [symmetric])
  next
    case False
    with Cons.IH [of "k - length s"] r s show ?thesis by (auto simp: s_def [symmetric])
  qed
qed simp

lemma bl_slices_ok:
  assumes "bl_ok n l" and "0 < k"
  shows "\<exists>ss rest. bl_slices B k l = Some ss \<and> bl_bytes l = concat ss @ rest \<and>
           (length ss < k \<longrightarrow> rest = []) \<and> [] \<notin> set ss \<and> length ss \<le> k"
proof -
  have "iter_collect heap_storage (Suc (b_len (bufs l))) (iter (bufs l)) = Some (q_items l)"
    using assms(1) by (intro heap_queue.iter_ok) (simp add: bl_ok_def)
  then show ?thesis using slices_loop_ok [of "q_items l" k] assms(2)
    by (auto simp: bl_slices_def bl_bytes_def)
qed

text \<open>Advancing drops exactly the given number of bytes and every buffer it uses up.\<close>

fun skip :: "nat \<Rightarrow> 'b list \<Rightarrow> 'b list" where
  "skip cnt [] = []"
| "skip cnt (b # bs) =
     (if cnt = 0 then b # bs
      else if length (content b) > cnt then buf_advance B cnt b # bs
      else skip (cnt - length (content b)) bs)"

lemma skip_bytes:
  "cnt \<le> length (concat (map content bs)) \<Longrightarrow> concat (map content (skip cnt bs)) = drop cnt (concat (map content bs))"
  by (induction bs arbitrary: cnt) (simp_all add: advance)

lemma skip_suffix: "length (skip cnt bs) \<le> length bs"
  by (induction bs arbitrary: cnt) (auto intro: le_SucI)

lemma skip_nonempty:
  "cnt \<le> length (concat (map content bs)) \<Longrightarrow> \<forall>b\<in>set bs. content b \<noteq> [] \<Longrightarrow> \<forall>b\<in>set (skip cnt bs). content b \<noteq> []"
proof (induction bs arbitrary: cnt)
  case (Cons a bs)
  have "cnt - length (content a) \<le> length (concat (map content bs))" using Cons.prems(1) by simp
  from Cons.IH [OF this] Cons.prems show ?case by (auto simp: advance)
qed simp

lemma skip_all:
  "\<forall>b\<in>set bs. content b \<noteq> [] \<Longrightarrow> skip (length (concat (map content bs))) bs = []"
  by (induction bs) (auto simp: advance)

lemma advance_loop_ok:
  assumes "heap_queue.q_inv q" and "cnt \<le> length (concat (map content (heap_queue.items q)))"
    and "b_len q \<le> k"
  shows "\<exists>q'. advance_loop B k cnt q = Some q' \<and> heap_queue.q_inv q' \<and>
           heap_queue.cap q' = heap_queue.cap q \<and> heap_queue.items q' = skip cnt (heap_queue.items q)"
  using assms
proof (induction k arbitrary: q cnt)
  case 0
  then have "heap_queue.items q = []" using heap_queue.is_empty_items [of q] by (simp add: is_empty_def)
  then show ?case using 0 by simp
next
  case (Suc k)
  show ?case
  proof (cases "cnt = 0 \<or> heap_queue.items q = []")
    case True
    then show ?thesis using Suc.prems by (cases "heap_queue.items q") auto
  next
    case False
    then obtain b bs where it: "heap_queue.items q = b # bs" by (cases "heap_queue.items q") auto
    have fr: "front heap_storage q = Some (Some b)"
      using heap_queue.front_ok [OF Suc.prems(1)] it by simp
    show ?thesis
    proof (cases "length (content b) > cnt")
      case True
      then show ?thesis using heap_queue.front_mut_ok [OF Suc.prems(1), of "buf_advance B cnt"] fr it False
        by (auto simp: remaining)
    next
      case less: False
      obtain q1 where q1: "front_mut heap_storage (buf_advance B (length (content b))) q = Some q1"
        "heap_queue.q_inv q1" "heap_queue.cap q1 = heap_queue.cap q"
        "heap_queue.items q1 = buf_advance B (length (content b)) b # bs"
        using heap_queue.front_mut_ok [OF Suc.prems(1)] it by fastforce
      obtain q2 x where q2: "pop_front heap_storage q1 = Some (Some x, q2)" "heap_queue.q_inv q2"
        "heap_queue.cap q2 = heap_queue.cap q" "heap_queue.items q2 = bs"
        using heap_queue.pop_front_ok [OF q1(2)] q1 by fastforce
      have "b_len q2 \<le> k"
        using Suc.prems(3) heap_queue.length_items [of q] heap_queue.length_items [of q2]
        unfolding it q2(4) by simp
      with Suc.IH [OF q2(2), of "cnt - length (content b)"] Suc.prems(2) it less q1 q2 fr False
      show ?thesis by (auto simp: remaining)
    qed
  qed
qed

lemma bl_advance_ok:
  assumes "bl_ok n l" and "cnt \<le> length (bl_bytes l)"
  shows "\<exists>l'. bl_advance B cnt l = Some l' \<and> bl_ok n l' \<and> bl_bytes l' = drop cnt (bl_bytes l) \<and>
           q_items l' = skip cnt (q_items l)"
  using advance_loop_ok [of "bufs l" cnt "b_len (bufs l)"] assms skip_bytes [of cnt "q_items l"]
  by (auto simp: bl_ok_def bl_advance_def bl_bytes_def)

end

interpretation bytes_buf: buf_ops bytes_buf "\<lambda>b. b"
  by unfold_locales (auto simp: bytes_buf_def bytes_slices_def)

text \<open>A sum of two buffers is a buffer, and so is a chain of two.\<close>

lemma buf_ops_either:
  assumes "buf_ops L cl" and "buf_ops R cr"
  shows "buf_ops (either_buf L R) (case_sum cl cr)"
proof -
  note l = buf_ops.remaining [OF assms(1)] buf_ops.advance [OF assms(1)] buf_ops.slices [OF assms(1)]
    buf_ops.slices_len [OF assms(1)] buf_ops.slices_nonempty [OF assms(1)]
  note r = buf_ops.remaining [OF assms(2)] buf_ops.advance [OF assms(2)] buf_ops.slices [OF assms(2)]
    buf_ops.slices_len [OF assms(2)] buf_ops.slices_nonempty [OF assms(2)]
  show ?thesis by unfold_locales (auto simp: either_buf_def l r split: sum.splits)
qed

definition chain_ok ::
  "('c, 't, 'u) Chain \<Rightarrow> ('t \<Rightarrow> bytes) \<Rightarrow> ('u \<Rightarrow> bytes) \<Rightarrow> bool" where
  "chain_ok C ct cu \<longleftrightarrow>
     (\<forall>c. ch_remaining C c = length (ct (first_ref C c) @ cu (last_ref C c))) \<and>
     (\<forall>c n. n \<le> ch_remaining C c \<longrightarrow>
        ct (first_ref C (ch_advance C n c)) @ cu (last_ref C (ch_advance C n c)) =
        drop n (ct (first_ref C c) @ cu (last_ref C c))) \<and>
     (\<forall>t u. first_ref C (ch_new C t u) = t \<and> last_ref C (ch_new C t u) = u)"

lemma buf_ops_chain:
  assumes "buf_ops T ct" and "buf_ops U cu" and C: "chain_ok C ct cu"
  shows "buf_ops (chain_buf C T U) (\<lambda>c. ct (first_ref C c) @ cu (last_ref C c))"
proof
  fix b n k
  show "buf_remaining (chain_buf C T U) b = length (ct (first_ref C b) @ cu (last_ref C b))"
    using C by (simp add: chain_buf_def chain_ok_def)
  show "ct (first_ref C (buf_advance (chain_buf C T U) n b)) @ cu (last_ref C (buf_advance (chain_buf C T U) n b))
    = drop n (ct (first_ref C b) @ cu (last_ref C b))"
    if "n \<le> length (ct (first_ref C b) @ cu (last_ref C b))"
    using C that unfolding chain_buf_def chain_ok_def by simp
  define s where "s = buf_slices T k (first_ref C b)"
  obtain r1 where r1: "ct (first_ref C b) = concat s @ r1" "length s < k \<longrightarrow> r1 = []"
    using buf_ops.slices [OF assms(1)] s_def by metis
  have s: "length s \<le> k" "[] \<notin> set s"
    using buf_ops.slices_len [OF assms(1)] buf_ops.slices_nonempty [OF assms(1)] by (simp_all add: s_def)
  define s' where "s' = buf_slices U (k - length s) (last_ref C b)"
  obtain r2 where r2: "cu (last_ref C b) = concat s' @ r2" "length s' < k - length s \<longrightarrow> r2 = []"
    using buf_ops.slices [OF assms(2)] s'_def by metis
  have s': "length s' \<le> k - length s" "[] \<notin> set s'"
    using buf_ops.slices_len [OF assms(2)] buf_ops.slices_nonempty [OF assms(2)] by (simp_all add: s'_def)
  have sl: "buf_slices (chain_buf C T U) k b = s @ s'"
    by (simp add: chain_buf_def chain_slices_def s_def s'_def Let_def)
  have "length s = k \<Longrightarrow> s' = []" using s'(1) by simp
  with r1 r2 s s' show "\<exists>rest. ct (first_ref C b) @ cu (last_ref C b) =
      concat (buf_slices (chain_buf C T U) k b) @ rest \<and>
      (length (buf_slices (chain_buf C T U) k b) < k \<longrightarrow> rest = [])"
    unfolding sl by (cases "length s = k") auto
  show "length (buf_slices (chain_buf C T U) k b) \<le> k" "[] \<notin> set (buf_slices (chain_buf C T U) k b)"
    using s s' unfolding sl by auto
qed

end
