(* ===== verification/Io_Buf.thy ===== *)
theory Io_Buf
  imports Buf_List
begin

text \<open>
  Buffers between the protocol code and the socket: the traits of \<open>io/src/bytes.rs\<close> with their
  implementations, and the buffers of \<open>http/src/util/buffered\<close>. The socket is given by what its
  calls answer: \<open>sock_script\<close> is the list of answers still to come, and a socket that has
  no answer left would block. \<open>sock_sent\<close> is everything the peer was sent.
\<close>

section \<open>The socket\<close>

datatype ErrorKind = WouldBlock | UnexpectedEof | WriteZero | OtherKind nat

datatype sock_answer = W_Ok nat | W_Err ErrorKind

record sock =
  sock_script :: "sock_answer list"
  sock_sent :: bytes

text \<open>\<open>io::Write::write\<close> takes a prefix of what it is given, \<open>write_vectored\<close> of the slices in order.\<close>

definition sock_write :: "bytes \<Rightarrow> sock \<Rightarrow> (ErrorKind + nat) \<times> sock" where
  "sock_write data s =
     (case sock_script s of
        [] \<Rightarrow> (Inl WouldBlock, s)
      | W_Err e # r \<Rightarrow> (Inl e, s\<lparr>sock_script := r\<rparr>)
      | W_Ok n # r \<Rightarrow>
          let n = min n (length data)
          in (Inr n, s\<lparr>sock_script := r, sock_sent := sock_sent s @ take n data\<rparr>))"

definition sock_flush :: "sock \<Rightarrow> (ErrorKind + unit) \<times> sock" where
  "sock_flush s =
     (case sock_script s of
        [] \<Rightarrow> (Inl WouldBlock, s)
      | W_Err e # r \<Rightarrow> (Inl e, s\<lparr>sock_script := r\<rparr>)
      | W_Ok n # r \<Rightarrow> (Inr (), s\<lparr>sock_script := r\<rparr>))"

lemma sock_write_Inr:
  "sock_write data s = (Inr n, s') \<Longrightarrow>
     n \<le> length data \<and> sock_sent s' = sock_sent s @ take n data \<and>
     length (sock_script s') < length (sock_script s)"
  by (auto simp: sock_write_def Let_def split: list.splits sock_answer.splits)

lemma sock_write_Inl: "sock_write data s = (Inl e, s') \<Longrightarrow> sock_sent s' = sock_sent s"
  by (auto simp: sock_write_def Let_def split: list.splits sock_answer.splits)

lemma sock_flush_sent: "sock_flush s = (r, s') \<Longrightarrow> sock_sent s' = sock_sent s"
  by (auto simp: sock_flush_def split: list.splits sock_answer.splits)

section \<open>Flat write buffer\<close>

text \<open>
  \<open>BufWrite::write_buf\<close> runs a closure on the buffer; the closure is a function of the
  buffer's content to its result and the new content.
\<close>

definition bm_write_buf ::
  "(bytes \<Rightarrow> ('e fault + 't) \<times> bytes) \<Rightarrow> bytes \<Rightarrow> ('e fault + 't) \<times> bytes" where
  "bm_write_buf func buf =
     (case func buf of
        (Inl (Err e), b) \<Rightarrow> (Inl (Err e), take (length buf) b)
      | r \<Rightarrow> r)"

record WriteBuf =
  wb_buf :: bytes
  wb_want_flush :: bool

definition wb_new :: WriteBuf where
  "wb_new = \<lparr>wb_buf = [], wb_want_flush = False\<rparr>"

definition wb_clear :: "WriteBuf \<Rightarrow> WriteBuf" where
  "wb_clear w = w\<lparr>wb_buf := [], wb_want_flush := False\<rparr>"

text \<open>\<open>want_write_buf\<close> is the one of the limited buffer of \<open>http/src/util/buffered/buffer.rs\<close>.\<close>

definition wb_want_write_buf :: "nat \<Rightarrow> WriteBuf \<Rightarrow> bool" where
  "wb_want_write_buf limit w \<longleftrightarrow> length (wb_buf w) < limit"

definition wb_want_write_io :: "WriteBuf \<Rightarrow> bool" where
  "wb_want_write_io w \<longleftrightarrow> wb_buf w \<noteq> [] \<or> wb_want_flush w"

definition wb_write_buf ::
  "(bytes \<Rightarrow> ('e fault + 't) \<times> bytes) \<Rightarrow> WriteBuf \<Rightarrow> ('e fault + 't) \<times> WriteBuf" where
  "wb_write_buf func w =
     (case bm_write_buf func (wb_buf w) of
        (Inr t, b) \<Rightarrow> (Inr t, w\<lparr>wb_buf := b, wb_want_flush := False\<rparr>)
      | (Inl e, b) \<Rightarrow> (Inl e, w\<lparr>wb_buf := b\<rparr>))"

function wb_do_io :: "WriteBuf \<Rightarrow> sock \<Rightarrow> (ErrorKind + unit) \<times> WriteBuf \<times> sock" where
  "wb_do_io w s =
     (if wb_want_flush w then
        (case sock_flush s of
           (Inr _, s) \<Rightarrow> (Inr (), w\<lparr>wb_want_flush := False\<rparr>, s)
         | (Inl WouldBlock, s) \<Rightarrow> (Inr (), w, s)
         | (Inl e, s) \<Rightarrow> (Inl e, w, s))
      else
        (case sock_write (wb_buf w) s of
           (Inr n, s) \<Rightarrow>
             if n = 0 then (Inl WriteZero, w, s)
             else
               let b = drop n (wb_buf w)
               in wb_do_io (w\<lparr>wb_buf := b, wb_want_flush := (b = [])\<rparr>) s
         | (Inl WouldBlock, s) \<Rightarrow> (Inr (), w, s)
         | (Inl e, s) \<Rightarrow> (Inl e, w, s)))"
  by pat_completeness auto
termination
  by (relation "measure (\<lambda>(w, s). length (sock_script s))") (auto dest: sock_write_Inr [OF sym])

declare wb_do_io.simps [simp del]

section \<open>Vectored write buffer\<close>

definition BUF_LIST_CNT :: nat where
  "BUF_LIST_CNT = 32"

record 'b ListWriteBuf =
  lw_buf :: bytes
  lw_list :: "'b BufList"
  lw_want_flush :: bool

definition lw_new :: "'b ListWriteBuf" where
  "lw_new = \<lparr>lw_buf = [], lw_list = bl_new BUF_LIST_CNT, lw_want_flush = False\<rparr>"

definition split_buf :: "'b ListWriteBuf \<Rightarrow> bytes \<times> 'b ListWriteBuf" where
  "split_buf w = (lw_buf w, w\<lparr>lw_buf := []\<rparr>)"

definition buffer :: "'b Buf \<Rightarrow> 'b \<Rightarrow> 'b ListWriteBuf \<Rightarrow> 'b ListWriteBuf option" where
  "buffer B b w =
     (case bl_push B b (lw_list w) of
        None \<Rightarrow> None
      | Some l \<Rightarrow> Some (w\<lparr>lw_list := l, lw_want_flush := False\<rparr>))"

definition lw_want_write_buf :: "nat \<Rightarrow> 'b ListWriteBuf \<Rightarrow> bool" where
  "lw_want_write_buf limit w \<longleftrightarrow> bl_remaining (lw_list w) < limit \<and> \<not> bl_is_full (lw_list w)"

definition lw_want_write_io :: "'b ListWriteBuf \<Rightarrow> bool" where
  "lw_want_write_io w \<longleftrightarrow> bl_remaining (lw_list w) \<noteq> 0 \<or> lw_want_flush w"

definition lw_write_buf ::
  "(bytes \<Rightarrow> ('e fault + 't) \<times> bytes) \<Rightarrow> 'b ListWriteBuf \<Rightarrow> ('e fault + 't) \<times> 'b ListWriteBuf" where
  "lw_write_buf func w =
     (case func (lw_buf w) of
        (Inl (Err e), b) \<Rightarrow> (Inl (Err e), w\<lparr>lw_buf := []\<rparr>)
      | (r, b) \<Rightarrow> (r, w\<lparr>lw_buf := b\<rparr>))"

definition write_zero :: "bool \<Rightarrow> ErrorKind fault + unit" where
  "write_zero want_write = (if want_write then Inl (Err WriteZero) else Inl Panic)"

function lw_do_io ::
  "'b Buf \<Rightarrow> 'b ListWriteBuf \<Rightarrow> sock \<Rightarrow> (ErrorKind fault + unit) \<times> 'b ListWriteBuf \<times> sock" where
  "lw_do_io B w s =
     (if lw_want_flush w then
        (case sock_flush s of
           (Inr _, s) \<Rightarrow> (Inr (), w\<lparr>lw_want_flush := False\<rparr>, s)
         | (Inl WouldBlock, s) \<Rightarrow> (Inr (), w, s)
         | (Inl e, s) \<Rightarrow> (Inl (Err e), w, s))
      else
        (case bl_slices B BUF_LIST_CNT (lw_list w) of
           None \<Rightarrow> (Inl Panic, w, s)
         | Some ss \<Rightarrow>
             (case sock_write (concat ss) s of
                (Inr n, s) \<Rightarrow>
                  if n = 0 then (write_zero (lw_want_write_io w), w, s)
                  else
                    (case bl_advance B n (lw_list w) of
                       None \<Rightarrow> (Inl Panic, w, s)
                     | Some l \<Rightarrow>
                         lw_do_io B (w\<lparr>lw_list := l, lw_want_flush := (if bl_is_empty l then True else lw_want_flush w)\<rparr>) s)
              | (Inl WouldBlock, s) \<Rightarrow> (Inr (), w, s)
              | (Inl e, s) \<Rightarrow> (Inl (Err e), w, s))))"
  by pat_completeness auto
termination
  by (relation "measure (\<lambda>(B, w, s). length (sock_script s))") (auto dest: sock_write_Inr [OF sym])

declare lw_do_io.simps [simp del]

section \<open>Reading\<close>

text \<open>A read answers with the bytes it put into the buffer (none at the end of the stream) or fails.\<close>

type_synonym read_script = "(ErrorKind + bytes) list"

text \<open>\<open>read_buf\<close>: one read, appended to the buffer; a script with no answer left would block.\<close>

fun read_buf :: "read_script \<Rightarrow> bytes \<Rightarrow> (ErrorKind + nat) \<times> bytes \<times> read_script" where
  "read_buf [] buf = (Inl WouldBlock, buf, [])"
| "read_buf (Inl e # io) buf = (Inl e, buf, io)"
| "read_buf (Inr data # io) buf = (Inr (length data), buf @ data, io)"

definition rb_want_write_buf :: "nat \<Rightarrow> bytes \<Rightarrow> bool" where
  "rb_want_write_buf limit buf \<longleftrightarrow> length buf < limit"

lemma read_buf_Inr:
  "read_buf io buf = (Inr n, buf', io') \<Longrightarrow>
     \<exists>data. io = Inr data # io' \<and> buf' = buf @ data \<and> n = length data"
  by (cases "(io, buf)" rule: read_buf.cases) auto

lemma read_buf_Inl: "read_buf io buf = (Inl e, buf', io') \<Longrightarrow> buf' = buf \<and> (io' = tl io)"
  by (cases "(io, buf)" rule: read_buf.cases) auto

text \<open>\<open>BufRead::do_io\<close> of \<open>ReadBuf<LIMIT>\<close>; \<open>read\<close> is what the loop has read so far.\<close>

function rb_do_io :: "nat \<Rightarrow> nat \<Rightarrow> read_script \<Rightarrow> bytes \<Rightarrow> (ErrorKind + unit) \<times> bytes \<times> read_script" where
  "rb_do_io limit read io buf =
     (case read_buf io buf of
        (Inr n, buf, io) \<Rightarrow>
          if n = 0 then (if read = 0 then Inl UnexpectedEof else Inr (), buf, io)
          else if \<not> rb_want_write_buf limit buf then (Inr (), buf, io)
          else rb_do_io limit (read + n) io buf
      | (Inl e, buf, io) \<Rightarrow>
          if read \<noteq> 0 \<or> e = WouldBlock then (Inr (), buf, io) else (Inl e, buf, io))"
  by pat_completeness auto
termination
  by (relation "measure (\<lambda>(limit, read, io, buf). length io)") (auto dest: read_buf_Inr [OF sym])

declare rb_do_io.simps [simp del]

text \<open>\<open>BufferedIo::try_read\<close>; \<open>Inr None\<close>: the socket would block and nothing was read.\<close>

function try_read :: "nat \<Rightarrow> nat \<Rightarrow> read_script \<Rightarrow> bytes \<Rightarrow> (ErrorKind + nat option) \<times> bytes \<times> read_script" where
  "try_read limit read io buf =
     (case read_buf io buf of
        (Inr n, buf, io) \<Rightarrow>
          if n = 0 then (Inr (Some read), buf, io)
          else if \<not> rb_want_write_buf limit buf then (Inr (Some (read + n)), buf, io)
          else try_read limit (read + n) io buf
      | (Inl e, buf, io) \<Rightarrow>
          if read \<noteq> 0 then (Inr (Some read), buf, io)
          else if e = WouldBlock then (Inr None, buf, io)
          else (Inl e, buf, io))"
  by pat_completeness auto
termination
  by (relation "measure (\<lambda>(limit, read, io, buf). length io)") (auto dest: read_buf_Inr [OF sym])

declare try_read.simps [simp del]

text \<open>\<open>buf_read\<close> of \<open>io/src/bytes.rs\<close>, for \<open>BytesMut\<close> and \<open>PagedBytesMut\<close>.\<close>

function buf_read_loop :: "nat \<Rightarrow> read_script \<Rightarrow> bytes \<Rightarrow> (ErrorKind + unit) \<times> bytes \<times> read_script" where
  "buf_read_loop len io buf =
     (case read_buf io buf of
        (Inr n, buf, io) \<Rightarrow>
          if n = 0 then (if length buf = len then Inl UnexpectedEof else Inr (), buf, io)
          else buf_read_loop len io buf
      | (Inl e, buf, io) \<Rightarrow>
          if e = WouldBlock then (Inr (), buf, io)
          else if length buf = len then (Inl e, buf, io)
          else (Inr (), buf, io))"
  by pat_completeness auto
termination
  by (relation "measure (\<lambda>(len, io, buf). length io)") (auto dest: read_buf_Inr [OF sym])

declare buf_read_loop.simps [simp del]

definition buf_read :: "read_script \<Rightarrow> bytes \<Rightarrow> (ErrorKind + unit) \<times> bytes \<times> read_script" where
  "buf_read io buf = buf_read_loop (length buf) io buf"

section \<open>Flushing\<close>

text \<open>
  \<open>BufferedIo::drain_write\<close>: as long as the buffer wants to write, wait for the socket to be
  writable and write. Each element of \<open>rounds\<close> is one wake-up: an error of \<open>ready\<close>, or the
  answers of the socket until the next one. \<open>None\<close>: still waiting.
\<close>

fun drain_write ::
  "('w \<Rightarrow> bool) \<Rightarrow> ('w \<Rightarrow> sock \<Rightarrow> (ErrorKind fault + unit) \<times> 'w \<times> sock) \<Rightarrow>
     (ErrorKind + sock_answer list) list \<Rightarrow> 'w \<Rightarrow> bytes \<Rightarrow> ((ErrorKind fault + unit) \<times> 'w \<times> bytes) option" where
  "drain_write want io [] w sent = (if want w then None else Some (Inr (), w, sent))"
| "drain_write want io (r # rounds) w sent =
     (if \<not> want w then Some (Inr (), w, sent)
      else (case r of
          Inl e \<Rightarrow> Some (Inl (Err e), w, sent)
        | Inr script \<Rightarrow>
            (case io w \<lparr>sock_script = script, sock_sent = sent\<rparr> of
               (Inr _, w, s) \<Rightarrow> drain_write want io rounds w (sock_sent s)
             | (Inl e, w, s) \<Rightarrow> Some (Inl e, w, sock_sent s))))"

text \<open>\<open>do_io\<close> of the flat buffer cannot panic.\<close>

definition wb_try_write :: "WriteBuf \<Rightarrow> sock \<Rightarrow> (ErrorKind fault + unit) \<times> WriteBuf \<times> sock" where
  "wb_try_write w s =
     (case wb_do_io w s of (Inl e, r) \<Rightarrow> (Inl (Err e), r) | (Inr u, r) \<Rightarrow> (Inr u, r))"

section \<open>Nothing is lost on the way to the socket\<close>

lemma wb_do_io_sent:
  "wb_do_io w s = (r, w', s') \<Longrightarrow> sock_sent s' @ wb_buf w' = sock_sent s @ wb_buf w"
proof (induction w s rule: wb_do_io.induct)
  case (1 w s)
  show ?case
  proof (cases "\<exists>n s1. \<not> wb_want_flush w \<and> sock_write (wb_buf w) s = (Inr n, s1) \<and> n \<noteq> 0")
    case True
    then obtain n s1 where n: "\<not> wb_want_flush w" "sock_write (wb_buf w) s = (Inr n, s1)" "n \<noteq> 0" by blast
    define w1 where "w1 = w\<lparr>wb_buf := drop n (wb_buf w), wb_want_flush := (drop n (wb_buf w) = [])\<rparr>"
    have "wb_do_io w1 s1 = (r, w', s')"
      using "1.prems" n by (simp add: wb_do_io.simps [of w] w1_def Let_def)
    with "1.IH" [OF n(1) n(2) [symmetric] refl n(3) refl] have
      "sock_sent s' @ wb_buf w' = sock_sent s1 @ wb_buf w1" by (simp add: w1_def)
    then show ?thesis using sock_write_Inr [OF n(2)] by (simp add: w1_def)
  next
    case False
    then show ?thesis using "1.prems"
      by (auto simp: wb_do_io.simps [of w] dest: sock_flush_sent sock_write_Inl sock_write_Inr
          split: prod.splits sum.splits ErrorKind.splits if_splits)
  qed
qed

lemma wb_do_io_flush:
  "wb_do_io w s = (r, w', s') \<Longrightarrow> (wb_want_flush w \<longrightarrow> wb_buf w = []) \<Longrightarrow> wb_want_flush w' \<Longrightarrow> wb_buf w' = []"
proof (induction w s rule: wb_do_io.induct)
  case (1 w s)
  show ?case
  proof (cases "\<exists>n s1. \<not> wb_want_flush w \<and> sock_write (wb_buf w) s = (Inr n, s1) \<and> n \<noteq> 0")
    case True
    then obtain n s1 where n: "\<not> wb_want_flush w" "sock_write (wb_buf w) s = (Inr n, s1)" "n \<noteq> 0" by blast
    show ?thesis
      by (rule "1.IH" [OF n(1) n(2) [symmetric] refl n(3) refl])
        (use "1.prems" n in \<open>simp_all add: wb_do_io.simps [of w] Let_def\<close>)
  next
    case False
    then show ?thesis using "1.prems"
      by (auto simp: wb_do_io.simps [of w] split: prod.splits sum.splits ErrorKind.splits if_splits)
  qed
qed

text \<open>What a write buffer promises, and what flushing makes of it.\<close>

locale buf_write =
  fixes want :: "'w \<Rightarrow> bool" and io :: "'w \<Rightarrow> sock \<Rightarrow> (ErrorKind fault + unit) \<times> 'w \<times> sock"
    and pending :: "'w \<Rightarrow> bytes" and ok :: "'w \<Rightarrow> bool"
  assumes io_ok: "ok w \<Longrightarrow> want w \<Longrightarrow> io w s = (r, w', s') \<Longrightarrow>
      ok w' \<and> r \<noteq> Inl Panic \<and> sock_sent s' @ pending w' = sock_sent s @ pending w"
    and idle: "ok w \<Longrightarrow> \<not> want w \<Longrightarrow> pending w = []"
begin

lemma drain_write_ok:
  "ok w \<Longrightarrow> drain_write want io rounds w sent = Some (r, w', sent') \<Longrightarrow>
     ok w' \<and> r \<noteq> Inl Panic \<and> sent' @ pending w' = sent @ pending w \<and> (r = Inr () \<longrightarrow> pending w' = [])"
proof (induction rounds arbitrary: w sent)
  case Nil
  then show ?case by (auto simp: idle split: if_splits)
next
  case (Cons x rounds)
  show ?case
  proof (cases "want w \<and> \<not> isl x")
    case True
    then obtain script where x: "x = Inr script" by (cases x) auto
    obtain q w1 s1 where io: "io w \<lparr>sock_script = script, sock_sent = sent\<rparr> = (q, w1, s1)"
      by (cases "io w \<lparr>sock_script = script, sock_sent = sent\<rparr>")
    have "ok w1 \<and> q \<noteq> Inl Panic \<and> sock_sent s1 @ pending w1 = sent @ pending w"
      using io_ok [OF Cons.prems(1) _ io] True by simp
    then show ?thesis using Cons.IH [of w1 "sock_sent s1"] Cons.prems(2) True x io
      by (cases q) auto
  next
    case False
    then show ?thesis using Cons.prems by (cases x) (auto simp: idle split: if_splits)
  qed
qed

end

interpretation flat_buf: buf_write wb_want_write_io wb_try_write wb_buf "\<lambda>w. wb_want_flush w \<longrightarrow> wb_buf w = []"
proof
  fix w s r w' s'
  assume "wb_want_flush w \<longrightarrow> wb_buf w = []" "wb_try_write w s = (r, w', s')"
  then show "(wb_want_flush w' \<longrightarrow> wb_buf w' = []) \<and> r \<noteq> Inl Panic \<and>
      sock_sent s' @ wb_buf w' = sock_sent s @ wb_buf w"
    by (auto simp: wb_try_write_def wb_do_io_sent dest: wb_do_io_flush split: prod.splits sum.splits)
qed (auto simp: wb_want_write_io_def)

text \<open>
  The vectored buffer over any buffer type that keeps the contract \<open>buf_ops\<close>. No buffer in the
  list may be empty: with one at the end of the list the loop would write nothing and the
  assertion of \<open>write_zero\<close> would fail.
\<close>

context buf_ops
begin

definition lw_bytes :: "'b ListWriteBuf \<Rightarrow> bytes" where
  "lw_bytes w = bl_bytes (lw_list w)"

definition lw_ok :: "'b ListWriteBuf \<Rightarrow> bool" where
  "lw_ok w \<longleftrightarrow> bl_ok BUF_LIST_CNT (lw_list w) \<and> (\<forall>b\<in>set (q_items (lw_list w)). content b \<noteq> []) \<and>
     (lw_want_flush w \<longrightarrow> q_items (lw_list w) = [])"

lemma lw_want_iff: "lw_ok w \<Longrightarrow> lw_want_write_io w \<longleftrightarrow> q_items (lw_list w) \<noteq> [] \<or> lw_want_flush w"
  by (cases "q_items (lw_list w)") (auto simp: lw_want_write_io_def lw_ok_def bl_ok_def bl_bytes_def)

lemma lw_write_step:
  assumes ok: "lw_ok w" and want: "lw_want_write_io w" "\<not> lw_want_flush w"
  shows "\<exists>ss rest. bl_slices B BUF_LIST_CNT (lw_list w) = Some ss \<and> lw_bytes w = concat ss @ rest \<and>
    (\<forall>n. 0 < n \<longrightarrow> n \<le> length (concat ss) \<longrightarrow>
       (\<exists>l. bl_advance B n (lw_list w) = Some l \<and>
          lw_ok (w\<lparr>lw_list := l, lw_want_flush := bl_is_empty l\<rparr>) \<and>
          lw_want_write_io (w\<lparr>lw_list := l, lw_want_flush := bl_is_empty l\<rparr>) \<and>
          bl_bytes l = drop n (lw_bytes w)))"
proof -
  have l: "bl_ok BUF_LIST_CNT (lw_list w)" using ok by (simp add: lw_ok_def)
  obtain ss rest where ss: "bl_slices B BUF_LIST_CNT (lw_list w) = Some ss" "lw_bytes w = concat ss @ rest"
    using bl_slices_ok [OF l, of BUF_LIST_CNT] by (auto simp: BUF_LIST_CNT_def lw_bytes_def)
  have "\<exists>l. bl_advance B n (lw_list w) = Some l \<and>
          lw_ok (w\<lparr>lw_list := l, lw_want_flush := bl_is_empty l\<rparr>) \<and>
          lw_want_write_io (w\<lparr>lw_list := l, lw_want_flush := bl_is_empty l\<rparr>) \<and>
          bl_bytes l = drop n (lw_bytes w)" if n: "n \<le> length (concat ss)" for n
  proof -
    have len: "n \<le> length (bl_bytes (lw_list w))" using n ss(2) by (simp add: lw_bytes_def)
    obtain l where l': "bl_advance B n (lw_list w) = Some l" "bl_ok BUF_LIST_CNT l"
      "bl_bytes l = drop n (bl_bytes (lw_list w))" "q_items l = skip n (q_items (lw_list w))"
      using bl_advance_ok [OF l len] by blast
    have "\<forall>b\<in>set (q_items l). content b \<noteq> []"
      using skip_nonempty [of n "q_items (lw_list w)"] ok len l'(4) by (simp add: lw_ok_def bl_bytes_def)
    then have "lw_ok (w\<lparr>lw_list := l, lw_want_flush := bl_is_empty l\<rparr>)"
      using l' by (simp add: lw_ok_def bl_is_empty_iff)
    with l' lw_want_iff [OF this] show ?thesis by (auto simp: lw_bytes_def bl_is_empty_iff)
  qed
  with ss show ?thesis by blast
qed

lemma lw_do_io_ok:
  "lw_ok w \<Longrightarrow> lw_want_write_io w \<Longrightarrow> lw_do_io B w s = (r, w', s') \<Longrightarrow>
     lw_ok w' \<and> r \<noteq> Inl Panic \<and> lw_buf w' = lw_buf w \<and> sock_sent s' @ lw_bytes w' = sock_sent s @ lw_bytes w"
proof (induction "length (sock_script s)" arbitrary: w s rule: less_induct)
  case less
  show ?case
  proof (cases "lw_want_flush w")
    case True
    then show ?thesis using less.prems
      by (auto simp: lw_do_io.simps [of B w] lw_ok_def lw_bytes_def dest: sock_flush_sent
          split: prod.splits sum.splits ErrorKind.splits)
  next
    case False
    obtain ss rest where ss: "bl_slices B BUF_LIST_CNT (lw_list w) = Some ss" "lw_bytes w = concat ss @ rest"
      and adv: "\<And>n. 0 < n \<Longrightarrow> n \<le> length (concat ss) \<Longrightarrow>
        \<exists>l. bl_advance B n (lw_list w) = Some l \<and>
          lw_ok (w\<lparr>lw_list := l, lw_want_flush := bl_is_empty l\<rparr>) \<and>
          lw_want_write_io (w\<lparr>lw_list := l, lw_want_flush := bl_is_empty l\<rparr>) \<and>
          bl_bytes l = drop n (lw_bytes w)"
      using lw_write_step [OF less.prems(1,2) False] by blast
    show ?thesis
    proof (cases "\<exists>n s1. sock_write (concat ss) s = (Inr n, s1) \<and> 0 < n")
      case True
      then obtain n s1 where n: "sock_write (concat ss) s = (Inr n, s1)" "0 < n" by blast
      note w = sock_write_Inr [OF n(1)]
      obtain l where l: "bl_advance B n (lw_list w) = Some l"
        "lw_ok (w\<lparr>lw_list := l, lw_want_flush := bl_is_empty l\<rparr>)"
        "lw_want_write_io (w\<lparr>lw_list := l, lw_want_flush := bl_is_empty l\<rparr>)"
        "bl_bytes l = drop n (lw_bytes w)" using adv [OF n(2)] w by blast
      have "lw_do_io B (w\<lparr>lw_list := l, lw_want_flush := bl_is_empty l\<rparr>) s1 = (r, w', s')"
        using less.prems(3) False ss(1) n l(1) by (cases "bl_is_empty l") (simp_all add: lw_do_io.simps [of B w])
      from less.hyps [OF _ l(2,3) this] w have
        "lw_ok w' \<and> r \<noteq> Inl Panic \<and> lw_buf w' = lw_buf w \<and> sock_sent s' @ lw_bytes w' = sock_sent s1 @ bl_bytes l"
        by (simp add: lw_bytes_def)
      then show ?thesis using w l(4) ss(2) by simp
    next
      case stop: False
      then show ?thesis using less.prems False ss(1)
        by (auto simp: lw_do_io.simps [of B w] write_zero_def dest: sock_write_Inl sock_write_Inr
            split: prod.splits sum.splits ErrorKind.splits if_splits)
    qed
  qed
qed

lemma buffer_ok:
  assumes "lw_ok w" and "length (q_items (lw_list w)) < BUF_LIST_CNT" and "content b \<noteq> []"
  shows "\<exists>w'. buffer B b w = Some w' \<and> lw_ok w' \<and> lw_bytes w' = lw_bytes w @ content b \<and>
           lw_buf w' = lw_buf w \<and> length (q_items (lw_list w')) = Suc (length (q_items (lw_list w)))"
  using bl_push_ok [of BUF_LIST_CNT "lw_list w" b] assms
  by (auto simp: buffer_def lw_ok_def lw_bytes_def simp del: heap_queue.length_items)

lemma list_buf_write: "buf_write lw_want_write_io (lw_do_io B) lw_bytes lw_ok"
proof
  fix w s r w' s'
  assume "lw_ok w" "lw_want_write_io w" "lw_do_io B w s = (r, w', s')"
  then show "lw_ok w' \<and> r \<noteq> Inl Panic \<and> sock_sent s' @ lw_bytes w' = sock_sent s @ lw_bytes w"
    using lw_do_io_ok by blast
qed (auto simp: lw_want_iff lw_bytes_def bl_bytes_def)

end

sublocale buf_ops \<subseteq> list_buf: buf_write lw_want_write_io "lw_do_io B" lw_bytes lw_ok
  by (rule list_buf_write)

section \<open>Reading takes what the socket gave\<close>

definition read_data :: "read_script \<Rightarrow> bytes" where
  "read_data io = concat (map (\<lambda>x. case x of Inl _ \<Rightarrow> [] | Inr d \<Rightarrow> d) io)"

lemma try_read_ok:
  "try_read limit read io buf = (r, buf', io') \<Longrightarrow>
     \<exists>used. io = used @ io' \<and> buf' = buf @ read_data used \<and>
       (case r of
          Inr (Some n) \<Rightarrow> n = read + length (read_data used)
        | _ \<Rightarrow> read = 0 \<and> read_data used = [])"
proof (induction limit read io buf rule: try_read.induct)
  case (1 limit read io buf)
  obtain q buf1 io1 where rd: "read_buf io buf = (q, buf1, io1)" by (cases "read_buf io buf")
  show ?case
  proof (cases "\<exists>n. q = Inr n \<and> n \<noteq> 0 \<and> rb_want_write_buf limit buf1")
    case True
    then obtain n where n: "q = Inr n" "n \<noteq> 0" "rb_want_write_buf limit buf1" by blast
    obtain data where data: "io = Inr data # io1" "buf1 = buf @ data" "n = length data"
      using read_buf_Inr [OF rd [unfolded n(1)]] by blast
    have "try_read limit (read + n) io1 buf1 = (r, buf', io')"
      using "1.prems" rd n by (simp add: try_read.simps [of limit read io buf])
    from "1.IH" [OF rd [symmetric] n(1) refl n(2) _ this] n(3) obtain used where
      "io1 = used @ io'" "buf' = buf1 @ read_data used"
      "case r of Inr (Some m) \<Rightarrow> m = read + n + length (read_data used) | _ \<Rightarrow> read + n = 0 \<and> read_data used = []"
      by auto
    then show ?thesis using data n(2)
      by (intro exI [of _ "Inr data # used"]) (auto simp: read_data_def split: sum.splits option.splits)
  next
    case False
    then show ?thesis using "1.prems" rd
      by (cases "(io, buf)" rule: read_buf.cases)
        (auto simp: try_read.simps [of limit read io buf] read_data_def split: if_splits
          intro!: exI [of _ "[hd io]"])
  qed
qed

lemma rb_do_io_ok:
  "rb_do_io limit read io buf = (r, buf', io') \<Longrightarrow>
     \<exists>used. io = used @ io' \<and> buf' = buf @ read_data used \<and>
       (case r of Inr _ \<Rightarrow> True | Inl _ \<Rightarrow> read = 0 \<and> read_data used = [])"
proof (induction limit read io buf rule: rb_do_io.induct)
  case (1 limit read io buf)
  obtain q buf1 io1 where rd: "read_buf io buf = (q, buf1, io1)" by (cases "read_buf io buf")
  show ?case
  proof (cases "\<exists>n. q = Inr n \<and> n \<noteq> 0 \<and> rb_want_write_buf limit buf1")
    case True
    then obtain n where n: "q = Inr n" "n \<noteq> 0" "rb_want_write_buf limit buf1" by blast
    obtain data where data: "io = Inr data # io1" "buf1 = buf @ data" "n = length data"
      using read_buf_Inr [OF rd [unfolded n(1)]] by blast
    have "rb_do_io limit (read + n) io1 buf1 = (r, buf', io')"
      using "1.prems" rd n by (simp add: rb_do_io.simps [of limit read io buf])
    from "1.IH" [OF rd [symmetric] n(1) refl n(2) _ this] n(3) obtain used where
      "io1 = used @ io'" "buf' = buf1 @ read_data used"
      "case r of Inr _ \<Rightarrow> True | Inl _ \<Rightarrow> read + n = 0 \<and> read_data used = []"
      by auto
    then show ?thesis using data n(2)
      by (intro exI [of _ "Inr data # used"]) (auto simp: read_data_def split: sum.splits option.splits)
  next
    case False
    then show ?thesis using "1.prems" rd
      by (cases "(io, buf)" rule: read_buf.cases)
        (auto simp: rb_do_io.simps [of limit read io buf] read_data_def split: if_splits
          intro!: exI [of _ "[hd io]"])
  qed
qed

section \<open>Properties\<close>

text \<open>
  C19: Draining the flat write buffer into a socket that accepts writes in arbitrary portions and fails at
  arbitrary points loses, repeats and reorders nothing: what was sent followed by what is still buffered is what
  was sent and buffered before, and after a successful drain the buffer is empty.
\<close>

theorem flat_write_lossless:
  assumes "wb_want_flush w \<longrightarrow> wb_buf w = []"
    and "drain_write wb_want_write_io wb_try_write rounds w sent = Some (r, w', sent')"
  shows "sent' @ wb_buf w' = sent @ wb_buf w \<and> r \<noteq> Inl Panic \<and> (r = Inr () \<longrightarrow> wb_buf w' = [])"
  using flat_buf.drain_write_ok [OF assms] by blast

theorem flat_write_lossless_witness:
  "[1] @ [2, 3] = [] @ [1, 2, 3 :: u8] \<and>
   drain_write wb_want_write_io wb_try_write [Inr [W_Ok 1, W_Err WouldBlock], Inl UnexpectedEof]
     \<lparr>wb_buf = [1, 2, 3], wb_want_flush = False\<rparr> [] = Some (Inl (Err UnexpectedEof), \<lparr>wb_buf = [2, 3], wb_want_flush = False\<rparr>, [1])"
proof -
  have d: "drain_write wb_want_write_io wb_try_write [Inr [W_Ok 1, W_Err WouldBlock], Inl UnexpectedEof]
     \<lparr>wb_buf = [1, 2, 3], wb_want_flush = False\<rparr> [] = Some (Inl (Err UnexpectedEof), \<lparr>wb_buf = [2, 3], wb_want_flush = False\<rparr>, [1])"
    by (simp add: wb_try_write_def wb_want_write_io_def wb_do_io.simps sock_write_def)
  with flat_write_lossless [OF _ d] show ?thesis by simp
qed

text \<open>
  C30: Reading into the read buffer appends exactly the data the socket delivered, in order, and reports its
  length; an error is reported only when nothing was read.
\<close>

theorem try_read_appends:
  assumes "try_read limit 0 io buf = (r, buf', io')"
  shows "\<exists>used. io = used @ io' \<and> buf' = buf @ read_data used \<and>
       (case r of Inr (Some n) \<Rightarrow> n = length (read_data used) | _ \<Rightarrow> read_data used = [])"
  using try_read_ok [OF assms] by (auto split: sum.splits option.splits)

theorem try_read_appends_witness:
  "\<exists>r buf' io' used. try_read 64 0 [Inr [1, 2], Inr [3], Inl WouldBlock] [9] = (r, buf', io') \<and>
     [Inr [1, 2], Inr [3], Inl WouldBlock] = used @ io' \<and> buf' = [9] @ read_data used"
proof -
  obtain r buf' io' where t: "try_read 64 0 [Inr [1, 2], Inr [3], Inl WouldBlock] [9] = (r, buf', io')"
    by (cases "try_read 64 0 [Inr [1, 2], Inr [3], Inl WouldBlock] [9]")
  from try_read_appends [OF t] t show ?thesis by blast
qed

end
