(* ===== verification/H1_Write.thy ===== *)
theory H1_Write
  imports H1_Chunked Io_Buf
begin

text \<open>
  Writing message bodies, \<open>http/src/h1/proto/buf_write.rs\<close> and the encoding half of
  \<open>codec.rs\<close>. The trait \<open>H1BufWrite\<close> is a record of its operations, with its three buffers:
  \<open>BytesMut\<close>, the flat \<open>WriteBuf\<close> and the vectored \<open>ListWriteBuf\<close>. \<open>None\<close> is a panic.
  What is written for a body in any of the buffers decodes to that body again.
\<close>

section \<open>The buffers\<close>

record ('w, 't, 'e) H1BufWrite =
  write_buf_head :: "(bytes \<Rightarrow> ('e fault + 't) \<times> bytes) \<Rightarrow> 'w \<Rightarrow> ('e fault + 't) \<times> 'w"
  write_buf_static :: "bytes \<Rightarrow> 'w \<Rightarrow> 'w option"
  write_buf_bytes :: "bytes \<Rightarrow> 'w \<Rightarrow> 'w option"
  write_buf_bytes_chunked :: "bytes \<Rightarrow> 'w \<Rightarrow> 'w option"

text \<open>The format \<open>{:X}\<close> of a number.\<close>

definition hex_digit :: "nat \<Rightarrow> u8" where
  "hex_digit d = (if d < 10 then of_nat (48 + d) else of_nat (55 + d))"

fun hex_upper :: "nat \<Rightarrow> bytes" where
  "hex_upper n = (if n < 16 then [hex_digit n] else hex_upper (n div 16) @ [hex_digit (n mod 16)])"

declare hex_upper.simps [simp del]

definition CRLF :: bytes where
  "CRLF = [13, 10]"

text \<open>The default methods of the trait, over a buffer's \<open>write_buf\<close>.\<close>

definition default_write_static ::
  "((bytes \<Rightarrow> (unit fault + unit) \<times> bytes) \<Rightarrow> 'w \<Rightarrow> (unit fault + unit) \<times> 'w) \<Rightarrow> bytes \<Rightarrow> 'w \<Rightarrow> 'w option" where
  "default_write_static write_buf b w = Some (snd (write_buf (\<lambda>buf. (Inr (), buf @ b)) w))"

definition default_write_bytes ::
  "((bytes \<Rightarrow> (unit fault + unit) \<times> bytes) \<Rightarrow> 'w \<Rightarrow> (unit fault + unit) \<times> 'w) \<Rightarrow> bytes \<Rightarrow> 'w \<Rightarrow> 'w option" where
  "default_write_bytes write_buf b w = Some (snd (write_buf (\<lambda>buf. (Inr (), buf @ b)) w))"

definition default_write_chunked ::
  "((bytes \<Rightarrow> (unit fault + unit) \<times> bytes) \<Rightarrow> 'w \<Rightarrow> (unit fault + unit) \<times> 'w) \<Rightarrow> bytes \<Rightarrow> 'w \<Rightarrow> 'w option" where
  "default_write_chunked write_buf b w =
     Some (snd (write_buf (\<lambda>buf. (Inr (), buf @ hex_upper (length b) @ CRLF @ b @ CRLF)) w))"

definition h1_bytes_mut :: "(bytes, 't, 'e) H1BufWrite" where
  "h1_bytes_mut = \<lparr>write_buf_head = bm_write_buf,
     write_buf_static = default_write_static bm_write_buf,
     write_buf_bytes = default_write_bytes bm_write_buf,
     write_buf_bytes_chunked = default_write_chunked bm_write_buf\<rparr>"

definition h1_write_buf :: "(WriteBuf, 't, 'e) H1BufWrite" where
  "h1_write_buf = \<lparr>write_buf_head = wb_write_buf,
     write_buf_static = default_write_static wb_write_buf,
     write_buf_bytes = default_write_bytes wb_write_buf,
     write_buf_bytes_chunked = default_write_chunked wb_write_buf\<rparr>"

text \<open>
  \<open>EncodedBuf<Bytes, Eof>\<close>: \<open>Left\<close> the bytes of a head or body, \<open>Right (Left _)\<close> a chunk as a
  chain of three parts, \<open>Right (Right _)\<close> a static slice. \<open>C1\<close> and \<open>C2\<close> are the inner and the
  outer chain.
\<close>

type_synonym 'c EncodedBuf = "bytes + ('c + bytes)"

definition encoded_buf ::
  "('d, bytes, bytes) Chain \<Rightarrow> ('c, 'd, bytes) Chain \<Rightarrow> 'c EncodedBuf Buf" where
  "encoded_buf C1 C2 =
     either_buf bytes_buf (either_buf (chain_buf C2 (chain_buf C1 bytes_buf bytes_buf) bytes_buf) bytes_buf)"

definition list_write_head ::
  "'c EncodedBuf Buf \<Rightarrow> (bytes \<Rightarrow> ('e fault + 't) \<times> bytes) \<Rightarrow> 'c EncodedBuf ListWriteBuf \<Rightarrow>
     ('e fault + 't) \<times> 'c EncodedBuf ListWriteBuf" where
  "list_write_head B func w =
     (case lw_write_buf func w of
        (Inr t, w) \<Rightarrow>
          (case split_buf w of (b, w) \<Rightarrow>
             (case buffer B (Inl b) w of None \<Rightarrow> (Inl Panic, w) | Some w \<Rightarrow> (Inr t, w)))
      | (Inl e, w) \<Rightarrow> (Inl e, w))"

definition h1_list_write_buf ::
  "('d, bytes, bytes) Chain \<Rightarrow> ('c, 'd, bytes) Chain \<Rightarrow>
     ('c EncodedBuf ListWriteBuf, 't, 'e) H1BufWrite" where
  "h1_list_write_buf C1 C2 =
     (let B = encoded_buf C1 C2 in
      \<lparr>write_buf_head = list_write_head B,
       write_buf_static = (\<lambda>b. buffer B (Inr (Inr b))),
       write_buf_bytes = (\<lambda>b. buffer B (Inl b)),
       write_buf_bytes_chunked = (\<lambda>b.
         buffer B (Inr (Inl (ch_new C2 (ch_new C1 (hex_upper (length b) @ CRLF) b) CRLF))))\<rparr>)"

section \<open>Encoding a body\<close>

definition tc_encode ::
  "('w, 't, 'e) H1BufWrite \<Rightarrow> TransferCoding \<Rightarrow> bytes \<Rightarrow> 'w \<Rightarrow> (TransferCoding \<times> 'w) option" where
  "tc_encode W tc b buf =
     (if b = [] then Some (tc, buf)
      else (case tc of
          TC_Upgrade \<Rightarrow> map_option (Pair tc) (write_buf_bytes W b buf)
        | EncodeChunked \<Rightarrow> map_option (Pair tc) (write_buf_bytes_chunked W b buf)
        | TC_Length rem \<Rightarrow>
            let len = length b in
            if rem \<ge> len then map_option (Pair (TC_Length (rem - len))) (write_buf_bytes W b buf)
            else map_option (Pair (TC_Length 0)) (write_buf_bytes W (take rem b) buf)
        | TC_Eof \<Rightarrow> Some (tc, buf)
        | _ \<Rightarrow> None))"

definition tc_encode_eof :: "('w, 't, 'e) H1BufWrite \<Rightarrow> TransferCoding \<Rightarrow> 'w \<Rightarrow> 'w option" where
  "tc_encode_eof W tc buf =
     (case tc of
        TC_Eof \<Rightarrow> Some buf
      | TC_Upgrade \<Rightarrow> Some buf
      | TC_Length 0 \<Rightarrow> Some buf
      | EncodeChunked \<Rightarrow> write_buf_static W (ascii ''0'' @ CRLF @ CRLF) buf
      | _ \<Rightarrow> None)"

text \<open>A whole body: the chunks the service yields, then the end.\<close>

fun encode_body ::
  "('w, 't, 'e) H1BufWrite \<Rightarrow> TransferCoding \<Rightarrow> bytes list \<Rightarrow> 'w \<Rightarrow> 'w option" where
  "encode_body W tc [] buf = tc_encode_eof W tc buf"
| "encode_body W tc (b # bs) buf =
     (case tc_encode W tc b buf of
        None \<Rightarrow> None
      | Some (tc, buf) \<Rightarrow> encode_body W tc bs buf)"

text \<open>What is on the wire for a body in chunks; a chunk of no bytes is skipped.\<close>

definition chunked_wire :: "bytes list \<Rightarrow> bytes" where
  "chunked_wire bs =
     concat (map (\<lambda>b. if b = [] then [] else hex_upper (length b) @ CRLF @ b @ CRLF) bs)
       @ ascii ''0'' @ CRLF @ CRLF"

section \<open>The contract of a body writer\<close>

text \<open>
  \<open>pending\<close> are the bytes waiting to be sent; \<open>room k\<close> says that the buffer is sound and takes
  \<open>k\<close> more non-empty writes. A head writer appends its bytes, or fails and leaves nothing.
\<close>

locale h1_writer =
  fixes W :: "('w, 't, 'e) H1BufWrite" and pending :: "'w \<Rightarrow> bytes" and room :: "nat \<Rightarrow> 'w \<Rightarrow> bool"
  assumes room_mono: "room k w \<Longrightarrow> j \<le> k \<Longrightarrow> room j w"
    and static: "room (Suc k) w \<Longrightarrow> b \<noteq> [] \<Longrightarrow>
      \<exists>w'. write_buf_static W b w = Some w' \<and> pending w' = pending w @ b \<and> room k w'"
    and bytes: "room (Suc k) w \<Longrightarrow> b \<noteq> [] \<Longrightarrow>
      \<exists>w'. write_buf_bytes W b w = Some w' \<and> pending w' = pending w @ b \<and> room k w'"
    and chunked: "room (Suc k) w \<Longrightarrow> \<exists>w'. write_buf_bytes_chunked W b w = Some w' \<and>
      pending w' = pending w @ hex_upper (length b) @ CRLF @ b @ CRLF \<and> room k w'"
    and head_ok: "room (Suc k) w \<Longrightarrow> out \<noteq> [] \<Longrightarrow> (\<And>b. func b = (Inr t, b @ out)) \<Longrightarrow>
      \<exists>w'. write_buf_head W func w = (Inr t, w') \<and> pending w' = pending w @ out \<and> room k w'"
    and head_err: "room k w \<Longrightarrow> (\<And>b. func b = (Inl (Err e), b @ junk)) \<Longrightarrow>
      \<exists>w'. write_buf_head W func w = (Inl (Err e), w') \<and> pending w' = pending w \<and> room k w'"
begin

lemma chunked_body:
  "room (Suc (length bs)) w \<Longrightarrow>
     \<exists>w'. encode_body W EncodeChunked bs w = Some w' \<and> pending w' = pending w @ chunked_wire bs"
proof (induction bs arbitrary: w)
  case Nil
  then show ?case using static [of 0 w "ascii ''0'' @ CRLF @ CRLF"]
    by (auto simp: tc_encode_eof_def ascii_def chunked_wire_def)
next
  case (Cons b bs)
  show ?case
  proof (cases "b = []")
    case True
    then show ?thesis using Cons.IH [of w] Cons.prems room_mono [of _ w "Suc (length bs)"]
      by (auto simp: tc_encode_def chunked_wire_def)
  next
    case False
    obtain w1 where w1: "write_buf_bytes_chunked W b w = Some w1"
      "pending w1 = pending w @ hex_upper (length b) @ CRLF @ b @ CRLF" "room (Suc (length bs)) w1"
      using chunked [of "Suc (length bs)" w b] Cons.prems by auto
    then show ?thesis using Cons.IH [OF w1(3)] False by (auto simp: tc_encode_def chunked_wire_def)
  qed
qed

lemma length_body:
  "room (length bs) w \<Longrightarrow> length (concat bs) = n \<Longrightarrow>
     \<exists>w'. encode_body W (TC_Length n) bs w = Some w' \<and> pending w' = pending w @ concat bs"
proof (induction bs arbitrary: w n)
  case Nil
  then show ?case by (simp add: tc_encode_eof_def)
next
  case (Cons b bs)
  show ?case
  proof (cases "b = []")
    case True
    then show ?thesis using Cons.IH [of w n] Cons.prems room_mono [of _ w "length bs"]
      by (auto simp: tc_encode_def)
  next
    case False
    obtain w1 where w1: "write_buf_bytes W b w = Some w1" "pending w1 = pending w @ b" "room (length bs) w1"
      using bytes [of "length bs" w b] Cons.prems False by auto
    then show ?thesis using Cons.IH [OF w1(3), of "n - length b"] Cons.prems False
      by (auto simp: tc_encode_def)
  qed
qed

text \<open>A body that ends early is a panic: the end of the body finds a length that is not used up.\<close>

lemma short_body:
  "room (length bs) w \<Longrightarrow> length (concat bs) < n \<Longrightarrow> encode_body W (TC_Length n) bs w = None"
proof (induction bs arbitrary: w n)
  case Nil
  then show ?case by (cases n) (simp_all add: tc_encode_eof_def)
next
  case (Cons b bs)
  show ?case
  proof (cases "b = []")
    case True
    then show ?thesis using Cons.IH [of w n] Cons.prems room_mono [of _ w "length bs"]
      by (auto simp: tc_encode_def)
  next
    case False
    obtain w1 where w1: "write_buf_bytes W b w = Some w1" "room (length bs) w1"
      using bytes [of "length bs" w b] Cons.prems False by auto
    then show ?thesis using Cons.IH [OF w1(2), of "n - length b"] Cons.prems False
      by (auto simp: tc_encode_def)
  qed
qed

end

section \<open>The three buffers keep it\<close>

interpretation bytes_mut: h1_writer h1_bytes_mut "\<lambda>w. w" "\<lambda>_ _. True"
  by unfold_locales (auto simp: h1_bytes_mut_def bm_write_buf_def default_write_static_def
      default_write_bytes_def default_write_chunked_def)

interpretation write_buf: h1_writer h1_write_buf wb_buf "\<lambda>_ _. True"
  by unfold_locales (auto simp: h1_write_buf_def wb_write_buf_def bm_write_buf_def default_write_static_def
      default_write_bytes_def default_write_chunked_def)

definition encoded_content ::
  "('d, bytes, bytes) Chain \<Rightarrow> ('c, 'd, bytes) Chain \<Rightarrow> 'c EncodedBuf \<Rightarrow> bytes" where
  "encoded_content C1 C2 = case_sum (\<lambda>b. b)
     (case_sum (\<lambda>c. (first_ref C1 (first_ref C2 c) @ last_ref C1 (first_ref C2 c)) @ last_ref C2 c) (\<lambda>b. b))"

lemma encoded_content_simps [simp]:
  "encoded_content C1 C2 (Inl b) = b"
  "encoded_content C1 C2 (Inr (Inr b)) = b"
  "encoded_content C1 C2 (Inr (Inl c)) =
     first_ref C1 (first_ref C2 c) @ last_ref C1 (first_ref C2 c) @ last_ref C2 c"
  by (simp_all add: encoded_content_def)

text \<open>What the crate \<open>bytes\<close> documents of the two chains of an encoded chunk.\<close>

definition chains_ok :: "('d, bytes, bytes) Chain \<Rightarrow> ('c, 'd, bytes) Chain \<Rightarrow> bool" where
  "chains_ok C1 C2 \<longleftrightarrow> chain_ok C1 (\<lambda>b. b) (\<lambda>b. b) \<and>
     chain_ok C2 (\<lambda>d. first_ref C1 d @ last_ref C1 d) (\<lambda>b. b)"

lemma encoded_buf_ops:
  assumes "chains_ok C1 C2"
  shows "buf_ops (encoded_buf C1 C2) (encoded_content C1 C2)"
  unfolding encoded_buf_def encoded_content_def
  using assms bytes_buf.buf_ops_axioms
  by (intro buf_ops_either buf_ops_chain) (simp_all add: chains_ok_def)

locale encoded_chunks =
  fixes C1 :: "('d, bytes, bytes) Chain" and C2 :: "('c, 'd, bytes) Chain"
  assumes chains: "chains_ok C1 C2"

sublocale encoded_chunks \<subseteq> encoded: buf_ops "encoded_buf C1 C2" "encoded_content C1 C2"
  by (rule encoded_buf_ops [OF chains])

context encoded_chunks
begin

definition list_room :: "nat \<Rightarrow> 'c EncodedBuf ListWriteBuf \<Rightarrow> bool" where
  "list_room k w \<longleftrightarrow> encoded.lw_ok w \<and> lw_buf w = [] \<and>
     length (encoded.q_items (lw_list w)) + k \<le> BUF_LIST_CNT"

lemma list_buffer_ok:
  assumes "list_room (Suc k) w" and "encoded_content C1 C2 b \<noteq> []"
  shows "\<exists>w'. buffer (encoded_buf C1 C2) b w = Some w' \<and>
           encoded.lw_bytes w' = encoded.lw_bytes w @ encoded_content C1 C2 b \<and> list_room k w'"
  using encoded.buffer_ok [of w b] assms by (auto simp: list_room_def)

lemma list_new_room: "list_room BUF_LIST_CNT lw_new" "encoded.lw_bytes lw_new = []"
  using encoded.bl_new_ok [of BUF_LIST_CNT]
  by (simp_all add: list_room_def lw_new_def encoded.lw_ok_def encoded.lw_bytes_def bl_new_def heap_new_def
      del: heap_queue.length_items)

lemma lw_buf_same: "lw_buf w = [] \<Longrightarrow> w\<lparr>lw_buf := []\<rparr> = w"
  by (cases w) simp

lemma list_writer: "h1_writer (h1_list_write_buf C1 C2) encoded.lw_bytes list_room"
proof
  fix j k w b and out :: bytes and func :: "bytes \<Rightarrow> ('y fault + 'x) \<times> bytes" and t e junk
  show "list_room k w \<Longrightarrow> j \<le> k \<Longrightarrow> list_room j w" by (simp add: list_room_def)
  show "list_room (Suc k) w \<Longrightarrow> b \<noteq> [] \<Longrightarrow> \<exists>w'. write_buf_static (h1_list_write_buf C1 C2) b w = Some w' \<and>
      encoded.lw_bytes w' = encoded.lw_bytes w @ b \<and> list_room k w'"
    using list_buffer_ok [of k w "Inr (Inr b)"] by (simp add: h1_list_write_buf_def Let_def)
  show "list_room (Suc k) w \<Longrightarrow> b \<noteq> [] \<Longrightarrow> \<exists>w'. write_buf_bytes (h1_list_write_buf C1 C2) b w = Some w' \<and>
      encoded.lw_bytes w' = encoded.lw_bytes w @ b \<and> list_room k w'"
    using list_buffer_ok [of k w "Inl b"] by (simp add: h1_list_write_buf_def Let_def)
  show "list_room (Suc k) w \<Longrightarrow> \<exists>w'. write_buf_bytes_chunked (h1_list_write_buf C1 C2) b w = Some w' \<and>
      encoded.lw_bytes w' = encoded.lw_bytes w @ hex_upper (length b) @ CRLF @ b @ CRLF \<and> list_room k w'"
    using list_buffer_ok [of k w "Inr (Inl (ch_new C2 (ch_new C1 (hex_upper (length b) @ CRLF) b) CRLF))"] chains
    by (simp add: h1_list_write_buf_def Let_def chains_ok_def chain_ok_def CRLF_def)
  show "\<exists>w'. write_buf_head (h1_list_write_buf C1 C2) func w = (Inr t, w') \<and>
      encoded.lw_bytes w' = encoded.lw_bytes w @ out \<and> list_room k w'"
    if asm: "list_room (Suc k) w" "out \<noteq> []" "\<And>b. func b = (Inr t, b @ out)"
  proof -
    obtain w' where "buffer (encoded_buf C1 C2) (Inl out) w = Some w'" "list_room k w'"
      "encoded.lw_bytes w' = encoded.lw_bytes w @ out" "lw_buf w = []"
      using list_buffer_ok [of k w "Inl out"] asm(1,2) by (auto simp: list_room_def)
    then show ?thesis using asm(3)
      by (simp add: h1_list_write_buf_def Let_def list_write_head_def lw_write_buf_def split_buf_def lw_buf_same)
  qed
  show "\<exists>w'. write_buf_head (h1_list_write_buf C1 C2) func w = (Inl (Err e), w') \<and>
      encoded.lw_bytes w' = encoded.lw_bytes w \<and> list_room k w'"
    if "list_room k w" "\<And>b. func b = (Inl (Err e), b @ junk)"
    using that lw_buf_same [of w]
    by (simp add: list_room_def h1_list_write_buf_def Let_def list_write_head_def lw_write_buf_def lw_buf_same)
qed

end

sublocale encoded_chunks \<subseteq> list_writer: h1_writer "h1_list_write_buf C1 C2" encoded.lw_bytes list_room
  by (rule list_writer)

text \<open>A chain as its two buffers, which is how the crate \<open>bytes\<close> describes it.\<close>

definition seq_chain :: "'t Buf \<Rightarrow> 'u Buf \<Rightarrow> ('t \<times> 'u, 't, 'u) Chain" where
  "seq_chain T U = \<lparr>
     ch_remaining = (\<lambda>(t, u). buf_remaining T t + buf_remaining U u),
     ch_advance = (\<lambda>n (t, u).
       (buf_advance T (min n (buf_remaining T t)) t, buf_advance U (n - buf_remaining T t) u)),
     first_ref = fst, last_ref = snd, ch_new = Pair\<rparr>"

definition chain1 :: "(bytes \<times> bytes, bytes, bytes) Chain" where
  "chain1 = seq_chain bytes_buf bytes_buf"

definition chain2 :: "((bytes \<times> bytes) \<times> bytes, bytes \<times> bytes, bytes) Chain" where
  "chain2 = seq_chain (chain_buf chain1 bytes_buf bytes_buf) bytes_buf"

lemma chain_ok_seq:
  assumes "buf_ops T ct" and "buf_ops U cu"
  shows "chain_ok (seq_chain T U) ct cu"
  using buf_ops.remaining [OF assms(1)] buf_ops.remaining [OF assms(2)]
    buf_ops.advance [OF assms(1)] buf_ops.advance [OF assms(2)]
  by (auto simp: chain_ok_def seq_chain_def min_def)

lemma chains_ok_seq: "chains_ok chain1 chain2"
proof -
  have 1: "chain_ok chain1 (\<lambda>b. b) (\<lambda>b. b)"
    unfolding chain1_def by (intro chain_ok_seq bytes_buf.buf_ops_axioms)
  then have "buf_ops (chain_buf chain1 bytes_buf bytes_buf) (\<lambda>d. first_ref chain1 d @ last_ref chain1 d)"
    using buf_ops_chain [OF bytes_buf.buf_ops_axioms bytes_buf.buf_ops_axioms] by blast
  then have "chain_ok chain2 (\<lambda>d. first_ref chain1 d @ last_ref chain1 d) (\<lambda>b. b)"
    unfolding chain2_def by (intro chain_ok_seq bytes_buf.buf_ops_axioms)
  with 1 show ?thesis by (simp add: chains_ok_def)
qed

interpretation seq_chunks: encoded_chunks chain1 chain2
  by unfold_locales (rule chains_ok_seq)

section \<open>A chunked body round-trips\<close>

lemma hex_digit_class:
  "\<forall>d\<in>set [0..<16]. if d < 10 then 48 \<le> hex_digit d \<and> hex_digit d \<le> 57 \<and> unat (hex_digit d - 48) = d
     else \<not> hex_digit d \<le> 57 \<and> \<not> 97 \<le> hex_digit d \<and> 65 \<le> hex_digit d \<and> hex_digit d \<le> 70 \<and>
       unat (hex_digit d + 10 - 65) = d"
  by code_simp

lemma read_hex_digit:
  assumes "d < 16"
  shows "read_size [hex_digit d] n = (case add_digit n d of (r, n) \<Rightarrow> (r, [], n))"
  using bspec [OF hex_digit_class, of d] assms by (cases "d < 10") simp_all

lemma run_digit:
  assumes "d < 16" and "n * 16 + d \<le> u64_max"
  shows "run Size n (hex_digit d # bs) = run Size (n * 16 + d) bs"
proof -
  have "add_digit n d = (Inr (Some Size), n * 16 + d)"
    using assms by (auto simp: add_digit_def checked_mul_def checked_add_def)
  then have "byte_step Size n (hex_digit d) = Inr (Size, n * 16 + d, [])"
    using read_hex_digit [OF assms(1), of n] by (simp add: byte_step_def step_def del: read_size.simps)
  then show ?thesis by (simp add: case_prod_beta)
qed

lemma run_hex: "n \<le> u64_max \<Longrightarrow> run Size 0 (hex_upper n @ bs) = run Size n bs"
proof (induction n arbitrary: bs rule: hex_upper.induct)
  case (1 n)
  show ?case
  proof (cases "n < 16")
    case True
    then show ?thesis using run_digit [of n 0 bs] 1 by (simp add: hex_upper.simps [of n])
  next
    case False
    have "run Size 0 (hex_upper n @ bs) = run Size (n div 16) (hex_digit (n mod 16) # bs)"
      using "1.IH" [OF False] "1.prems" False by (simp add: hex_upper.simps [of n])
    also have "\<dots> = run Size n bs" using run_digit [of "n mod 16" "n div 16" bs] "1.prems" by simp
    finally show ?thesis .
  qed
qed

lemma run_crlf:
  "run Size n (CRLF @ bs) = (if n = 0 then run EndCr 0 bs else run Body n bs)"
  "run BodyCr n (CRLF @ bs) = run Size n bs"
  "run EndCr n (CRLF @ bs) = ([], Inr (End, n), bs)"
  by (auto simp: CRLF_def byte_step_def step_def split: prod.splits)

lemma run_chunk:
  assumes "b \<noteq> []" and "length b \<le> u64_max"
  shows "run Size 0 (hex_upper (length b) @ CRLF @ b @ CRLF @ bs) =
    (case run Size 0 bs of (d, r) \<Rightarrow> (b @ d, r))"
proof -
  have "run Size 0 (hex_upper (length b) @ CRLF @ b @ CRLF @ bs) = run Body (length b) (b @ CRLF @ bs)"
    using assms by (simp add: run_hex run_crlf)
  also have "\<dots> = (case run BodyCr 0 (CRLF @ bs) of (d, r) \<Rightarrow> (b @ d, r))"
    using assms run_body [of "length b" "b @ CRLF @ bs"] by (simp add: case_prod_beta)
  finally show ?thesis by (simp add: run_crlf)
qed

lemma run_wire:
  "\<forall>b\<in>set bs. length b \<le> u64_max \<Longrightarrow>
     run Size 0 (chunked_wire bs @ rest) = (concat bs, Inr (End, 0), rest)"
proof (induction bs)
  case Nil
  have "hex_upper 0 = ascii ''0''" by (simp add: hex_upper.simps hex_digit_def ascii_def)
  with run_hex [of 0 "CRLF @ CRLF @ rest"] show ?case
    by (simp add: chunked_wire_def run_crlf)
next
  case (Cons b bs)
  then show ?case using run_chunk [of b "chunked_wire bs @ rest"] by (auto simp: chunked_wire_def)
qed

lemma chunked_wire_feed:
  assumes "\<forall>b\<in>set bs. length b \<le> u64_max" and "concat xs = chunked_wire bs @ rest"
  shows "feed tc_decode_chunked [] xs = Some (concat bs, OnEof, TC_Eof, rest)"
proof -
  obtain res where "feed (DecodeChunked Size 0) [] xs = Some res"
    "feed_agrees (run Size 0 (concat xs)) res"
    using feed_chunked [of Size 0 xs] by (auto simp: chunk_wf_def)
  then show ?thesis using run_wire [OF assms(1), of rest] assms(2)
    by (cases res) (auto simp: feed_agrees_def tc_decode_chunked_def)
qed

end
