(* ===== verification/H1_Context.thy ===== *)
theory H1_Context
  imports Prelude
begin

text \<open>
  The per-connection state of HTTP/1, \<open>http/src/h1/proto/context.rs\<close>, with the errors of
  \<open>error.rs\<close> and the header helpers of \<open>header.rs\<close>. The crate \<open>http\<close> (header names and
  values, methods, URIs, header maps) and the crate \<open>httparse\<close> are the record \<open>h1_lib\<close> of the
  functions the code calls; nothing is assumed of them here.
\<close>

section \<open>Errors\<close>

datatype ProtoError =
    PE_HeaderName | PE_HeaderValue | PE_HeaderTooLarge | PE_Method | PE_Uri | PE_NewLine
  | PE_Status | PE_Token | PE_Version

datatype HttparseError =
    HE_HeaderName | HE_HeaderValue | HE_TooManyHeaders | HE_NewLine | HE_Status | HE_Token | HE_Version

fun proto_error_from :: "HttparseError \<Rightarrow> ProtoError" where
  "proto_error_from HE_HeaderName = PE_HeaderName"
| "proto_error_from HE_HeaderValue = PE_HeaderValue"
| "proto_error_from HE_TooManyHeaders = PE_HeaderTooLarge"
| "proto_error_from HE_NewLine = PE_NewLine"
| "proto_error_from HE_Status = PE_Status"
| "proto_error_from HE_Token = PE_Token"
| "proto_error_from HE_Version = PE_Version"

section \<open>The libraries\<close>

text \<open>The header names the code matches on; every other name is \<open>OtherName\<close>.\<close>

datatype HeaderName =
    TRANSFER_ENCODING | CONTENT_LENGTH | CONNECTION | EXPECT_NAME | UPGRADE | DATE | SET_COOKIE | TE
  | OtherName bytes

datatype Method = M_CONNECT | M_HEAD | M_Other bytes

text \<open>
  A parsed request head: its length, the method, the minor version, and where the path and
  the headers are in the buffer, as offset and length.
\<close>

record parsed_head =
  ph_len :: nat
  ph_method :: bytes
  ph_version :: nat
  ph_path :: "nat \<times> nat"
  ph_headers :: "((nat \<times> nat) \<times> (nat \<times> nat)) list"

text \<open>
  \<open>parse_head max buf\<close> is \<open>parse_with_uninit_headers\<close>, \<open>None\<close> the status \<open>Partial\<close>.
  A header map is given by its operations; \<open>hm_drain\<close> yields the values with the name on the
  first value of each name.
\<close>

record ('h, 'u) h1_lib =
  parse_head :: "nat \<Rightarrow> bytes \<Rightarrow> HttparseError + parsed_head option"
  method_from_bytes :: "bytes \<Rightarrow> Method option"
  uri_from :: "bytes \<Rightarrow> 'u option"
  name_from_bytes :: "bytes \<Rightarrow> HeaderName option"
  name_as_str :: "HeaderName \<Rightarrow> bytes"
  value_from :: "bytes \<Rightarrow> bytes option"
  value_to_str :: "bytes \<Rightarrow> bytes option"
  hm_empty :: 'h
  hm_append :: "HeaderName \<Rightarrow> bytes \<Rightarrow> 'h \<Rightarrow> 'h"
  hm_drain :: "'h \<Rightarrow> (HeaderName option \<times> bytes) list"
  status_as_str :: "nat \<Rightarrow> bytes"
  canonical_reason :: "nat \<Rightarrow> bytes option"
  itoa :: "nat \<Rightarrow> bytes"

section \<open>Context\<close>

definition EXPECT :: u8 where "EXPECT = 1"
definition CONNECT :: u8 where "CONNECT = 2"
definition HEAD :: u8 where "HEAD = 4"
definition CLOSE :: u8 where "CLOSE = 8"

definition cs_new :: u8 where
  "cs_new = 0"

definition cs_insert :: "u8 \<Rightarrow> u8 \<Rightarrow> u8" where
  "cs_insert s other = s OR other"

definition cs_remove :: "u8 \<Rightarrow> u8 \<Rightarrow> u8" where
  "cs_remove s other = s AND NOT other"

definition cs_contains :: "u8 \<Rightarrow> u8 \<Rightarrow> bool" where
  "cs_contains s other \<longleftrightarrow> s AND other = other"

text \<open>\<open>cx_exts\<close> is the cached extension map, an opaque list of entries; \<open>cx_date\<close> what the clock gives.\<close>

record 'h Context =
  cx_addr :: nat
  cx_state :: u8
  cx_header :: "'h option"
  cx_exts :: "nat list"
  cx_date :: bytes

definition with_addr :: "nat \<Rightarrow> bytes \<Rightarrow> 'h Context" where
  "with_addr addr d = \<lparr>cx_addr = addr, cx_state = cs_new, cx_header = None, cx_exts = [], cx_date = d\<rparr>"

definition take_headers :: "('h, 'u) h1_lib \<Rightarrow> 'h Context \<Rightarrow> 'h \<times> 'h Context" where
  "take_headers L cx =
     ((case cx_header cx of Some h \<Rightarrow> h | None \<Rightarrow> hm_empty L), cx\<lparr>cx_header := None\<rparr>)"

definition take_extensions :: "'h Context \<Rightarrow> nat list \<times> 'h Context" where
  "take_extensions cx = (cx_exts cx, cx\<lparr>cx_exts := []\<rparr>)"

definition replace_headers :: "'h \<Rightarrow> 'h Context \<Rightarrow> 'h Context" where
  "replace_headers h cx = cx\<lparr>cx_header := Some h\<rparr>"

definition replace_extensions :: "nat list \<Rightarrow> 'h Context \<Rightarrow> 'h Context" where
  "replace_extensions x cx = cx\<lparr>cx_exts := x\<rparr>"

definition cx_reset :: "'h Context \<Rightarrow> 'h Context" where
  "cx_reset cx = cx\<lparr>cx_state := cs_new\<rparr>"

definition set_expect_header :: "'h Context \<Rightarrow> 'h Context" where
  "set_expect_header cx = cx\<lparr>cx_state := cs_insert (cx_state cx) EXPECT\<rparr>"

definition set_connect_method :: "'h Context \<Rightarrow> 'h Context" where
  "set_connect_method cx = cx\<lparr>cx_state := cs_insert (cx_state cx) CONNECT\<rparr>"

definition set_head_method :: "'h Context \<Rightarrow> 'h Context" where
  "set_head_method cx = cx\<lparr>cx_state := cs_insert (cx_state cx) HEAD\<rparr>"

definition set_close :: "'h Context \<Rightarrow> 'h Context" where
  "set_close cx = cx\<lparr>cx_state := cs_insert (cx_state cx) CLOSE\<rparr>"

definition remove_close :: "'h Context \<Rightarrow> 'h Context" where
  "remove_close cx = cx\<lparr>cx_state := cs_remove (cx_state cx) CLOSE\<rparr>"

definition is_expect_header :: "'h Context \<Rightarrow> bool" where
  "is_expect_header cx = cs_contains (cx_state cx) EXPECT"

definition is_connect_method :: "'h Context \<Rightarrow> bool" where
  "is_connect_method cx = cs_contains (cx_state cx) CONNECT"

definition is_head_method :: "'h Context \<Rightarrow> bool" where
  "is_head_method cx = cs_contains (cx_state cx) HEAD"

definition is_connection_closed :: "'h Context \<Rightarrow> bool" where
  "is_connection_closed cx = cs_contains (cx_state cx) CLOSE"

section \<open>Header helpers\<close>

text \<open>\<open>u64::from_str\<close>: an optional plus sign and decimal digits that do not overflow.\<close>

fun parse_digits :: "nat \<Rightarrow> bytes \<Rightarrow> nat option" where
  "parse_digits n [] = Some n"
| "parse_digits n (b # bs) =
     (if 48 \<le> b \<and> b \<le> 57 then
        (case checked_mul n 10 of
           None \<Rightarrow> None
         | Some n \<Rightarrow> (case checked_add n (unat (b - 48)) of
             None \<Rightarrow> None
           | Some n \<Rightarrow> parse_digits n bs))
      else None)"

definition u64_from_str :: "bytes \<Rightarrow> nat option" where
  "u64_from_str bs =
     (case bs of
        [] \<Rightarrow> None
      | b # r \<Rightarrow> if b = 43 then (if r = [] then None else parse_digits 0 r) else parse_digits 0 (b # r))"

definition parse_content_length :: "('h, 'u) h1_lib \<Rightarrow> bytes \<Rightarrow> ProtoError + nat" where
  "parse_content_length L v =
     (case value_to_str L v of
        None \<Rightarrow> Inl PE_HeaderValue
      | Some s \<Rightarrow> (case u64_from_str s of None \<Rightarrow> Inl PE_HeaderValue | Some n \<Rightarrow> Inr n))"

text \<open>\<open>HeaderIndex::record\<close>: where each header is, as start and end offset; at most \<open>max_headers\<close> are kept.\<close>

record HeaderIndex =
  hi_name :: "nat \<times> nat"
  hi_value :: "nat \<times> nat"

definition record_indices :: "nat \<Rightarrow> ((nat \<times> nat) \<times> (nat \<times> nat)) list \<Rightarrow> HeaderIndex list" where
  "record_indices max_headers hs =
     map (\<lambda>((ns, nl), (vs, vl)). \<lparr>hi_name = (ns, ns + nl), hi_value = (vs, vs + vl)\<rparr>) (take max_headers hs)"

section \<open>The flags are independent\<close>

interpretation context_flags: bit_flags cs_insert cs_remove cs_contains "{EXPECT, CONNECT, HEAD, CLOSE}"
proof -
  have "cs_insert = (\<lambda>s f. s OR f)" "cs_remove = (\<lambda>s f. s AND NOT f)" "cs_contains = (\<lambda>s f. s AND f = f)"
    by (simp_all add: fun_eq_iff cs_insert_def cs_remove_def cs_contains_def)
  moreover have "bit_flags (\<lambda>s f. s OR f) (\<lambda>s f. s AND NOT f) (\<lambda>s f. s AND f = f)
      {EXPECT, CONNECT, HEAD, CLOSE}"
    by (rule bit_flags_of_masks) (auto simp: EXPECT_def CONNECT_def HEAD_def CLOSE_def)
  ultimately show "bit_flags cs_insert cs_remove cs_contains {EXPECT, CONNECT, HEAD, CLOSE}" by simp
qed

lemma context_flags_distinct [simp]:
  "EXPECT \<noteq> CONNECT" "EXPECT \<noteq> HEAD" "EXPECT \<noteq> CLOSE" "CONNECT \<noteq> EXPECT" "CONNECT \<noteq> HEAD" "CONNECT \<noteq> CLOSE"
  "HEAD \<noteq> EXPECT" "HEAD \<noteq> CONNECT" "HEAD \<noteq> CLOSE" "CLOSE \<noteq> EXPECT" "CLOSE \<noteq> CONNECT" "CLOSE \<noteq> HEAD"
  by (simp_all add: EXPECT_def CONNECT_def HEAD_def CLOSE_def)

named_theorems context_defs \<open>the queries and updates of the context\<close>

lemmas [context_defs] =
  set_expect_header_def set_connect_method_def set_head_method_def set_close_def remove_close_def
  cx_reset_def is_expect_header_def is_connect_method_def is_head_method_def is_connection_closed_def

lemma cs_new_contains [simp]:
  "\<not> cs_contains cs_new EXPECT" "\<not> cs_contains cs_new CONNECT" "\<not> cs_contains cs_new HEAD" "\<not> cs_contains cs_new CLOSE"
  by (simp_all add: cs_contains_def cs_new_def EXPECT_def CONNECT_def HEAD_def CLOSE_def)

lemma context_queries [simp]:
  "is_connection_closed (set_close cx)" "\<not> is_connection_closed (remove_close cx)" "\<not> is_connection_closed (cx_reset cx)"
  "is_connection_closed (set_expect_header cx) = is_connection_closed cx"
  "is_connection_closed (set_connect_method cx) = is_connection_closed cx"
  "is_connection_closed (set_head_method cx) = is_connection_closed cx"
  "is_connect_method (set_close cx) = is_connect_method cx" "is_connect_method (remove_close cx) = is_connect_method cx"
  "is_connect_method (set_expect_header cx) = is_connect_method cx" "is_connect_method (set_connect_method cx)"
  "is_connect_method (set_head_method cx) = is_connect_method cx" "\<not> is_connect_method (cx_reset cx)"
  "is_head_method (set_close cx) = is_head_method cx" "is_head_method (remove_close cx) = is_head_method cx"
  "is_head_method (set_expect_header cx) = is_head_method cx" "is_head_method (set_head_method cx)"
  "is_head_method (set_connect_method cx) = is_head_method cx" "\<not> is_head_method (cx_reset cx)"
  "is_expect_header (set_close cx) = is_expect_header cx" "is_expect_header (remove_close cx) = is_expect_header cx"
  "is_expect_header (set_expect_header cx)" "is_expect_header (set_head_method cx) = is_expect_header cx"
  "is_expect_header (set_connect_method cx) = is_expect_header cx" "\<not> is_expect_header (cx_reset cx)"
  by (simp_all add: context_defs context_flags.contains_insert context_flags.contains_remove)

text \<open>Updates of the state leave the caches alone.\<close>

lemma context_caches [simp]:
  "cx_header (set_close cx) = cx_header cx" "cx_header (remove_close cx) = cx_header cx"
  "cx_header (set_expect_header cx) = cx_header cx" "cx_exts (set_close cx) = cx_exts cx"
  "cx_exts (remove_close cx) = cx_exts cx" "cx_exts (set_expect_header cx) = cx_exts cx"
  "cx_date (set_close cx) = cx_date cx" "cx_date (remove_close cx) = cx_date cx"
  by (simp_all add: context_defs)

section \<open>Content-Length values\<close>

lemma parse_digits_bound: "parse_digits n bs = Some m \<Longrightarrow> n \<le> u64_max \<Longrightarrow> m \<le> u64_max"
  by (induction n bs rule: parse_digits.induct) (auto split: if_splits option.splits)

lemma parse_content_length_bound: "parse_content_length L v = Inr n \<Longrightarrow> n \<le> u64_max"
  by (auto simp: parse_content_length_def u64_from_str_def dest: parse_digits_bound
      split: option.splits list.splits if_splits)

end
