(* ===== verification/H1_Decode.thy ===== *)
theory H1_Decode
  imports H1_Codec H1_Context
begin

text \<open>
  Decoding a request head, \<open>http/src/h1/proto/decode.rs\<close>: the request line and the headers,
  the body coding they announce and the connection state they set. The theorems describe the
  result in terms of the headers alone: which body coding is taken, that two announcements
  which disagree are refused, and whether the connection is kept.
\<close>

section \<open>Model\<close>

record ('h, 'u) Request =
  rq_method :: Method
  rq_version :: Version
  rq_uri :: 'u
  rq_headers :: 'h
  rq_exts :: "nat list"
  rq_addr :: nat

definition set_close_token :: "bytes \<Rightarrow> 'h Context \<Rightarrow> 'h Context" where
  "set_close_token val cx =
     (let val = trim val in
      if eq_ignore_ascii_case val (ascii ''keep-alive'') then remove_close cx
      else if eq_ignore_ascii_case val (ascii ''close'') then set_close cx
      else cx)"

definition try_set_close_from_header ::
  "('h, 'u) h1_lib \<Rightarrow> bytes \<Rightarrow> 'h Context \<Rightarrow> (ProtoError fault + unit) \<times> 'h Context" where
  "try_set_close_from_header L val cx =
     (case value_to_str L val of
        None \<Rightarrow> (Inl (Err PE_HeaderValue), cx)
      | Some s \<Rightarrow> (Inr (), fold set_close_token (split_on 44 s) cx))"

definition is_chunked_token :: "bytes \<Rightarrow> bool" where
  "is_chunked_token val \<longleftrightarrow> eq_ignore_ascii_case (trim val) (ascii ''chunked'')"

text \<open>\<open>try_set\<close> with the error it reports.\<close>

definition set_coding :: "TransferCoding \<Rightarrow> TransferCoding \<Rightarrow> ProtoError fault + TransferCoding" where
  "set_coding d c = (case try_set d c of None \<Rightarrow> Inl (Err PE_HeaderName) | Some d \<Rightarrow> Inr d)"

fun set_chunked_tokens :: "TransferCoding \<Rightarrow> bytes list \<Rightarrow> ProtoError fault + TransferCoding" where
  "set_chunked_tokens d [] = Inr d"
| "set_chunked_tokens d (val # vals) =
     (if is_chunked_token val then
        (case set_coding d tc_decode_chunked of
           Inl e \<Rightarrow> Inl e
         | Inr d \<Rightarrow> set_chunked_tokens d vals)
      else set_chunked_tokens d vals)"

text \<open>\<open>slice[a..b]\<close>; \<open>None\<close> is the panic out of range.\<close>

definition slice_range :: "bytes \<Rightarrow> nat \<times> nat \<Rightarrow> bytes option" where
  "slice_range s r = (case r of (a, b) \<Rightarrow>
     if a \<le> b \<and> b \<le> length s then Some (take (b - a) (drop a s)) else None)"

definition read_header :: "('h, 'u) h1_lib \<Rightarrow> bytes \<Rightarrow> HeaderIndex \<Rightarrow> (HeaderName \<times> bytes) option" where
  "read_header L slc idx =
     (case slice_range slc (hi_name idx) of
        None \<Rightarrow> None
      | Some n \<Rightarrow> (case name_from_bytes L n of
          None \<Rightarrow> None
        | Some name \<Rightarrow> (case slice_range slc (hi_value idx) of
            None \<Rightarrow> None
          | Some v \<Rightarrow> (case value_from L v of
              None \<Rightarrow> None
            | Some v \<Rightarrow> Some (name, v)))))"

text \<open>The effect of one header on the body coding and the context.\<close>

definition header_effect ::
  "('h, 'u) h1_lib \<Rightarrow> Version \<Rightarrow> HeaderName \<Rightarrow> bytes \<Rightarrow> TransferCoding \<Rightarrow> 'h Context \<Rightarrow>
     (ProtoError fault + TransferCoding) \<times> 'h Context" where
  "header_effect L version name value d cx =
     (case name of
        TRANSFER_ENCODING \<Rightarrow>
          if version \<noteq> HTTP_11 then (Inl (Err PE_HeaderName), cx)
          else (case value_to_str L value of
              None \<Rightarrow> (Inl (Err PE_HeaderValue), cx)
            | Some s \<Rightarrow> (set_chunked_tokens d (split_on 44 s), cx))
      | CONTENT_LENGTH \<Rightarrow>
          (case parse_content_length L value of
             Inl e \<Rightarrow> (Inl (Err e), cx)
           | Inr len \<Rightarrow> (set_coding d (TC_Length len), cx))
      | CONNECTION \<Rightarrow>
          (case try_set_close_from_header L value cx of
             (Inl e, cx) \<Rightarrow> (Inl e, cx)
           | (Inr _, cx) \<Rightarrow> (Inr d, cx))
      | EXPECT_NAME \<Rightarrow>
          if \<not> eq_ignore_ascii_case value (ascii ''100-continue'') then (Inl (Err PE_HeaderValue), cx)
          else (Inr d, set_expect_header cx)
      | UPGRADE \<Rightarrow>
          if version \<noteq> HTTP_11 then (Inl (Err PE_HeaderName), cx)
          else (set_coding d TC_Upgrade, cx)
      | _ \<Rightarrow> (Inr d, cx))"

definition try_write_header ::
  "('h, 'u) h1_lib \<Rightarrow> 'h \<Rightarrow> TransferCoding \<Rightarrow> HeaderIndex \<Rightarrow> bytes \<Rightarrow> Version \<Rightarrow> 'h Context \<Rightarrow>
     (ProtoError fault + 'h \<times> TransferCoding) \<times> 'h Context" where
  "try_write_header L headers d idx slc version cx =
     (case read_header L slc idx of
        None \<Rightarrow> (Inl Panic, cx)
      | Some (name, value) \<Rightarrow>
          (case header_effect L version name value d cx of
             (Inl e, cx) \<Rightarrow> (Inl e, cx)
           | (Inr d, cx) \<Rightarrow> (Inr (hm_append L name value headers, d), cx)))"

fun write_headers ::
  "('h, 'u) h1_lib \<Rightarrow> bytes \<Rightarrow> Version \<Rightarrow> HeaderIndex list \<Rightarrow> 'h \<Rightarrow> TransferCoding \<Rightarrow> 'h Context \<Rightarrow>
     (ProtoError fault + 'h \<times> TransferCoding) \<times> 'h Context" where
  "write_headers L slc version [] headers d cx = (Inr (headers, d), cx)"
| "write_headers L slc version (idx # idxs) headers d cx =
     (case try_write_header L headers d idx slc version cx of
        (Inl e, cx) \<Rightarrow> (Inl e, cx)
      | (Inr (headers, d), cx) \<Rightarrow> write_headers L slc version idxs headers d cx)"

text \<open>The default coding and the flag a method sets, and the version with its flag.\<close>

definition method_coding :: "Method \<Rightarrow> 'h Context \<Rightarrow> TransferCoding \<times> 'h Context" where
  "method_coding m cx =
     (case m of
        M_CONNECT \<Rightarrow> (TC_Upgrade, set_connect_method cx)
      | M_HEAD \<Rightarrow> (TC_Eof, set_head_method cx)
      | _ \<Rightarrow> (TC_Eof, cx))"

definition request_version :: "nat \<Rightarrow> 'h Context \<Rightarrow> Version \<times> 'h Context" where
  "request_version v cx = (if v = 1 then (HTTP_11, cx) else (HTTP_10, set_close cx))"

definition decode_head ::
  "('h, 'u) h1_lib \<Rightarrow> nat \<Rightarrow> nat \<Rightarrow> bytes \<Rightarrow> 'h Context \<Rightarrow>
     (ProtoError fault + (('h, 'u) Request \<times> TransferCoding) option) \<times> 'h Context \<times> bytes" where
  "decode_head L max_headers read_buf_limit buf cx =
     (case parse_head L max_headers buf of
        Inl e \<Rightarrow> (Inl (Err (proto_error_from e)), cx, buf)
      | Inr None \<Rightarrow>
          (if length buf \<ge> read_buf_limit then Inl (Err PE_HeaderTooLarge) else Inr None, cx, buf)
      | Inr (Some ph) \<Rightarrow>
          let cx = cx_reset cx in
          (case method_from_bytes L (ph_method ph) of
             None \<Rightarrow> (Inl (Err PE_Method), cx, buf)
           | Some meth \<Rightarrow>
               let (d, cx) = method_coding meth cx;
                   (version, cx) = request_version (ph_version ph) cx;
                   idxs = record_indices max_headers (ph_headers ph)
               in if ph_len ph > length buf then (Inl Panic, cx, buf)
                  else
                    let slc = take (ph_len ph) buf; buf = drop (ph_len ph) buf
                    in (case slice_range slc (fst (ph_path ph), fst (ph_path ph) + snd (ph_path ph)) of
                          None \<Rightarrow> (Inl Panic, cx, buf)
                        | Some path \<Rightarrow>
                            (case uri_from L path of
                               None \<Rightarrow> (Inl (Err PE_Uri), cx, buf)
                             | Some uri \<Rightarrow>
                                 let (headers, cx) = take_headers L cx
                                 in (case write_headers L slc version idxs headers d cx of
                                       (Inl e, cx) \<Rightarrow> (Inl e, cx, buf)
                                     | (Inr (headers, d), cx) \<Rightarrow>
                                         let (exts, cx) = take_extensions cx
                                         in (Inr (Some (\<lparr>rq_method = meth, rq_version = version, rq_uri = uri,
                                               rq_headers = headers, rq_exts = exts, rq_addr = cx_addr cx\<rparr>, d)),
                                             cx, buf))))))"

section \<open>What the headers announce\<close>

text \<open>The body codings a header announces; a length of zero announces nothing.\<close>

definition announced :: "('h, 'u) h1_lib \<Rightarrow> HeaderName \<times> bytes \<Rightarrow> TransferCoding list" where
  "announced L h =
     (case h of
        (TRANSFER_ENCODING, v) \<Rightarrow>
          (case value_to_str L v of
             None \<Rightarrow> []
           | Some s \<Rightarrow> map (\<lambda>_. tc_decode_chunked) (filter is_chunked_token (split_on 44 s)))
      | (CONTENT_LENGTH, v) \<Rightarrow>
          (case parse_content_length L v of Inl _ \<Rightarrow> [] | Inr n \<Rightarrow> if n = 0 then [] else [TC_Length n])
      | (UPGRADE, v) \<Rightarrow> [TC_Upgrade]
      | _ \<Rightarrow> [])"

fun set_all :: "TransferCoding \<Rightarrow> TransferCoding list \<Rightarrow> TransferCoding option" where
  "set_all d [] = Some d"
| "set_all d (c # cs) = (case try_set d c of None \<Rightarrow> None | Some d \<Rightarrow> set_all d cs)"

lemma set_all_append: "set_all d (xs @ ys) = (case set_all d xs of None \<Rightarrow> None | Some d \<Rightarrow> set_all d ys)"
  by (induction d xs rule: set_all.induct) (auto split: option.splits)

lemma set_chunked_tokens_all:
  "set_chunked_tokens d vals = Inr d' \<Longrightarrow>
     set_all d (map (\<lambda>_. tc_decode_chunked) (filter is_chunked_token vals)) = Some d'"
  by (induction d vals rule: set_chunked_tokens.induct)
    (auto simp: set_coding_def split: if_splits option.splits)

lemma try_set_zero: "try_set d (TC_Length 0) = Some d"
  by (simp add: try_set_def)

lemma header_effect_announced:
  "header_effect L version name v d cx = (Inr d', cx') \<Longrightarrow> set_all d (announced L (name, v)) = Some d'"
  by (cases name)
    (auto simp: header_effect_def announced_def set_coding_def try_set_zero
      dest!: set_chunked_tokens_all split: if_splits option.splits sum.splits prod.splits)

text \<open>The headers of a head, read out of its bytes.\<close>

definition head_fields ::
  "('h, 'u) h1_lib \<Rightarrow> bytes \<Rightarrow> HeaderIndex list \<Rightarrow> (HeaderName \<times> bytes) list option" where
  "head_fields L slc idxs =
     (if \<forall>i\<in>set idxs. read_header L slc i \<noteq> None then Some (map (\<lambda>i. the (read_header L slc i)) idxs)
      else None)"

text \<open>Whether the connection closes: the last \<open>close\<close> or \<open>keep-alive\<close>, else the default.\<close>

definition close_vote :: "bytes \<Rightarrow> bool option" where
  "close_vote t =
     (if eq_ignore_ascii_case (trim t) (ascii ''keep-alive'') then Some False
      else if eq_ignore_ascii_case (trim t) (ascii ''close'') then Some True
      else None)"

definition connection_tokens :: "('h, 'u) h1_lib \<Rightarrow> HeaderName \<times> bytes \<Rightarrow> bytes list" where
  "connection_tokens L h =
     (case h of
        (CONNECTION, v) \<Rightarrow> (case value_to_str L v of None \<Rightarrow> [] | Some s \<Rightarrow> split_on 44 s)
      | _ \<Rightarrow> [])"

definition closes :: "bool \<Rightarrow> bytes list \<Rightarrow> bool" where
  "closes dflt ts =
     (case rev (List.map_filter close_vote ts) of [] \<Rightarrow> dflt | v # _ \<Rightarrow> v)"

lemma closes_Nil [simp]: "closes dflt [] = dflt"
  by (simp add: closes_def List.map_filter_def)

lemma closes_append: "closes dflt (xs @ ys) = closes (closes dflt xs) ys"
  by (auto simp: closes_def List.map_filter_def split: list.splits)

lemma fold_close_token:
  "is_connection_closed (fold set_close_token ts cx) = closes (is_connection_closed cx) ts"
proof (induction ts arbitrary: cx)
  case (Cons t ts)
  have "closes (is_connection_closed cx) [t] = is_connection_closed (set_close_token t cx)"
    by (auto simp: closes_def List.map_filter_def close_vote_def set_close_token_def Let_def)
  then show ?case using Cons closes_append [of _ "[t]" ts] by simp
qed simp

lemma header_effect_closed:
  "header_effect L version name v d cx = (Inr d', cx') \<Longrightarrow>
     is_connection_closed cx' = closes (is_connection_closed cx) (connection_tokens L (name, v))"
  by (cases name)
    (auto simp: header_effect_def connection_tokens_def try_set_close_from_header_def fold_close_token
      split: if_splits option.splits sum.splits prod.splits)

lemma write_headers_effect:
  assumes "write_headers L slc version idxs headers d cx = (Inr (headers', d'), cx')"
  shows "\<exists>fs. head_fields L slc idxs = Some fs \<and>
           set_all d (concat (map (announced L) fs)) = Some d' \<and>
           is_connection_closed cx' = closes (is_connection_closed cx) (concat (map (connection_tokens L) fs)) \<and>
           headers' = fold (\<lambda>(n, v). hm_append L n v) fs headers"
  using assms
proof (induction idxs arbitrary: headers d cx)
  case Nil
  then show ?case by (simp add: head_fields_def)
next
  case (Cons idx idxs)
  obtain name v where rd: "read_header L slc idx = Some (name, v)"
    using Cons.prems by (auto simp: try_write_header_def split: option.splits)
  obtain d1 cx1 where he: "header_effect L version name v d cx = (Inr d1, cx1)"
    using Cons.prems rd by (auto simp: try_write_header_def split: prod.splits sum.splits)
  then have "write_headers L slc version idxs (hm_append L name v headers) d1 cx1 = (Inr (headers', d'), cx')"
    using Cons.prems rd by (simp add: try_write_header_def)
  from Cons.IH [OF this] obtain fs where fs: "head_fields L slc idxs = Some fs"
    "set_all d1 (concat (map (announced L) fs)) = Some d'"
    "is_connection_closed cx' = closes (is_connection_closed cx1) (concat (map (connection_tokens L) fs))"
    "headers' = fold (\<lambda>(n, v). hm_append L n v) fs (hm_append L name v headers)" by blast
  have "head_fields L slc (idx # idxs) = Some ((name, v) # fs)"
    using fs(1) rd by (auto simp: head_fields_def split: if_splits)
  then show ?case using fs he header_effect_announced [OF he] header_effect_closed [OF he]
    by (simp add: set_all_append closes_append)
qed

text \<open>Only one coding can be announced, except that an upgrade may be announced more than once.\<close>

lemma set_all_upgrade: "set_all TC_Upgrade cs = Some d \<Longrightarrow> TC_Length 0 \<notin> set cs \<Longrightarrow> d = TC_Upgrade \<and> set cs \<subseteq> {TC_Upgrade}"
  by (induction cs) (auto simp: try_set_def split: if_splits)

lemma announced_nonzero: "TC_Length 0 \<notin> set (announced L h)"
  by (auto simp: announced_def tc_decode_chunked_def
      split: prod.splits HeaderName.splits option.splits sum.splits)

lemma announced_kind:
  "c \<in> set (announced L h) \<Longrightarrow> c = TC_Upgrade \<or> c = tc_decode_chunked \<or> (\<exists>n. c = TC_Length n \<and> 0 < n \<and> n \<le> u64_max)"
proof (cases h)
  case (Pair name v)
  then show "c \<in> set (announced L h) \<Longrightarrow> ?thesis"
    by (cases name) (auto simp: announced_def dest: parse_content_length_bound [OF sym]
        split: option.splits sum.splits if_splits)
qed

lemma set_all_eof:
  assumes "set_all TC_Eof cs = Some d"
    and "\<And>c. c \<in> set cs \<Longrightarrow> c = TC_Upgrade \<or> c = tc_decode_chunked \<or> (\<exists>n. c = TC_Length n \<and> 0 < n)"
  shows "(cs = [] \<and> d = TC_Eof) \<or> cs = [d] \<or> (d = TC_Upgrade \<and> set cs = {TC_Upgrade})"
proof (cases cs)
  case Nil
  then show ?thesis using assms by simp
next
  case (Cons c cs')
  have rest: "TC_Length 0 \<notin> set cs'" using assms(2) Cons by (auto simp: tc_decode_chunked_def)
  have c: "c = TC_Upgrade \<or> c = tc_decode_chunked \<or> (\<exists>n. c = TC_Length n \<and> 0 < n)" using assms(2) Cons by auto
  then have "set_all c cs' = Some d" using assms(1) Cons by (auto simp: try_set_def tc_decode_chunked_def)
  moreover have "cs' = [] \<and> d = c" if "c \<noteq> TC_Upgrade" "set_all c cs' = Some d"
    using that c rest by (cases cs') (auto simp: try_set_def tc_decode_chunked_def split: if_splits)
  ultimately show ?thesis using set_all_upgrade [OF _ rest, of d] Cons by auto
qed

section \<open>Decoding a head\<close>

lemma decode_head_complete:
  assumes "decode_head L mh lim buf cx = (Inr (Some (req, d)), cx', buf')"
  shows "\<exists>ph meth fs. parse_head L mh buf = Inr (Some ph) \<and> method_from_bytes L (ph_method ph) = Some meth \<and>
           ph_len ph \<le> length buf \<and> buf' = drop (ph_len ph) buf \<and>
           head_fields L (take (ph_len ph) buf) (record_indices mh (ph_headers ph)) = Some fs \<and>
           set_all (if meth = M_CONNECT then TC_Upgrade else TC_Eof) (concat (map (announced L) fs)) = Some d \<and>
           is_connection_closed cx' = closes (ph_version ph \<noteq> 1) (concat (map (connection_tokens L) fs)) \<and>
           rq_method req = meth \<and> rq_version req = (if ph_version ph = 1 then HTTP_11 else HTTP_10) \<and>
           rq_headers req = fold (\<lambda>(n, v). hm_append L n v) fs
             (case cx_header cx of Some h \<Rightarrow> h | None \<Rightarrow> hm_empty L)"
proof -
  obtain ph where ph: "parse_head L mh buf = Inr (Some ph)"
    using assms by (auto simp: decode_head_def split: sum.splits option.splits if_splits)
  obtain meth where meth: "method_from_bytes L (ph_method ph) = Some meth"
    using assms ph by (cases "method_from_bytes L (ph_method ph)") (auto simp: decode_head_def Let_def)
  obtain d0 cx1 where mc: "method_coding meth (cx_reset cx) = (d0, cx1)" by (cases "method_coding meth (cx_reset cx)")
  obtain ver cx2 where rv: "request_version (ph_version ph) cx1 = (ver, cx2)" by (cases "request_version (ph_version ph) cx1")
  obtain hd0 cx3 where th: "take_headers L cx2 = (hd0, cx3)" by (cases "take_headers L cx2")
  obtain hs cx4 where wr: "write_headers L (take (ph_len ph) buf) ver (record_indices mh (ph_headers ph)) hd0 d0 cx3
      = (Inr (hs, d), cx4)" and len: "ph_len ph \<le> length buf"
    and res: "rq_method req = meth" "rq_version req = ver" "rq_headers req = hs" "buf' = drop (ph_len ph) buf"
      "cx' = cx4\<lparr>cx_exts := []\<rparr>"
    using assms ph meth mc rv th
    by (auto simp: decode_head_def Let_def take_extensions_def split: if_splits option.splits prod.splits sum.splits)
  have cx3: "is_connection_closed cx3 = (ph_version ph \<noteq> 1)" and d0: "d0 = (if meth = M_CONNECT then TC_Upgrade else TC_Eof)"
    and ver: "ver = (if ph_version ph = 1 then HTTP_11 else HTTP_10)"
    and hd0: "hd0 = (case cx_header cx of Some h \<Rightarrow> h | None \<Rightarrow> hm_empty L)"
    using mc rv th
    by (auto simp: method_coding_def request_version_def take_headers_def context_defs context_flags.contains_insert
        split: Method.splits if_splits)
  have "is_connection_closed cx' = is_connection_closed cx4" using res(5) by (simp add: is_connection_closed_def)
  then show ?thesis using write_headers_effect [OF wr] ph meth len res cx3 d0 ver hd0 by auto
qed

text \<open>
  What the parser documents: its results are slices of the head. Names and values it reports may still be refused by
  the header types, for instance a name that is too long.
\<close>

definition positions_ok :: "('h, 'u) h1_lib \<Rightarrow> bool" where
  "positions_ok L \<longleftrightarrow>
     (\<forall>mh buf ph. parse_head L mh buf = Inr (Some ph) \<longrightarrow>
        ph_len ph \<le> length buf \<and> fst (ph_path ph) + snd (ph_path ph) \<le> ph_len ph \<and>
        (\<forall>((ns, nl), (vs, vl)) \<in> set (ph_headers ph). ns + nl \<le> ph_len ph \<and> vs + vl \<le> ph_len ph))"

definition refused :: "('h, 'u) h1_lib \<Rightarrow> bytes \<Rightarrow> (nat \<times> nat) \<times> (nat \<times> nat) \<Rightarrow> bool" where
  "refused L buf h = (case h of ((ns, nl), (vs, vl)) \<Rightarrow>
     name_from_bytes L (take nl (drop ns buf)) = None \<or> value_from L (take vl (drop vs buf)) = None)"

lemma set_chunked_no_panic: "set_chunked_tokens d vals \<noteq> Inl Panic"
  by (induction d vals rule: set_chunked_tokens.induct) (auto simp: set_coding_def split: option.splits)

lemma header_effect_no_panic: "fst (header_effect L version name v d cx) \<noteq> Inl Panic"
  by (cases name)
    (auto simp: header_effect_def set_coding_def set_chunked_no_panic try_set_close_from_header_def
      split: option.splits sum.splits)

lemma write_headers_no_panic:
  "\<forall>i\<in>set idxs. read_header L slc i \<noteq> None \<Longrightarrow> fst (write_headers L slc version idxs headers d cx) \<noteq> Inl Panic"
proof (induction idxs arbitrary: headers d cx)
  case (Cons idx idxs)
  obtain name v where rd: "read_header L slc idx = Some (name, v)" using Cons.prems by auto
  obtain r cx1 where he: "header_effect L version name v d cx = (r, cx1)"
    by (cases "header_effect L version name v d cx")
  then have "r \<noteq> Inl Panic" using header_effect_no_panic by (metis fst_conv)
  then show ?case using Cons.IH Cons.prems rd he by (cases r) (auto simp: try_write_header_def)
qed simp

lemma read_header_refused:
  assumes "ns + nl \<le> n" "vs + vl \<le> n" "n \<le> length buf"
  shows "read_header L (take n buf) \<lparr>hi_name = (ns, ns + nl), hi_value = (vs, vs + vl)\<rparr> = None \<longleftrightarrow>
    refused L buf ((ns, nl), (vs, vl))"
proof -
  have "take nl (drop ns (take n buf)) = take nl (drop ns buf)" "take vl (drop vs (take n buf)) = take vl (drop vs buf)"
    using assms(1,2) by (simp_all add: drop_take min_def)
  then show ?thesis using assms by (auto simp: read_header_def slice_range_def refused_def split: option.splits)
qed

lemma positions_okD:
  assumes "positions_ok L" and "parse_head L mh buf = Inr (Some ph)"
  shows "ph_len ph \<le> length buf" "slice_range (take (ph_len ph) buf) (fst (ph_path ph), fst (ph_path ph) + snd (ph_path ph)) =
      Some (take (snd (ph_path ph)) (drop (fst (ph_path ph)) (take (ph_len ph) buf)))"
    and "((ns, nl), (vs, vl)) \<in> set (ph_headers ph) \<Longrightarrow> ns + nl \<le> ph_len ph \<and> vs + vl \<le> ph_len ph"
proof -
  from assms have *: "ph_len ph \<le> length buf \<and> fst (ph_path ph) + snd (ph_path ph) \<le> ph_len ph \<and>
        (\<forall>((ns, nl), (vs, vl)) \<in> set (ph_headers ph). ns + nl \<le> ph_len ph \<and> vs + vl \<le> ph_len ph)"
    unfolding positions_ok_def by blast
  then show "ph_len ph \<le> length buf" "slice_range (take (ph_len ph) buf) (fst (ph_path ph), fst (ph_path ph) + snd (ph_path ph)) =
      Some (take (snd (ph_path ph)) (drop (fst (ph_path ph)) (take (ph_len ph) buf)))"
    by (auto simp: slice_range_def)
  show "((ns, nl), (vs, vl)) \<in> set (ph_headers ph) \<Longrightarrow> ns + nl \<le> ph_len ph \<and> vs + vl \<le> ph_len ph" using * by fastforce
qed

lemma decode_head_no_panic:
  assumes "positions_ok L" and "fst (decode_head L mh lim buf cx) = Inl Panic"
  shows "\<exists>ph. parse_head L mh buf = Inr (Some ph) \<and> (\<exists>h\<in>set (take mh (ph_headers ph)). refused L buf h)"
proof -
  obtain ph meth where ph: "parse_head L mh buf = Inr (Some ph)"
    and meth: "method_from_bytes L (ph_method ph) = Some meth"
    using assms(2) by (auto simp: decode_head_def Let_def split: sum.splits option.splits if_splits)
  note ok = positions_okD [OF assms(1) ph]
  have "\<exists>i\<in>set (record_indices mh (ph_headers ph)). read_header L (take (ph_len ph) buf) i = None"
  proof (rule ccontr)
    assume "\<not> ?thesis"
    then have wr: "fst (write_headers L (take (ph_len ph) buf) v (record_indices mh (ph_headers ph)) hs d c) \<noteq> Inl Panic" for v hs d c
      by (intro write_headers_no_panic) auto
    show False using assms(2) ph meth ok(1,2) wr
      by (auto simp: decode_head_def Let_def split: option.splits prod.splits sum.splits) (metis fst_conv)+
  qed
  then obtain ns nl vs vl where h: "((ns, nl), (vs, vl)) \<in> set (take mh (ph_headers ph))"
    and i: "read_header L (take (ph_len ph) buf) \<lparr>hi_name = (ns, ns + nl), hi_value = (vs, vs + vl)\<rparr> = None"
    by (auto simp: record_indices_def)
  have "refused L buf ((ns, nl), (vs, vl))"
    using i ok(1,3) in_set_takeD [OF h] by (subst (asm) read_header_refused) blast+
  with h ph show ?thesis by blast
qed

lemma decode_head_first_refused:
  assumes "positions_ok L" and "parse_head L mh buf = Inr (Some ph)" and "take mh (ph_headers ph) = h # hs" and "refused L buf h"
    and "method_from_bytes L (ph_method ph) \<noteq> None"
    and "uri_from L (take (snd (ph_path ph)) (drop (fst (ph_path ph)) (take (ph_len ph) buf))) \<noteq> None"
  shows "fst (decode_head L mh lim buf cx) = Inl Panic"
proof -
  note ok = positions_okD [OF assms(1,2)]
  obtain ns nl vs vl where h: "h = ((ns, nl), (vs, vl))" by (metis surj_pair)
  have "h \<in> set (ph_headers ph)" using assms(3) by (metis in_set_takeD list.set_intros(1))
  then have "read_header L (take (ph_len ph) buf) \<lparr>hi_name = (ns, ns + nl), hi_value = (vs, vs + vl)\<rparr> = None"
    using ok(1,3) assms(4) unfolding h by (subst read_header_refused) blast+
  then have wr: "write_headers L (take (ph_len ph) buf) v (record_indices mh (ph_headers ph)) hm d c = (Inl Panic, c)" for v hm d c
    using assms(3) by (simp add: record_indices_def h try_write_header_def)
  show ?thesis using assms(2,5,6) ok(1,2) wr
    by (auto simp: decode_head_def Let_def split: option.splits prod.splits)
qed

section \<open>Properties\<close>

text \<open>
  C2: The framing of a request body is unambiguous. A head that is accepted is split off the buffer; its header
  lines announce no coding and the request has no body, or exactly one coding and that is the decoder the body
  gets, or only (repeated) upgrades; two different or two equal body codings are refused. The connection is
  marked for closing as the version and the last decisive token of the \<open>Connection\<close> headers say.
\<close>

theorem request_framing_unambiguous:
  assumes "decode_head L mh lim buf cx = (Inr (Some (req, d)), cx', buf')" and "rq_method req \<noteq> M_CONNECT"
  shows "\<exists>ph fs. parse_head L mh buf = Inr (Some ph) \<and> buf = take (ph_len ph) buf @ buf' \<and>
    head_fields L (take (ph_len ph) buf) (record_indices mh (ph_headers ph)) = Some fs \<and>
    ((concat (map (announced L) fs) = [] \<and> d = TC_Eof) \<or> concat (map (announced L) fs) = [d] \<or>
      (d = TC_Upgrade \<and> set (concat (map (announced L) fs)) = {TC_Upgrade})) \<and>
    is_connection_closed cx' = closes (ph_version ph \<noteq> 1) (concat (map (connection_tokens L) fs))"
proof -
  obtain ph meth fs where h: "parse_head L mh buf = Inr (Some ph)" "buf' = drop (ph_len ph) buf"
    "head_fields L (take (ph_len ph) buf) (record_indices mh (ph_headers ph)) = Some fs"
    "set_all (if meth = M_CONNECT then TC_Upgrade else TC_Eof) (concat (map (announced L) fs)) = Some d"
    "is_connection_closed cx' = closes (ph_version ph \<noteq> 1) (concat (map (connection_tokens L) fs))"
    "rq_method req = meth"
    using decode_head_complete [OF assms(1)] by blast
  define cs where "cs = concat (map (announced L) fs)"
  have "set_all TC_Eof cs = Some d" using h(4,6) assms(2) by (simp add: cs_def)
  moreover have "c = TC_Upgrade \<or> c = tc_decode_chunked \<or> (\<exists>n. c = TC_Length n \<and> 0 < n)" if "c \<in> set cs" for c
    using that announced_kind unfolding cs_def by fastforce
  ultimately have "(cs = [] \<and> d = TC_Eof) \<or> cs = [d] \<or> (d = TC_Upgrade \<and> set cs = {TC_Upgrade})"
    by (rule set_all_eof)
  moreover have "buf = take (ph_len ph) buf @ buf'" using h(2) by simp
  ultimately show ?thesis unfolding cs_def using h(1,3,5) by blast
qed

text \<open>A library whose parser knows one request head.\<close>

definition one_request :: "bytes \<Rightarrow> parsed_head \<Rightarrow> ((HeaderName \<times> bytes) list, bytes) h1_lib" where
  "one_request known ph = \<lparr>
     parse_head = (\<lambda>_ buf. if take (length known) buf = known then Inr (Some ph) else Inr None),
     method_from_bytes = (\<lambda>b. Some (M_Other b)), uri_from = Some,
     name_from_bytes = (\<lambda>b. Some (if b = ascii ''te'' then TRANSFER_ENCODING else if b = ascii ''ex'' then EXPECT_NAME else OtherName b)),
     name_as_str = (\<lambda>n. case n of TRANSFER_ENCODING \<Rightarrow> ascii ''te'' | EXPECT_NAME \<Rightarrow> ascii ''ex'' | OtherName b \<Rightarrow> b | _ \<Rightarrow> ascii ''x''),
     value_from = Some, value_to_str = Some,
     hm_empty = [], hm_append = (\<lambda>n v h. h @ [(n, v)]), hm_drain = map (\<lambda>(n, v). (Some n, v)),
     status_as_str = (\<lambda>_. ascii ''200''), canonical_reason = (\<lambda>_. None), itoa = (\<lambda>n. replicate n 49)\<rparr>"

definition chunked_request :: "((HeaderName \<times> bytes) list, bytes) h1_lib" where
  "chunked_request = one_request (ascii ''P / te:chunked;'')
     \<lparr>ph_len = 15, ph_method = ascii ''P'', ph_version = 1, ph_path = (2, 1), ph_headers = [((4, 2), (7, 7))]\<rparr>"

lemma chunked_request_decoded:
  "\<exists>req cx'. decode_head chunked_request 8 64 (ascii ''P / te:chunked;12'') (with_addr 0 []) =
     (Inr (Some (req, tc_decode_chunked)), cx', ascii ''12'') \<and> rq_method req \<noteq> M_CONNECT"
  by (simp add: decode_head_def chunked_request_def one_request_def ascii_def method_coding_def request_version_def
      record_indices_def slice_range_def take_headers_def take_extensions_def with_addr_def try_write_header_def
      read_header_def header_effect_def set_coding_def is_chunked_token_def trim_def is_space_def
      eq_ignore_ascii_case_def ascii_lower_def try_set_def tc_decode_chunked_def Let_def)

theorem request_framing_unambiguous_witness:
  "\<exists>req cx' (ph :: parsed_head) fs. decode_head chunked_request 8 64 (ascii ''P / te:chunked;12'') (with_addr 0 []) =
       (Inr (Some (req, tc_decode_chunked)), cx', ascii ''12'') \<and>
     head_fields chunked_request (take (ph_len ph) (ascii ''P / te:chunked;12'')) (record_indices 8 (ph_headers ph)) = Some fs"
proof -
  obtain req cx' where d: "decode_head chunked_request 8 64 (ascii ''P / te:chunked;12'') (with_addr 0 []) =
     (Inr (Some (req, tc_decode_chunked)), cx', ascii ''12'')" "rq_method req \<noteq> M_CONNECT"
    using chunked_request_decoded by blast
  obtain ph :: parsed_head and fs where
    "head_fields chunked_request (take (ph_len ph) (ascii ''P / te:chunked;12'')) (record_indices 8 (ph_headers ph)) = Some fs"
    using request_framing_unambiguous [OF d] by (elim exE conjE) (erule that)
  with d(1) show ?thesis by (intro exI conjI)
qed

text \<open>
  C28: Decoding a request head panics for one reason only: a header name or value that the parser reported is refused by
  the header types, whose error is unwrapped. And this does happen whenever the first header is refused and method and
  target are accepted. The parser is only trusted to report positions inside the head.
\<close>

theorem decode_head_panics:
  assumes "positions_ok L"
  shows "(fst (decode_head L mh lim buf cx) = Inl Panic \<longrightarrow>
      (\<exists>ph. parse_head L mh buf = Inr (Some ph) \<and> (\<exists>h\<in>set (take mh (ph_headers ph)). refused L buf h))) \<and>
    (\<forall>ph h hs. parse_head L mh buf = Inr (Some ph) \<and> take mh (ph_headers ph) = h # hs \<and> refused L buf h \<and>
      method_from_bytes L (ph_method ph) \<noteq> None \<and>
      uri_from L (take (snd (ph_path ph)) (drop (fst (ph_path ph)) (take (ph_len ph) buf))) \<noteq> None \<longrightarrow>
      fst (decode_head L mh lim buf cx) = Inl Panic)"
  using decode_head_no_panic [OF assms] decode_head_first_refused [OF assms] by blast

text \<open>The library with the one request, and the same with a limit of one byte for header names.\<close>

lemma chunked_request_positions:
  "positions_ok chunked_request" "positions_ok (chunked_request\<lparr>name_from_bytes := (\<lambda>b. if length b > 1 then None else Some (OtherName b))\<rparr>)"
proof -
  have len: "length (ascii ''P / te:chunked;'') = 15" by (simp add: ascii_def)
  have "15 \<le> length buf" if "take 15 buf = ascii ''P / te:chunked;''" for buf :: bytes
    using arg_cong [OF that, of length] len by simp
  then show "positions_ok chunked_request"
    "positions_ok (chunked_request\<lparr>name_from_bytes := (\<lambda>b. if length b > 1 then None else Some (OtherName b))\<rparr>)"
    by (auto simp: positions_ok_def chunked_request_def one_request_def len split: if_splits)
qed

theorem decode_head_panics_witness:
  "fst (decode_head chunked_request 8 64 (ascii ''P / te:chunked;'') (with_addr 0 [])) \<noteq> Inl Panic \<and>
   fst (decode_head (chunked_request\<lparr>name_from_bytes := (\<lambda>b. if length b > 1 then None else Some (OtherName b))\<rparr>) 8 64
     (ascii ''P / te:chunked;'') (with_addr 0 [])) = Inl Panic"
proof -
  let ?b = "ascii ''P / te:chunked;''" and ?L = "chunked_request\<lparr>name_from_bytes := (\<lambda>b. if length b > 1 then None else Some (OtherName b))\<rparr>"
  obtain ph :: parsed_head where p: "parse_head chunked_request 8 ?b = Inr (Some ph)" "ph_headers ph = [((4, 2), (7, 7))]"
    by (simp add: chunked_request_def one_request_def ascii_def)
  have "refused ?L ?b ((4, 2), (7, 7))" "\<not> refused chunked_request ?b ((4, 2), (7, 7))"
    "method_from_bytes chunked_request m \<noteq> None" "uri_from chunked_request m \<noteq> None" for m
    by (simp_all add: chunked_request_def one_request_def refused_def ascii_def)
  then show ?thesis
    using decode_head_panics [OF chunked_request_positions(1), of 8 64 ?b "with_addr 0 []"]
      decode_head_panics [OF chunked_request_positions(2), of 8 64 ?b "with_addr 0 []"] p by auto
qed

end
