(* ===== verification/H1_Encode.thy ===== *)
theory H1_Encode
  imports H1_Write H1_Decode
begin

text \<open>
  Encoding a response head, \<open>http/src/h1/proto/encode.rs\<close>: the status line, the headers of the
  response, and the framing, connection and date headers the server adds. The encoder of the
  body is chosen together with the header that announces it.
\<close>

section \<open>Model\<close>

datatype BodySize = BS_None | BS_Sized nat | BS_Stream

text \<open>\<open>Stream::size_hint\<close> is the pair of a lower and an upper bound; this one marks a missing body.\<close>

definition NONE_BODY_HINT :: "nat \<times> nat option" where
  "NONE_BODY_HINT = (u64_max, Some 0)"

definition from_stream :: "nat \<times> nat option \<Rightarrow> BodySize" where
  "from_stream hint =
     (if hint = NONE_BODY_HINT then BS_None
      else (case snd hint of Some n \<Rightarrow> BS_Sized n | None \<Rightarrow> BS_Stream))"

record 'h Parts =
  pt_headers :: 'h
  pt_exts :: "nat list"
  pt_version :: Version
  pt_status :: nat

definition encode_version_status_reason :: "('h, 'u) h1_lib \<Rightarrow> Version \<Rightarrow> nat \<Rightarrow> bytes \<Rightarrow> bytes" where
  "encode_version_status_reason L version status buf =
     (if version = HTTP_11 \<and> status = 200 then buf @ ascii ''HTTP/1.1 200 OK''
      else
        buf @ (case version of
            HTTP_11 \<Rightarrow> ascii ''HTTP/1.1 ''
          | HTTP_10 \<Rightarrow> ascii ''HTTP/1.0 ''
          | _ \<Rightarrow> ascii ''HTTP/1.1 '')
        @ status_as_str L status @ ascii '' ''
        @ (case canonical_reason L status of Some r \<Rightarrow> r | None \<Rightarrow> ascii ''<none>''))"

text \<open>The local variables of \<open>encode_headers\<close>.\<close>

record 'h enc_state =
  es_name :: HeaderName
  es_enc :: TransferCoding
  es_skip_date :: bool
  es_skip_ct_te :: bool
  es_cx :: "'h Context"
  es_buf :: bytes

text \<open>What a header does to them before it is written: \<open>Inr True\<close> writes it, \<open>Inr False\<close> skips it.\<close>

definition enc_effect ::
  "('h, 'u) h1_lib \<Rightarrow> bytes \<Rightarrow> 'h enc_state \<Rightarrow> (ProtoError fault + bool) \<times> 'h enc_state" where
  "enc_effect L value st =
     (case es_name st of
        CONNECTION \<Rightarrow>
          if is_connection_closed (es_cx st) then (Inr False, st)
          else (case try_set_close_from_header L value (es_cx st) of
              (Inl e, cx) \<Rightarrow> (Inl e, st\<lparr>es_cx := cx\<rparr>)
            | (Inr _, cx) \<Rightarrow> (Inr True, st\<lparr>es_cx := cx\<rparr>))
      | UPGRADE \<Rightarrow> (Inr True, st\<lparr>es_enc := TC_Upgrade\<rparr>)
      | DATE \<Rightarrow> (Inr True, st\<lparr>es_skip_date := True\<rparr>)
      | CONTENT_LENGTH \<Rightarrow>
          (case parse_content_length L value of
             Inl e \<Rightarrow> (Inl (Err e), st)
           | Inr n \<Rightarrow> (Inr True, st\<lparr>es_enc := TC_Length n, es_skip_ct_te := True\<rparr>))
      | TRANSFER_ENCODING \<Rightarrow>
          (case value_to_str L value of
             None \<Rightarrow> (Inl (Err PE_HeaderValue), st)
           | Some s \<Rightarrow> (Inr True, fold (\<lambda>val st. if is_chunked_token val
               then st\<lparr>es_enc := EncodeChunked, es_skip_ct_te := True\<rparr> else st) (split_on 44 s) st))
      | _ \<Rightarrow> (Inr True, st))"

definition write_field :: "('h, 'u) h1_lib \<Rightarrow> bool \<Rightarrow> bytes \<Rightarrow> 'h enc_state \<Rightarrow> 'h enc_state" where
  "write_field L multi value st =
     (if multi then st\<lparr>es_buf := es_buf st @ ascii '', '' @ value\<rparr>
      else st\<lparr>es_buf := es_buf st @ CRLF @ name_as_str L (es_name st) @ ascii '': '' @ value\<rparr>)"

fun enc_loop ::
  "('h, 'u) h1_lib \<Rightarrow> (HeaderName option \<times> bytes) list \<Rightarrow> 'h enc_state \<Rightarrow> (ProtoError fault + unit) \<times> 'h enc_state" where
  "enc_loop L [] st = (Inr (), st)"
| "enc_loop L ((next_name, value) # hs) st =
     (let st = (case next_name of Some n \<Rightarrow> st\<lparr>es_name := n\<rparr> | None \<Rightarrow> st);
          multi = (next_name = None)
      in case enc_effect L value st of
           (Inl e, st) \<Rightarrow> (Inl e, st)
         | (Inr False, st) \<Rightarrow> enc_loop L hs st
         | (Inr True, st) \<Rightarrow> enc_loop L hs (write_field L (multi \<and> es_name st \<noteq> SET_COOKIE) value st))"

definition CHUNKED_HEADER :: bytes where
  "CHUNKED_HEADER = CRLF @ ascii ''transfer-encoding: chunked''"

definition CLOSE_HEADER :: bytes where
  "CLOSE_HEADER = CRLF @ ascii ''connection: close''"

definition write_length_header :: "('h, 'u) h1_lib \<Rightarrow> nat \<Rightarrow> bytes \<Rightarrow> bytes" where
  "write_length_header L n buf = buf @ CRLF @ ascii ''content-length: '' @ itoa L n"

definition try_remove_body ::
  "('h, 'u) h1_lib \<Rightarrow> bool \<Rightarrow> BodySize \<Rightarrow> bytes \<Rightarrow> TransferCoding \<times> bytes" where
  "try_remove_body L skip_ct_te bsize buf =
     (TC_Eof,
      case bsize of
        BS_None \<Rightarrow> buf
      | BS_Stream \<Rightarrow> if \<not> skip_ct_te then buf @ CHUNKED_HEADER else buf
      | BS_Sized n \<Rightarrow> if \<not> skip_ct_te then write_length_header L n buf else buf)"

text \<open>The framing that follows from the size of the body.\<close>

definition write_framing ::
  "('h, 'u) h1_lib \<Rightarrow> BodySize \<Rightarrow> bytes \<Rightarrow> TransferCoding \<times> bytes" where
  "write_framing L bsize buf =
     (case bsize of
        BS_None \<Rightarrow> (TC_Eof, buf)
      | BS_Stream \<Rightarrow> (EncodeChunked, buf @ CHUNKED_HEADER)
      | BS_Sized n \<Rightarrow> (TC_Length n, write_length_header L n buf))"

text \<open>The end of \<open>encode_headers\<close>: framing, connection and date headers and the empty line.\<close>

definition finish_headers :: "('h, 'u) h1_lib \<Rightarrow> BodySize \<Rightarrow> 'h enc_state \<Rightarrow> TransferCoding \<times> bytes" where
  "finish_headers L bsize st =
     (let cx = es_cx st;
          (enc, buf) =
            (if is_head_method cx then try_remove_body L (es_skip_ct_te st) bsize (es_buf st)
             else if \<not> es_skip_ct_te st then write_framing L bsize (es_buf st)
             else (es_enc st, es_buf st));
          buf = (if is_connection_closed cx then buf @ CLOSE_HEADER else buf);
          buf = (if \<not> es_skip_date st then buf @ CRLF @ ascii ''date: '' @ cx_date cx else buf)
      in (enc, buf @ CRLF @ CRLF))"

definition encode_headers ::
  "('h, 'u) h1_lib \<Rightarrow> 'h \<Rightarrow> BodySize \<Rightarrow> bytes \<Rightarrow> bool \<Rightarrow> 'h Context \<Rightarrow>
     (ProtoError fault + TransferCoding) \<times> 'h Context \<times> bytes" where
  "encode_headers L headers bsize buf skip_ct_te cx =
     (case enc_loop L (hm_drain L headers)
        \<lparr>es_name = TE, es_enc = TC_Eof, es_skip_date = False, es_skip_ct_te = skip_ct_te, es_cx = cx, es_buf = buf\<rparr> of
        (Inl e, st) \<Rightarrow> (Inl e, es_cx st, es_buf st)
      | (Inr _, st) \<Rightarrow> (case finish_headers L bsize st of (enc, buf) \<Rightarrow> (Inr enc, es_cx st, buf)))"

definition is_success :: "nat \<Rightarrow> bool" where
  "is_success s \<longleftrightarrow> 200 \<le> s \<and> s < 300"

definition is_informational :: "nat \<Rightarrow> bool" where
  "is_informational s \<longleftrightarrow> 100 \<le> s \<and> s < 200"

text \<open>\<open>None\<close>: the status cannot be answered with.\<close>

definition skip_framing :: "'h Context \<Rightarrow> nat \<Rightarrow> bool option" where
  "skip_framing cx status =
     (if status = 101 then Some True
      else if is_connect_method cx \<and> is_success status then Some True
      else if is_informational status then None
      else Some False)"

definition encode_head_inner ::
  "('h, 'u) h1_lib \<Rightarrow> 'h Parts \<Rightarrow> nat \<times> nat option \<Rightarrow> 'h Context \<Rightarrow> bytes \<Rightarrow>
     (ProtoError fault + TransferCoding) \<times> 'h Context \<times> bytes" where
  "encode_head_inner L parts hint cx buf =
     (case skip_framing cx (pt_status parts) of
        None \<Rightarrow> (Inl (Err PE_Status), cx, buf)
      | Some skip_ct_te \<Rightarrow>
          let buf = encode_version_status_reason L (pt_version parts) (pt_status parts) buf;
              bsize = from_stream hint
          in (case encode_headers L (pt_headers parts) bsize buf skip_ct_te cx of
                (Inl e, cx, buf) \<Rightarrow> (Inl e, cx, buf)
              | (Inr enc, cx, buf) \<Rightarrow>
                  (Inr enc, replace_extensions [] (replace_headers (hm_empty L) cx), buf)))"

text \<open>
  \<open>encode_head\<close> through a write buffer. The closure also changes the context, which therefore
  travels with its result.
\<close>

definition head_writer ::
  "('h, 'u) h1_lib \<Rightarrow> 'h Parts \<Rightarrow> nat \<times> nat option \<Rightarrow> 'h Context \<Rightarrow> bytes \<Rightarrow>
     ((ProtoError \<times> 'h Context) fault + TransferCoding \<times> 'h Context) \<times> bytes" where
  "head_writer L parts hint cx buf =
     (case encode_head_inner L parts hint cx buf of
        (Inr enc, cx, buf) \<Rightarrow> (Inr (enc, cx), buf)
      | (Inl (Err e), cx, buf) \<Rightarrow> (Inl (Err (e, cx)), buf)
      | (Inl Panic, cx, buf) \<Rightarrow> (Inl Panic, buf))"

definition encode_head ::
  "('w, TransferCoding \<times> 'h Context, ProtoError \<times> 'h Context) H1BufWrite \<Rightarrow> ('h, 'u) h1_lib \<Rightarrow> 'h Parts \<Rightarrow>
     nat \<times> nat option \<Rightarrow> 'h Context \<Rightarrow> 'w \<Rightarrow>
     ((ProtoError \<times> 'h Context) fault + TransferCoding \<times> 'h Context) \<times> 'w" where
  "encode_head W L parts hint cx w = write_buf_head W (head_writer L parts hint cx) w"

definition CONTINUE :: bytes where
  "CONTINUE = ascii ''HTTP/1.1 100 Continue'' @ CRLF @ CRLF"

section \<open>A head is appended to the buffer\<close>

text \<open>The loop never looks at what is in the buffer.\<close>

definition with_buf :: "bytes \<Rightarrow> 'h enc_state \<Rightarrow> 'h enc_state" where
  "with_buf b st = st\<lparr>es_buf := b @ es_buf st\<rparr>"

lemma with_buf_simps [simp]:
  "es_name (with_buf b st) = es_name st" "es_cx (with_buf b st) = es_cx st" "es_enc (with_buf b st) = es_enc st"
  "es_skip_date (with_buf b st) = es_skip_date st" "es_skip_ct_te (with_buf b st) = es_skip_ct_te st"
  "es_buf (with_buf b st) = b @ es_buf st"
  by (simp_all add: with_buf_def)

lemma with_buf_updates [simp]:
  "(with_buf b st)\<lparr>es_name := n\<rparr> = with_buf b (st\<lparr>es_name := n\<rparr>)"
  "(with_buf b st)\<lparr>es_cx := cx\<rparr> = with_buf b (st\<lparr>es_cx := cx\<rparr>)"
  "(with_buf b st)\<lparr>es_enc := c\<rparr> = with_buf b (st\<lparr>es_enc := c\<rparr>)"
  "(with_buf b st)\<lparr>es_skip_date := f\<rparr> = with_buf b (st\<lparr>es_skip_date := f\<rparr>)"
  "(with_buf b st)\<lparr>es_skip_ct_te := f\<rparr> = with_buf b (st\<lparr>es_skip_ct_te := f\<rparr>)"
  by (simp_all add: with_buf_def)

lemma fold_chunked_with_buf:
  "fold (\<lambda>val st. if is_chunked_token val then st\<lparr>es_enc := EncodeChunked, es_skip_ct_te := True\<rparr> else st) vs (with_buf b st)
   = with_buf b (fold (\<lambda>val st. if is_chunked_token val then st\<lparr>es_enc := EncodeChunked, es_skip_ct_te := True\<rparr> else st) vs st)"
  by (induction vs arbitrary: st) simp_all

lemma enc_effect_with_buf:
  "enc_effect L v (with_buf b st) = (case enc_effect L v st of (r, st) \<Rightarrow> (r, with_buf b st))"
  by (cases "es_name st")
    (simp_all add: enc_effect_def fold_chunked_with_buf split: prod.splits sum.splits option.splits)

lemma write_field_with_buf: "write_field L m v (with_buf b st) = with_buf b (write_field L m v st)"
  by (simp add: write_field_def with_buf_def)

lemma enc_loop_with_buf:
  "enc_loop L hs (with_buf b st) = (case enc_loop L hs st of (r, st) \<Rightarrow> (r, with_buf b st))"
proof (induction hs arbitrary: st)
  case (Cons h hs)
  obtain nn v where h: "h = (nn, v)" by (cases h)
  define st1 where "st1 = (case nn of Some n \<Rightarrow> st\<lparr>es_name := n\<rparr> | None \<Rightarrow> st)"
  have st1: "(case nn of Some n \<Rightarrow> (with_buf b st)\<lparr>es_name := n\<rparr> | None \<Rightarrow> with_buf b st) = with_buf b st1"
    by (auto simp: st1_def with_buf_def split: option.splits)
  obtain r st2 where e: "enc_effect L v st1 = (r, st2)" by (cases "enc_effect L v st1")
  have e': "enc_effect L v (with_buf b st1) = (r, with_buf b st2)" by (simp add: enc_effect_with_buf e)
  show ?case
    by (simp add: h st1 st1_def [symmetric] Let_def e e' Cons.IH write_field_with_buf split: sum.splits bool.splits)
qed simp

lemma finish_with_buf:
  "finish_headers L bsize (with_buf b st) = (case finish_headers L bsize st of (enc, out) \<Rightarrow> (enc, b @ out))"
  by (cases bsize; cases "is_head_method (es_cx st)"; cases "es_skip_ct_te st")
    (simp_all add: finish_headers_def Let_def try_remove_body_def write_framing_def write_length_header_def)

lemma encode_headers_append:
  "encode_headers L h bsize (b @ b') skip cx =
     (case encode_headers L h bsize b' skip cx of (r, cx, out) \<Rightarrow> (r, cx, b @ out))"
proof -
  define st where "st = \<lparr>es_name = TE, es_enc = TC_Eof, es_skip_date = False, es_skip_ct_te = skip, es_cx = cx, es_buf = b'\<rparr>"
  have "\<lparr>es_name = TE, es_enc = TC_Eof, es_skip_date = False, es_skip_ct_te = skip, es_cx = cx, es_buf = b @ b'\<rparr>
      = with_buf b st" by (simp add: with_buf_def st_def)
  moreover obtain r st1 where "enc_loop L (hm_drain L h) st = (r, st1)" by (cases "enc_loop L (hm_drain L h) st")
  ultimately show ?thesis
    unfolding encode_headers_def st_def [symmetric]
    by (cases r) (simp_all add: enc_loop_with_buf finish_with_buf case_prod_beta)
qed

lemma encode_head_inner_append:
  "encode_head_inner L parts hint cx b =
     (case encode_head_inner L parts hint cx [] of (r, cx, out) \<Rightarrow> (r, cx, b @ out))"
proof -
  have "encode_version_status_reason L v s b = b @ encode_version_status_reason L v s []" for v s
    by (simp add: encode_version_status_reason_def)
  then show ?thesis
    using encode_headers_append [of L "pt_headers parts" "from_stream hint" b
        "encode_version_status_reason L (pt_version parts) (pt_status parts) []"]
    by (simp add: encode_head_inner_def Let_def split: option.splits prod.splits sum.splits)
qed

lemma head_writer_append:
  "head_writer L parts hint cx b = (case head_writer L parts hint cx [] of (r, out) \<Rightarrow> (r, b @ out))"
  by (simp add: head_writer_def encode_head_inner_append [of L parts hint cx b]
      split: prod.splits sum.splits fault.splits)

lemma head_writer_nonempty: "head_writer L parts hint cx [] = (Inr r, out) \<Longrightarrow> out \<noteq> []"
  by (auto simp: head_writer_def encode_head_inner_def encode_headers_def finish_headers_def Let_def CRLF_def
      split: prod.splits sum.splits fault.splits option.splits if_splits)

lemma enc_loop_no_panic: "fst (enc_loop L hs st) \<noteq> Inl Panic"
proof (induction L hs st rule: enc_loop.induct)
  case (2 L nn v hs st)
  define st1 where "st1 = (case nn of Some n \<Rightarrow> st\<lparr>es_name := n\<rparr> | None \<Rightarrow> st)"
  obtain r st2 where e: "enc_effect L v st1 = (r, st2)" by (cases "enc_effect L v st1")
  have "r \<noteq> Inl Panic"
    using e by (cases "es_name st1") (auto simp: enc_effect_def try_set_close_from_header_def
        split: if_splits option.splits sum.splits prod.splits)
  then show ?case using 2 e
    by (cases r) (auto simp: st1_def [symmetric] Let_def split: bool.splits)
qed simp

lemma head_writer_no_panic: "fst (head_writer L parts hint cx b) \<noteq> Inl Panic"
proof -
  have "fst (encode_headers L h s b skip cx) \<noteq> Inl Panic" for h s b skip
    using enc_loop_no_panic [of L "hm_drain L h"]
    by (auto simp: encode_headers_def split: prod.splits sum.splits) (metis fst_conv)
  then show ?thesis
    by (auto simp: head_writer_def encode_head_inner_def Let_def
        split: prod.splits sum.splits fault.splits option.splits) (metis fst_conv)
qed

section \<open>Whole responses\<close>

text \<open>A response as the dispatcher sends it: the head, the chunks of the body, the end of the body.\<close>

definition respond ::
  "('w, TransferCoding \<times> 'h Context, ProtoError \<times> 'h Context) H1BufWrite \<Rightarrow> ('h, 'u) h1_lib \<Rightarrow> 'h Parts \<Rightarrow>
     nat \<times> nat option \<Rightarrow> bytes list \<Rightarrow> 'h Context \<Rightarrow> 'w \<Rightarrow> ('h Context \<times> 'w) option" where
  "respond W L parts hint chunks cx w =
     (case encode_head W L parts hint cx w of
        (Inl _, _) \<Rightarrow> None
      | (Inr (enc, cx), w) \<Rightarrow> map_option (Pair cx) (encode_body W enc chunks w))"

locale h1_response = h1_writer W pending room
  for W :: "('w, TransferCoding \<times> 'h Context, ProtoError \<times> 'h Context) H1BufWrite" and pending and room
begin

lemma encode_head_ok:
  assumes "head_writer L parts hint cx [] = (Inr (enc, cx'), out)" and "room (Suc k) w"
  shows "\<exists>w'. encode_head W L parts hint cx w = (Inr (enc, cx'), w') \<and> pending w' = pending w @ out \<and> room k w'"
  unfolding encode_head_def
  by (rule head_ok [OF assms(2) head_writer_nonempty [OF assms(1)]]) (subst head_writer_append, simp add: assms(1))

lemma encode_head_err:
  assumes "head_writer L parts hint cx [] = (Inl (Err e), junk)" and "room k w"
  shows "\<exists>w'. encode_head W L parts hint cx w = (Inl (Err e), w') \<and> pending w' = pending w \<and> room k w'"
  unfolding encode_head_def
  by (rule head_err [OF assms(2)]) (subst head_writer_append, simp add: assms(1))

lemma respond_chunked:
  assumes "head_writer L parts hint cx [] = (Inr (EncodeChunked, cx'), out)" and "room (Suc (Suc (length chunks))) w"
  shows "\<exists>w'. respond W L parts hint chunks cx w = Some (cx', w') \<and> pending w' = pending w @ out @ chunked_wire chunks"
proof -
  obtain w1 where w1: "encode_head W L parts hint cx w = (Inr (EncodeChunked, cx'), w1)"
    "pending w1 = pending w @ out" "room (Suc (length chunks)) w1" using encode_head_ok [OF assms] by blast
  then show ?thesis using chunked_body [OF w1(3)] by (auto simp: respond_def)
qed

lemma respond_length:
  assumes "head_writer L parts hint cx [] = (Inr (TC_Length (length (concat chunks)), cx'), out)"
    and "room (Suc (length chunks)) w"
  shows "\<exists>w'. respond W L parts hint chunks cx w = Some (cx', w') \<and> pending w' = pending w @ out @ concat chunks"
proof -
  obtain w1 where w1: "encode_head W L parts hint cx w = (Inr (TC_Length (length (concat chunks)), cx'), w1)"
    "pending w1 = pending w @ out" "room (length chunks) w1" using encode_head_ok [OF assms] by blast
  then show ?thesis using length_body [OF w1(3) refl] by (auto simp: respond_def)
qed

end

interpretation bytes_mut_response: h1_response h1_bytes_mut "\<lambda>w. w" "\<lambda>_ _. True" ..

interpretation write_buf_response: h1_response h1_write_buf wb_buf "\<lambda>_ _. True" ..

sublocale encoded_chunks \<subseteq> list_response: h1_response "h1_list_write_buf C1 C2" encoded.lw_bytes list_room ..

section \<open>The framing headers\<close>

lemma set_close_token_head: "is_head_method (set_close_token t cx) = is_head_method cx"
  by (simp add: set_close_token_def Let_def)

lemma fold_close_head: "is_head_method (fold set_close_token ts cx) = is_head_method cx"
  by (induction ts arbitrary: cx) (simp_all add: set_close_token_head)

lemma fold_chunked_cx:
  "es_cx (fold (\<lambda>val st. if is_chunked_token val then st\<lparr>es_enc := EncodeChunked, es_skip_ct_te := True\<rparr> else st) vs st) = es_cx st"
  by (induction vs arbitrary: st) simp_all

lemma enc_effect_head:
  "enc_effect L v st = (Inr f, st') \<Longrightarrow> is_head_method (es_cx st') = is_head_method (es_cx st)"
  by (cases "es_name st")
    (auto simp: enc_effect_def try_set_close_from_header_def fold_close_head fold_chunked_cx
      split: if_splits option.splits sum.splits prod.splits)

lemma enc_effect_no_framing:
  "enc_effect L v st = (Inr f, st') \<Longrightarrow> es_name st \<notin> {CONTENT_LENGTH, TRANSFER_ENCODING} \<Longrightarrow>
     es_skip_ct_te st' = es_skip_ct_te st \<and> es_name st' = es_name st"
  by (cases "es_name st")
    (auto simp: enc_effect_def split: if_splits option.splits sum.splits prod.splits)

lemma write_field_simps [simp]:
  "es_cx (write_field L m v st) = es_cx st" "es_skip_ct_te (write_field L m v st) = es_skip_ct_te st"
  "es_name (write_field L m v st) = es_name st" "es_skip_date (write_field L m v st) = es_skip_date st"
  by (simp_all add: write_field_def)

text \<open>Headers that announce no framing of their own leave it to the size of the body.\<close>

definition no_framing :: "(HeaderName option \<times> bytes) list \<Rightarrow> bool" where
  "no_framing hs \<longleftrightarrow> (\<forall>(n, v)\<in>set hs. n \<noteq> Some CONTENT_LENGTH \<and> n \<noteq> Some TRANSFER_ENCODING)"

lemma enc_loop_no_framing:
  "enc_loop L hs st = (Inr u, st') \<Longrightarrow> no_framing hs \<Longrightarrow> es_name st \<notin> {CONTENT_LENGTH, TRANSFER_ENCODING} \<Longrightarrow>
     es_skip_ct_te st' = es_skip_ct_te st \<and> is_head_method (es_cx st') = is_head_method (es_cx st)"
proof (induction L hs st rule: enc_loop.induct)
  case (2 L nn v hs st)
  define st1 where "st1 = (case nn of Some n \<Rightarrow> st\<lparr>es_name := n\<rparr> | None \<Rightarrow> st)"
  obtain r st2 where e: "enc_effect L v st1 = (r, st2)" by (cases "enc_effect L v st1")
  obtain f where r: "r = Inr f" using "2.prems"(1) e by (cases r) (auto simp: st1_def [symmetric] Let_def)
  have name: "es_name st1 \<notin> {CONTENT_LENGTH, TRANSFER_ENCODING}" and tl: "no_framing hs"
    using "2.prems"(2,3) by (auto simp: no_framing_def st1_def split: option.splits)
  have 1: "es_skip_ct_te st2 = es_skip_ct_te st" "es_name st2 = es_name st1" "is_head_method (es_cx st2) = is_head_method (es_cx st)"
    using enc_effect_no_framing [OF e [unfolded r] name] enc_effect_head [OF e [unfolded r]]
    by (auto simp: st1_def split: option.splits)
  show ?case
  proof (cases f)
    case True
    have "enc_loop L hs (write_field L (nn = None \<and> es_name st2 \<noteq> SET_COOKIE) v st2) = (Inr u, st')"
      using "2.prems"(1) e r True by (simp add: st1_def [symmetric] Let_def)
    with "2.IH"(1) [OF st1_def refl e [symmetric] r] True tl name 1 show ?thesis by simp
  next
    case False
    have "enc_loop L hs st2 = (Inr u, st')" using "2.prems"(1) e r False by (simp add: st1_def [symmetric] Let_def)
    with "2.IH"(2) [OF st1_def refl e [symmetric] r] False tl name 1 show ?thesis by simp
  qed
qed simp

text \<open>What is written before and after the framing header does not depend on the body.\<close>

definition closing_lines :: "'h enc_state \<Rightarrow> bytes" where
  "closing_lines st = (if is_connection_closed (es_cx st) then CLOSE_HEADER else []) @
     (if \<not> es_skip_date st then CRLF @ ascii ''date: '' @ cx_date (es_cx st) else []) @ CRLF @ CRLF"

lemma finish_headers_framing:
  assumes "\<not> es_skip_ct_te st"
  shows "finish_headers L bsize st =
    (case bsize of
       BS_None \<Rightarrow> (TC_Eof, es_buf st @ closing_lines st)
     | BS_Stream \<Rightarrow> (if is_head_method (es_cx st) then TC_Eof else EncodeChunked,
         es_buf st @ CRLF @ ascii ''transfer-encoding: chunked'' @ closing_lines st)
     | BS_Sized n \<Rightarrow> (if is_head_method (es_cx st) then TC_Eof else TC_Length n,
         es_buf st @ CRLF @ ascii ''content-length: '' @ itoa L n @ closing_lines st))"
  using assms
  by (cases bsize) (simp_all add: finish_headers_def closing_lines_def try_remove_body_def write_framing_def
      write_length_header_def CHUNKED_HEADER_def Let_def)

lemma encode_head_framing:
  assumes "encode_head_inner L parts hint cx [] = (Inr enc, cx', out)"
    and "no_framing (hm_drain L (pt_headers parts))" and "skip_framing cx (pt_status parts) = Some False"
  shows "\<exists>st. is_head_method (es_cx st) = is_head_method cx \<and> \<not> es_skip_ct_te st \<and>
    (\<forall>hint. encode_head_inner L parts hint cx [] =
       (case finish_headers L (from_stream hint) st of (enc, out) \<Rightarrow> (Inr enc, cx', out)))"
proof -
  define st where "st = \<lparr>es_name = TE, es_enc = TC_Eof, es_skip_date = False, es_skip_ct_te = False, es_cx = cx,
    es_buf = encode_version_status_reason L (pt_version parts) (pt_status parts) []\<rparr>"
  obtain st' where loop: "enc_loop L (hm_drain L (pt_headers parts)) st = (Inr (), st')"
    and cx': "cx' = replace_extensions [] (replace_headers (hm_empty L) (es_cx st'))"
    using assms(1,3) by (auto simp: encode_head_inner_def Let_def encode_headers_def st_def
        split: prod.splits sum.splits)
  have "es_skip_ct_te st' = False" "is_head_method (es_cx st') = is_head_method cx"
    using enc_loop_no_framing [OF loop assms(2)] by (auto simp: st_def)
  then show ?thesis using loop cx' assms(3)
    by (intro exI [of _ st']) (simp add: encode_head_inner_def Let_def encode_headers_def st_def split: prod.splits)
qed

lemma encode_head_close:
  assumes "encode_head_inner L parts hint cx [] = (Inr enc, cx', out)" and "is_connection_closed cx'"
  shows "\<exists>pre post. out = pre @ CLOSE_HEADER @ post"
proof -
  define st where "st = (\<lambda>skip. \<lparr>es_name = TE, es_enc = TC_Eof, es_skip_date = False, es_skip_ct_te = skip, es_cx = cx,
    es_buf = encode_version_status_reason L (pt_version parts) (pt_status parts) []\<rparr>)"
  obtain skip st' where "enc_loop L (hm_drain L (pt_headers parts)) (st skip) = (Inr (), st')"
    and fin: "finish_headers L (from_stream hint) st' = (enc, out)"
    and cx': "is_connection_closed (es_cx st') = is_connection_closed cx'"
    using assms(1) by (auto simp: encode_head_inner_def Let_def encode_headers_def st_def replace_headers_def
        replace_extensions_def is_connection_closed_def split: prod.splits sum.splits option.splits)
  obtain pre where "\<exists>post. out = pre @ CLOSE_HEADER @ post"
    using fin cx' assms(2) by (auto simp: finish_headers_def Let_def split: prod.splits if_splits)
  then show ?thesis by blast
qed

section \<open>Properties\<close>

text \<open>
  C23: A response whose service set neither \<open>Content-Length\<close> nor \<open>Transfer-Encoding\<close> is framed by the size of its
  body. The heads for all sizes have the same beginning and end and differ in one line: none without a body, and then
  no body is sent; the exact length \<open>n\<close> for a body of \<open>n\<close> bytes, and then the coder sends \<open>n\<close> bytes; the announcement of
  the chunked coding for a body of unknown size, and then the coder is the chunked one. To a \<open>HEAD\<close> request the same
  line is sent, with a coder that sends no body. (For a final status, and not for a successful answer to \<open>CONNECT\<close>.)
\<close>

theorem response_framing:
  assumes "encode_head_inner L parts hint0 cx [] = (Inr enc0, cx', out0)"
    and "no_framing (hm_drain L (pt_headers parts))"
    and "200 \<le> pt_status parts" and "is_connect_method cx \<Longrightarrow> 300 \<le> pt_status parts"
  shows "\<exists>beg fin. \<forall>hint. \<exists>enc out. encode_head_inner L parts hint cx [] = (Inr enc, cx', out) \<and>
    (if hint = (2 ^ 64 - 1, Some 0) then enc = TC_Eof \<and> out = beg @ fin
     else case snd hint of
         Some n \<Rightarrow> enc = (if is_head_method cx then TC_Eof else TC_Length n) \<and>
           out = beg @ [13, 10] @ ascii ''content-length: '' @ itoa L n @ fin
       | None \<Rightarrow> enc = (if is_head_method cx then TC_Eof else EncodeChunked) \<and>
           out = beg @ [13, 10] @ ascii ''transfer-encoding: chunked'' @ fin)"
proof -
  have "skip_framing cx (pt_status parts) = Some False"
    using assms(3,4) by (auto simp: skip_framing_def is_success_def is_informational_def)
  from encode_head_framing [OF assms(1,2) this] obtain st where
    st: "is_head_method (es_cx st) = is_head_method cx" "\<not> es_skip_ct_te st"
      "\<And>hint. encode_head_inner L parts hint cx [] = (case finish_headers L (from_stream hint) st of (enc, out) \<Rightarrow> (Inr enc, cx', out))"
    by blast
  show ?thesis
    by (rule exI [of _ "es_buf st"], rule exI [of _ "closing_lines st"])
      (auto simp: st finish_headers_framing from_stream_def NONE_BODY_HINT_def u64_max_def CRLF_def split: option.split)
qed

abbreviation plain_parts :: "nat \<Rightarrow> (HeaderName \<times> bytes) list Parts" where
  "plain_parts st \<equiv> \<lparr>pt_headers = [], pt_exts = [], pt_version = HTTP_11, pt_status = st\<rparr>"

theorem response_framing_witness:
  "\<exists>cx' out beg fin. encode_head_inner chunked_request (plain_parts 404) (3, Some 3) (with_addr 0 []) [] =
     (Inr (TC_Length 3), cx', out) \<and> out = beg @ [13, 10] @ ascii ''content-length: '' @ itoa chunked_request 3 @ fin"
proof -
  let ?cx = "with_addr 0 [] :: (HeaderName \<times> bytes) list Context"
  have cl: "is_head_method ?cx = False" "is_connect_method ?cx = False"
    by (simp_all add: is_head_method_def is_connect_method_def with_addr_def cs_new_def cs_contains_def HEAD_def CONNECT_def)
  then obtain cx' out0 where e: "encode_head_inner chunked_request (plain_parts 404) (0, None) ?cx [] = (Inr EncodeChunked, cx', out0)"
    by (simp add: encode_head_inner_def skip_framing_def is_informational_def encode_headers_def from_stream_def
        NONE_BODY_HINT_def chunked_request_def one_request_def finish_headers_def write_framing_def Let_def)
  have "no_framing (hm_drain chunked_request (pt_headers (plain_parts 404)))"
    by (simp add: no_framing_def chunked_request_def one_request_def)
  with cl have f: "\<exists>beg fin. \<forall>hint. \<exists>enc out. encode_head_inner chunked_request (plain_parts 404) hint ?cx [] = (Inr enc, cx', out) \<and>
    (if hint = (2 ^ 64 - 1, Some 0) then enc = TC_Eof \<and> out = beg @ fin
     else case snd hint of
         Some n \<Rightarrow> enc = (if is_head_method ?cx then TC_Eof else TC_Length n) \<and>
           out = beg @ [13, 10] @ ascii ''content-length: '' @ itoa chunked_request n @ fin
       | None \<Rightarrow> enc = (if is_head_method ?cx then TC_Eof else EncodeChunked) \<and>
           out = beg @ [13, 10] @ ascii ''transfer-encoding: chunked'' @ fin)"
    by (intro response_framing [OF e]) auto
  have "\<exists>beg fin enc out. encode_head_inner chunked_request (plain_parts 404) (3, Some 3) ?cx [] = (Inr enc, cx', out) \<and>
      enc = TC_Length 3 \<and> out = beg @ [13, 10] @ ascii ''content-length: '' @ itoa chunked_request 3 @ fin"
    by (insert f cl, elim exE, drule spec [of _ "(3, Some 3)"], elim exE, intro exI) auto
  then show ?thesis by blast
qed

text \<open>
  C32: A head that cannot be encoded leaves nothing behind: the error is returned and the bytes waiting in the
  write buffer are those that were waiting before.
\<close>

theorem encode_head_error_clean:
  assumes "head_writer L parts hint cx [] = (Inl (Err e), junk)"
  shows "\<exists>w'. encode_head h1_write_buf L parts hint cx w = (Inl (Err e), w') \<and> wb_buf w' = wb_buf w"
  using write_buf_response.encode_head_err [OF assms] by blast

theorem encode_head_error_clean_witness:
  "\<exists>e w'. encode_head h1_write_buf chunked_request (plain_parts 100) (0, None) (with_addr 0 [])
     \<lparr>wb_buf = [1, 2], wb_want_flush = False\<rparr> = (Inl (Err e), w') \<and> wb_buf w' = [1, 2]"
proof -
  have "is_connect_method (with_addr 0 [] :: (HeaderName \<times> bytes) list Context) = False"
    by (simp add: is_connect_method_def with_addr_def cs_new_def cs_contains_def CONNECT_def)
  then have "head_writer chunked_request (plain_parts 100) (0, None) (with_addr 0 []) [] =
      (Inl (Err (PE_Status, with_addr 0 [])), [])"
    by (simp add: head_writer_def encode_head_inner_def skip_framing_def is_informational_def)
  from encode_head_error_clean [OF this, of "\<lparr>wb_buf = [1, 2], wb_want_flush = False\<rparr>"] show ?thesis by auto
qed

end
