(* ===== verification/H1_Body.thy ===== *)
theory H1_Body
  imports H1_Chunked Io_Buf
begin

text \<open>
  The request body channel, \<open>http/src/h1/body.rs\<close>: the dispatcher decodes body data and feeds
  it to one end, the service polls the other. \<open>Inner\<close> is the shared cell. A waker is whether a
  task is registered; \<open>in_wakes\<close> and \<open>in_io_wakes\<close> count the calls of \<open>Waker::wake\<close> on the wakers of the two
  tasks, which is what the rest of the program sees of them. The
  channel holds the cell with which of its two ends are alive; \<open>None\<close> is a request without body.
\<close>

section \<open>The shared cell\<close>

record 'e Inner =
  in_eof :: bool
  in_len :: nat
  in_err :: "'e option"
  in_items :: "bytes list"
  in_task :: bool
  in_io_task :: bool
  in_wakes :: nat
  in_io_wakes :: nat

definition inner_default :: "'e Inner" where
  "inner_default = \<lparr>in_eof = False, in_len = 0, in_err = None, in_items = [], in_task = False, in_io_task = False,
     in_wakes = 0, in_io_wakes = 0\<rparr>"

definition MAX_BUFFER_SIZE :: nat where
  "MAX_BUFFER_SIZE = 32768"

definition wake :: "'e Inner \<Rightarrow> 'e Inner" where
  "wake i = (if in_task i then i\<lparr>in_task := False, in_wakes := in_wakes i + 1\<rparr> else i)"

definition wake_io :: "'e Inner \<Rightarrow> 'e Inner" where
  "wake_io i = (if in_io_task i then i\<lparr>in_io_task := False, in_io_wakes := in_io_wakes i + 1\<rparr> else i)"

lemma wake_simps [simp]:
  "in_items (wake i) = in_items i" "in_len (wake i) = in_len i" "in_err (wake i) = in_err i" "in_eof (wake i) = in_eof i"
  by (simp_all add: wake_def)

definition waiting :: "'e Inner \<Rightarrow> bool" where
  "waiting i = in_task i"

definition register :: "'e Inner \<Rightarrow> 'e Inner" where
  "register i = i\<lparr>in_task := True\<rparr>"

definition register_io :: "'e Inner \<Rightarrow> 'e Inner" where
  "register_io i = i\<lparr>in_io_task := True\<rparr>"

definition inner_feed_error :: "'e \<Rightarrow> 'e Inner \<Rightarrow> 'e Inner" where
  "inner_feed_error e i = wake (i\<lparr>in_err := Some e\<rparr>)"

definition inner_feed_eof :: "'e Inner \<Rightarrow> 'e Inner" where
  "inner_feed_eof i = wake (i\<lparr>in_eof := True\<rparr>)"

definition inner_feed_data :: "bytes \<Rightarrow> 'e Inner \<Rightarrow> 'e Inner" where
  "inner_feed_data d i = wake (i\<lparr>in_len := in_len i + length d, in_items := in_items i @ [d]\<rparr>)"

definition backpressure :: "'e Inner \<Rightarrow> bool" where
  "backpressure i \<longleftrightarrow> in_len i \<ge> MAX_BUFFER_SIZE"

datatype 'e body_poll = BP_Data bytes | BP_Err 'e | BP_End | BP_Pending

definition poll_next_unpin :: "'e Inner \<Rightarrow> 'e body_poll \<times> 'e Inner" where
  "poll_next_unpin i =
     (case in_items i of
        data # items \<Rightarrow> (BP_Data data, i\<lparr>in_items := items, in_len := in_len i - length data\<rparr>)
      | [] \<Rightarrow>
          (case in_err i of
             Some e \<Rightarrow> (BP_Err e, i\<lparr>in_err := None\<rparr>)
           | None \<Rightarrow> if in_eof i then (BP_End, i) else (BP_Pending, wake_io (register i))))"

section \<open>The channel\<close>

record 'e channel =
  ch_inner :: "'e Inner"
  ch_sender :: bool
  ch_receiver :: bool

definition body_channel :: "bool \<Rightarrow> 'e channel option" where
  "body_channel eof =
     (if eof then None else Some \<lparr>ch_inner = inner_default, ch_sender = True, ch_receiver = True\<rparr>)"

text \<open>
  \<open>try_inner_infallible\<close>: a panic without a body, the cell while both ends are alive
  (\<open>Rc::strong_count\<close> is two), nothing otherwise.
\<close>

definition try_inner_infallible :: "'e channel option \<Rightarrow> unit fault + 'e Inner option" where
  "try_inner_infallible ch =
     (case ch of
        None \<Rightarrow> Inl Panic
      | Some c \<Rightarrow> Inr (if ch_sender c \<and> ch_receiver c then Some (ch_inner c) else None))"

definition feed_with ::
  "('e Inner \<Rightarrow> 'e Inner) \<Rightarrow> 'e channel option \<Rightarrow> unit fault + 'e channel option" where
  "feed_with f ch =
     (case try_inner_infallible ch of
        Inl x \<Rightarrow> Inl x
      | Inr None \<Rightarrow> Inr ch
      | Inr (Some i) \<Rightarrow> Inr (map_option (\<lambda>c. c\<lparr>ch_inner := f i\<rparr>) ch))"

definition feed_error :: "'e \<Rightarrow> 'e channel option \<Rightarrow> unit fault + 'e channel option" where
  "feed_error e = feed_with (inner_feed_error e)"

definition feed_eof :: "'e channel option \<Rightarrow> unit fault + 'e channel option" where
  "feed_eof = feed_with inner_feed_eof"

definition feed_data :: "bytes \<Rightarrow> 'e channel option \<Rightarrow> unit fault + 'e channel option" where
  "feed_data d = feed_with (inner_feed_data d)"

text \<open>One poll of \<open>ready_with\<close>: ready, pending (and registered), or the other end is gone.\<close>

datatype ready_poll = RP_Ready | RP_Pending | RP_Gone

definition ready_with ::
  "('e Inner \<Rightarrow> bool) \<Rightarrow> 'e channel option \<Rightarrow> unit fault + (ready_poll \<times> 'e channel option)" where
  "ready_with f ch =
     (case try_inner_infallible ch of
        Inl x \<Rightarrow> Inl x
      | Inr (Some i) \<Rightarrow>
          if f i then Inr (RP_Ready, ch)
          else Inr (RP_Pending, map_option (\<lambda>c. c\<lparr>ch_inner := register_io i\<rparr>) ch)
      | Inr None \<Rightarrow> Inr (RP_Gone, ch))"

definition sender_ready :: "'e channel option \<Rightarrow> unit fault + (ready_poll \<times> 'e channel option)" where
  "sender_ready = ready_with (\<lambda>i. \<not> backpressure i)"

definition wait_for_poll :: "'e channel option \<Rightarrow> unit fault + (ready_poll \<times> 'e channel option)" where
  "wait_for_poll = ready_with waiting"

definition body_poll_next :: "'e channel option \<Rightarrow> 'e body_poll \<times> 'e channel option" where
  "body_poll_next ch =
     (case ch of
        None \<Rightarrow> (BP_End, None)
      | Some c \<Rightarrow> (case poll_next_unpin (ch_inner c) of (r, i) \<Rightarrow> (r, Some (c\<lparr>ch_inner := i\<rparr>))))"

text \<open>Dropping an end: while the other is alive and the body has not ended, an error is left for it.\<close>

definition drop_error :: "'e \<Rightarrow> 'e channel \<Rightarrow> 'e channel" where
  "drop_error e c =
     (if ch_sender c \<and> ch_receiver c \<and> \<not> in_eof (ch_inner c)
      then c\<lparr>ch_inner := inner_feed_error e (ch_inner c)\<rparr> else c)"

definition drop_sender :: "'e \<Rightarrow> 'e channel option \<Rightarrow> 'e channel option" where
  "drop_sender e = map_option (\<lambda>c. (drop_error e c)\<lparr>ch_sender := False\<rparr>)"

definition drop_receiver :: "'e \<Rightarrow> 'e channel option \<Rightarrow> 'e channel option" where
  "drop_receiver e = map_option (\<lambda>c. (drop_error e c)\<lparr>ch_receiver := False\<rparr>)"

section \<open>Every interleaving of the two ends\<close>

text \<open>What the two ends can do, in any order; \<open>Drop*\<close> carry the error \<open>UnexpectedEof\<close>.\<close>

datatype 'e chan_op =
  FeedData bytes | FeedError 'e | FeedEof | SenderReady | WaitForPoll | Poll | DropSender 'e | DropReceiver 'e

text \<open>
  The state of a run: the channel, the data taken by the channel, the data polled, and for each of the two tasks
  whether it sleeps. A task goes to sleep when its poll is pending, and it is awake again when its waker is called.
\<close>

record 'e chan_run =
  cr_chan :: "'e channel"
  cr_fed :: bytes
  cr_got :: bytes
  cr_asleep :: bool
  cr_io_asleep :: bool

definition live :: "'e chan_run \<Rightarrow> bool" where
  "live r \<longleftrightarrow> ch_sender (cr_chan r) \<and> ch_receiver (cr_chan r)"

text \<open>The channel after an operation; a task whose waker was called in it does not sleep.\<close>

definition becomes :: "'e channel \<Rightarrow> 'e chan_run \<Rightarrow> 'e chan_run" where
  "becomes c r = r\<lparr>cr_chan := c,
     cr_asleep := cr_asleep r \<and> in_wakes (ch_inner c) = in_wakes (ch_inner (cr_chan r)),
     cr_io_asleep := cr_io_asleep r \<and> in_io_wakes (ch_inner c) = in_io_wakes (ch_inner (cr_chan r))\<rparr>"

inductive chan_step :: "'e chan_run \<Rightarrow> 'e chan_op \<Rightarrow> 'e chan_run \<Rightarrow> bool" where
  step_data: "feed_data d (Some (cr_chan r)) = Inr (Some c) \<Longrightarrow> ch_sender (cr_chan r) \<Longrightarrow>
    chan_step r (FeedData d) ((becomes c r)\<lparr>cr_fed := cr_fed r @ (if live r then d else [])\<rparr>)"
| step_error: "feed_error e (Some (cr_chan r)) = Inr (Some c) \<Longrightarrow> ch_sender (cr_chan r) \<Longrightarrow>
    chan_step r (FeedError e) (becomes c r)"
| step_eof: "feed_eof (Some (cr_chan r)) = Inr (Some c) \<Longrightarrow> ch_sender (cr_chan r) \<Longrightarrow>
    chan_step r FeedEof (becomes c r)"
| step_ready: "sender_ready (Some (cr_chan r)) = Inr (p, Some c) \<Longrightarrow> ch_sender (cr_chan r) \<Longrightarrow>
    chan_step r SenderReady ((becomes c r)\<lparr>cr_io_asleep := (p = RP_Pending)\<rparr>)"
| step_wait: "wait_for_poll (Some (cr_chan r)) = Inr (p, Some c) \<Longrightarrow> ch_sender (cr_chan r) \<Longrightarrow>
    chan_step r WaitForPoll ((becomes c r)\<lparr>cr_io_asleep := (p = RP_Pending)\<rparr>)"
| step_poll: "body_poll_next (Some (cr_chan r)) = (p, Some c) \<Longrightarrow> ch_receiver (cr_chan r) \<Longrightarrow>
    chan_step r Poll ((becomes c r)\<lparr>cr_got := cr_got r @ (case p of BP_Data d \<Rightarrow> d | _ \<Rightarrow> []), cr_asleep := (p = BP_Pending)\<rparr>)"
| step_drop_sender: "drop_sender e (Some (cr_chan r)) = Some c \<Longrightarrow> ch_sender (cr_chan r) \<Longrightarrow>
    chan_step r (DropSender e) (becomes c r)"
| step_drop_receiver: "drop_receiver e (Some (cr_chan r)) = Some c \<Longrightarrow> ch_receiver (cr_chan r) \<Longrightarrow>
    chan_step r (DropReceiver e) (becomes c r)"

inductive chan_reach :: "'e chan_run \<Rightarrow> bool" where
  reach_new: "body_channel False = Some c \<Longrightarrow>
    chan_reach \<lparr>cr_chan = c, cr_fed = [], cr_got = [], cr_asleep = False, cr_io_asleep = False\<rparr>"
| reach_step: "chan_reach r \<Longrightarrow> chan_step r op r' \<Longrightarrow> chan_reach r'"

text \<open>
  The invariant: the length is that of the queued items; the polled data and the queued items are the fed data, in
  order; a task that sleeps has its waker in the cell, so that it will be called; a service that sleeps has nothing to
  read; and the two tasks do not wait for each other.
\<close>

definition chan_inv :: "'e chan_run \<Rightarrow> bool" where
  "chan_inv r \<longleftrightarrow>
     (let i = ch_inner (cr_chan r) in
        in_len i = length (concat (in_items i)) \<and>
        cr_got r @ concat (in_items i) = cr_fed r \<and>
        (cr_asleep r \<longrightarrow> in_task i) \<and> (cr_io_asleep r \<longrightarrow> in_io_task i) \<and>
        (in_task i \<longrightarrow> in_items i = [] \<and> in_err i = None \<and> \<not> in_eof i \<and> \<not> in_io_task i))"

lemmas channel_defs =
  feed_data_def feed_error_def feed_eof_def feed_with_def try_inner_infallible_def sender_ready_def
  wait_for_poll_def ready_with_def body_poll_next_def drop_sender_def drop_receiver_def drop_error_def
  inner_feed_data_def inner_feed_error_def inner_feed_eof_def register_def
  register_io_def poll_next_unpin_def

lemma chan_step_inv:
  assumes "chan_step r op r'" and "chan_inv r"
  shows "chan_inv r'"
  using assms
  by (induction rule: chan_step.induct)
    (auto simp: chan_inv_def Let_def channel_defs wake_def wake_io_def live_def becomes_def waiting_def backpressure_def MAX_BUFFER_SIZE_def
      split: if_splits list.splits option.splits)

lemma chan_reach_inv: "chan_reach r \<Longrightarrow> chan_inv r"
proof (induction rule: chan_reach.induct)
  case (reach_new c)
  then show ?case by (auto simp: chan_inv_def body_channel_def inner_default_def)
next
  case (reach_step r op r')
  then show ?case by (blast intro: chan_step_inv)
qed

section \<open>Properties\<close>

text \<open>
  C17: In every interleaving of the calls of the connection task and of the service on the request body channel,
  the data polled so far followed by the data still queued is the data fed, in order, and the recorded length is that of
  the queue. No wake-up of the service is lost: while it sleeps, that is, its last poll was pending and its waker was not
  called since, there is nothing to read, no error and no end. And the two tasks never sleep at the same time, so that
  back-pressure and the wait for the first poll do not block the connection. (A connection task that sleeps when the
  service drops the body is not woken by the channel.)
\<close>

theorem body_channel_invariant:
  assumes "chan_reach r"
  shows "cr_got r @ concat (in_items (ch_inner (cr_chan r))) = cr_fed r \<and>
    in_len (ch_inner (cr_chan r)) = length (concat (in_items (ch_inner (cr_chan r)))) \<and>
    (cr_asleep r \<longrightarrow> in_items (ch_inner (cr_chan r)) = [] \<and> in_err (ch_inner (cr_chan r)) = None \<and>
       \<not> in_eof (ch_inner (cr_chan r)) \<and> \<not> cr_io_asleep r)"
  using chan_reach_inv [OF assms] by (auto simp: chan_inv_def Let_def)

theorem body_channel_invariant_witness:
  "\<exists>r :: nat chan_run. chan_reach r \<and> cr_fed r = [1, 2] \<and> cr_got r @ concat (in_items (ch_inner (cr_chan r))) = [1, 2] \<and>
     \<not> cr_asleep r"
proof -
  obtain c where c: "body_channel False = Some (c :: nat channel)" by (simp add: body_channel_def)
  define r :: "nat chan_run" where "r = \<lparr>cr_chan = c, cr_fed = [], cr_got = [], cr_asleep = False, cr_io_asleep = False\<rparr>"
  obtain c1 where c1: "body_poll_next (Some (cr_chan r)) = (BP_Pending, Some c1)" "ch_receiver (cr_chan r)"
      "ch_sender c1" "ch_receiver c1"
    using c by (auto simp: r_def body_channel_def body_poll_next_def poll_next_unpin_def inner_default_def)
  define r1 where "r1 = (becomes c1 r)\<lparr>cr_got := [], cr_asleep := True\<rparr>"
  have r1: "chan_step r Poll r1" using chan_step.step_poll [OF c1(1,2)] by (simp add: r1_def r_def)
  obtain c2 where c2: "feed_data [1, 2] (Some (cr_chan r1)) = Inr (Some c2)" "ch_sender (cr_chan r1)" "live r1"
    using c1(3,4) by (auto simp: r1_def becomes_def live_def feed_data_def feed_with_def try_inner_infallible_def)
  define r2 where "r2 = (becomes c2 r1)\<lparr>cr_fed := [1, 2]\<rparr>"
  have "chan_step r1 (FeedData [1, 2]) r2"
    using chan_step.step_data [OF c2(1,2)] c2(3) by (simp add: r2_def r1_def becomes_def r_def)
  then have reach: "chan_reach r2" using reach_new [OF c] r1 unfolding r_def [symmetric] by (blast intro: reach_step)
  have fed: "cr_fed r2 = [1, 2]" by (simp add: r2_def)
  have "in_items (ch_inner c2) \<noteq> []"
    using c2(1) c1(3,4) by (auto simp: r1_def becomes_def channel_defs)
  then have "\<not> cr_asleep r2" using body_channel_invariant [OF reach] by (simp add: r2_def becomes_def)
  with body_channel_invariant [OF reach] reach fed show ?thesis by (intro exI [of _ r2]) simp
qed

end
