(* ===== verification/H1_Dispatch.thy ===== *)
theory H1_Dispatch
  imports H1_Encode H1_Body
begin

text \<open>
  The parts of the HTTP/1 dispatcher, \<open>http/src/h1/dispatcher.rs\<close>, that decide something: the
  timer states, the body reader between the decoder and the body channel, the answer to
  protocol errors, the wait for a service to ask for the body of a request with
  \<open>Expect: 100-continue\<close>, and the loop that sends a response.
\<close>

section \<open>Timer\<close>

datatype TimerState = TS_Idle | TS_Wait | TS_Throttle

text \<open>Instants and durations are natural numbers; \<open>tm_deadline\<close> is that of the keep-alive timer.\<close>

record Timer =
  tm_state :: TimerState
  tm_ka_dur :: nat
  tm_req_dur :: nat
  tm_deadline :: nat

definition timer_new :: "nat \<Rightarrow> nat \<Rightarrow> nat \<Rightarrow> Timer" where
  "timer_new deadline ka req = \<lparr>tm_state = TS_Idle, tm_ka_dur = ka, tm_req_dur = req, tm_deadline = deadline\<rparr>"

definition reset_state :: "Timer \<Rightarrow> Timer" where
  "reset_state t = t\<lparr>tm_state := TS_Idle\<rparr>"

definition timer_update :: "nat \<Rightarrow> Timer \<Rightarrow> Timer" where
  "timer_update now t =
     (case tm_state t of
        TS_Idle \<Rightarrow> t\<lparr>tm_state := TS_Wait, tm_deadline := now + tm_ka_dur t\<rparr>
      | TS_Wait \<Rightarrow> t\<lparr>tm_state := TS_Throttle, tm_deadline := now + tm_req_dur t\<rparr>
      | TS_Throttle \<Rightarrow> t)"

datatype ('s, 'b) h1_error =
    KeepAliveExpire | RequestTimeout | Closed | ServiceErr 's | BodyErr 'b | IoErr ErrorKind | ProtoErr ProtoError

definition map_to_err :: "Timer \<Rightarrow> unit fault + ('s, 'b) h1_error" where
  "map_to_err t =
     (case tm_state t of
        TS_Wait \<Rightarrow> Inr KeepAliveExpire
      | TS_Throttle \<Rightarrow> Inr RequestTimeout
      | TS_Idle \<Rightarrow> Inl Panic)"

section \<open>The body reader\<close>

record BodyReader =
  br_decoder :: TransferCoding
  br_tx :: "io_error channel option"

text \<open>\<open>from_coding\<close>; the receiving end of the channel is given to the service.\<close>

definition from_coding :: "TransferCoding \<Rightarrow> unit fault + BodyReader" where
  "from_coding d =
     (case is_eof d of
        Inl e \<Rightarrow> Inl e
      | Inr eof \<Rightarrow> Inr \<lparr>br_decoder = d, br_tx = body_channel eof\<rparr>)"

definition reader_feed_error :: "io_error \<Rightarrow> BodyReader \<Rightarrow> unit fault + BodyReader" where
  "reader_feed_error e br =
     (case feed_error e (br_tx br) of
        Inl x \<Rightarrow> Inl x
      | Inr tx \<Rightarrow> Inr (br\<lparr>br_tx := tx, br_decoder := set_corrupted (br_decoder br)\<rparr>))"

text \<open>
  What a poll of \<open>BodyReader::ready\<close> ends in: the method returns, it waits for the service
  to take data, or it waits for ever (the body has ended or is broken).
\<close>

datatype reader_state = RS_Return | RS_Backpressure | RS_Never

text \<open>One poll of the loop of \<open>ready\<close>, with fuel; \<open>Inl Panic\<close> is a panic of the channel.\<close>

fun reader_ready ::
  "nat \<Rightarrow> BodyReader \<Rightarrow> bytes \<Rightarrow> (unit fault + (reader_state \<times> BodyReader \<times> bytes)) option" where
  "reader_ready 0 br buf = None"
| "reader_ready (Suc k) br buf =
     (case decode (br_decoder br) buf of
        (Inl x, _, _) \<Rightarrow> Some (Inl x)
      | (Inr r, d, buf) \<Rightarrow>
          let br = br\<lparr>br_decoder := d\<rparr> in
          (case r of
             CR_Ok b \<Rightarrow>
               (case feed_data b (br_tx br) of
                  Inl x \<Rightarrow> Some (Inl x)
                | Inr tx \<Rightarrow> reader_ready k (br\<lparr>br_tx := tx\<rparr>) buf)
           | InsufficientData \<Rightarrow>
               (case sender_ready (br_tx br) of
                  Inl x \<Rightarrow> Some (Inl x)
                | Inr (RP_Ready, tx) \<Rightarrow> Some (Inr (RS_Return, br\<lparr>br_tx := tx\<rparr>, buf))
                | Inr (RP_Pending, tx) \<Rightarrow> Some (Inr (RS_Backpressure, br\<lparr>br_tx := tx\<rparr>, buf))
                | Inr (RP_Gone, tx) \<Rightarrow>
                    reader_ready k (br\<lparr>br_tx := tx, br_decoder := set_corrupted (br_decoder br)\<rparr>) buf)
           | OnEof \<Rightarrow>
               (case feed_eof (br_tx br) of
                  Inl x \<Rightarrow> Some (Inl x)
                | Inr tx \<Rightarrow> reader_ready k (br\<lparr>br_tx := tx\<rparr>) buf)
           | AlreadyEof \<Rightarrow> Some (Inr (RS_Never, br, buf))
           | CR_Corrupted \<Rightarrow> Some (Inr (RS_Never, br, buf))
           | CR_Err e \<Rightarrow>
               (case reader_feed_error e br of
                  Inl x \<Rightarrow> Some (Inl x)
                | Inr br \<Rightarrow> reader_ready k br buf)))"

text \<open>
  The start of \<open>request_body_handler\<close> while the service has not answered: for a request that
  expects \<open>100-continue\<close>, wait until the service polls the body, then queue the interim
  response. \<open>Inr None\<close>: pending.
\<close>

definition await_expect ::
  "('w, 't, 'e) H1BufWrite \<Rightarrow> 'h Context \<Rightarrow> BodyReader \<Rightarrow> 'w \<Rightarrow> unit fault + (BodyReader \<times> 'w) option" where
  "await_expect W cx br w =
     (if is_expect_header cx then
        (case wait_for_poll (br_tx br) of
           Inl x \<Rightarrow> Inl x
         | Inr (RP_Ready, tx) \<Rightarrow>
             (case write_buf_static W CONTINUE w of
                None \<Rightarrow> Inl Panic
              | Some w \<Rightarrow> Inr (Some (br\<lparr>br_tx := tx\<rparr>, w)))
         | Inr (RP_Pending, tx) \<Rightarrow> Inr None
         | Inr (RP_Gone, tx) \<Rightarrow>
             Inr (Some (br\<lparr>br_tx := tx, br_decoder := set_corrupted (br_decoder br)\<rparr>, w)))
      else Inr (Some (br, w)))"

section \<open>Errors\<close>

text \<open>\<open>From<io::Error>\<close>; \<open>reset\<close> marks the kinds \<open>ConnectionReset\<close> and \<open>Interrupted\<close> among the others.\<close>

definition error_from_io :: "(nat \<Rightarrow> bool) \<Rightarrow> (nat \<Rightarrow> bool) \<Rightarrow> ErrorKind \<Rightarrow> unit fault + ('s, 'b) h1_error" where
  "error_from_io reset interrupted e =
     (case e of
        UnexpectedEof \<Rightarrow> Inr Closed
      | WriteZero \<Rightarrow> Inr Closed
      | WouldBlock \<Rightarrow> Inl Panic
      | OtherKind k \<Rightarrow>
          if reset k then Inr Closed else if interrupted k then Inl Panic else Inr (IoErr e))"

definition error_status :: "('s, 'b) h1_error \<Rightarrow> nat option" where
  "error_status e =
     (case e of
        RequestTimeout \<Rightarrow> Some 408
      | ProtoErr PE_HeaderTooLarge \<Rightarrow> Some 431
      | ProtoErr _ \<Rightarrow> Some 400
      | _ \<Rightarrow> None)"

text \<open>\<open>handle_error\<close>: \<open>Inl (Err e)\<close> hands the error on; a failure to encode the answer is a panic.\<close>

definition handle_error ::
  "('w, TransferCoding \<times> 'h Context, ProtoError \<times> 'h Context) H1BufWrite \<Rightarrow> ('h, 'u) h1_lib \<Rightarrow> ('s, 'b) h1_error \<Rightarrow>
     'h Context \<Rightarrow> 'w \<Rightarrow> (('s, 'b) h1_error fault + unit) \<times> 'h Context \<times> 'w" where
  "handle_error W L e cx w =
     (let cx = set_close cx in
      case e of
        KeepAliveExpire \<Rightarrow> (Inr (), cx, w)
      | _ \<Rightarrow>
          (case error_status e of
             None \<Rightarrow> (Inl (Err e), cx, w)
           | Some status \<Rightarrow>
               (case encode_head W L
                  \<lparr>pt_headers = hm_empty L, pt_exts = [], pt_version = HTTP_11, pt_status = status\<rparr>
                  NONE_BODY_HINT cx w of
                  (Inr (_, cx), w) \<Rightarrow> (Inr (), cx, w)
                | (Inl _, w) \<Rightarrow> (Inl Panic, cx, w))))"

section \<open>Timer\<close>

lemma timer_update_not_idle: "tm_state (timer_update now t) \<noteq> TS_Idle"
  by (cases "tm_state t") (simp_all add: timer_update_def)

lemma timer_throttle_fixed: "tm_state t = TS_Throttle \<Longrightarrow> fold timer_update nows t = t"
  by (induction nows) (simp_all add: timer_update_def)

text \<open>From the first read of a request on, its head has one deadline, however often data trickles in.\<close>

lemma timer_head_deadline:
  assumes "tm_state t = TS_Idle"
  shows "tm_deadline (fold timer_update (n0 # n1 # nows) t) = n1 + tm_req_dur t"
proof -
  have "tm_state (timer_update n1 (timer_update n0 t)) = TS_Throttle"
    "tm_deadline (timer_update n1 (timer_update n0 t)) = n1 + tm_req_dur t"
    using assms by (simp_all add: timer_update_def)
  then show ?thesis by (simp add: timer_throttle_fixed)
qed

section \<open>The body reader feeds what the decoder yields\<close>

definition chan_live :: "'e channel \<Rightarrow> bool" where
  "chan_live c \<longleftrightarrow> ch_sender c \<and> ch_receiver c"

lemma feed_data_live:
  "chan_live c \<Longrightarrow> \<exists>c'. feed_data d (Some c) = Inr (Some c') \<and> chan_live c' \<and>
     in_items (ch_inner c') = in_items (ch_inner c) @ [d] \<and> in_eof (ch_inner c') = in_eof (ch_inner c) \<and>
     in_err (ch_inner c') = in_err (ch_inner c) \<and> in_len (ch_inner c') = in_len (ch_inner c) + length d"
  by (simp add: channel_defs chan_live_def)

lemma decode_corrupted [simp]: "decode TC_Corrupted buf = (Inr CR_Corrupted, TC_Corrupted, buf)"
  and decode_eof [simp]: "decode TC_Eof buf = (Inr AlreadyEof, TC_Eof, buf)"
  by (simp_all add: decode_def)

text \<open>How a drained buffer ends up in the channel.\<close>

definition reader_result ::
  "io_error channel \<Rightarrow> bytes list \<Rightarrow> ChunkResult \<Rightarrow> TransferCoding \<Rightarrow> reader_state \<Rightarrow> BodyReader \<Rightarrow> bool" where
  "reader_result c ds r tc st br \<longleftrightarrow>
     (\<exists>c'. br_tx br = Some c' \<and> chan_live c' \<and> in_items (ch_inner c') = in_items (ch_inner c) @ ds \<and>
        (case r of
           InsufficientData \<Rightarrow> br_decoder br = tc \<and> in_eof (ch_inner c') = in_eof (ch_inner c) \<and>
             in_err (ch_inner c') = in_err (ch_inner c) \<and>
             st = (if in_len (ch_inner c) + length (concat ds) < MAX_BUFFER_SIZE then RS_Return else RS_Backpressure)
         | OnEof \<Rightarrow> st = RS_Never \<and> in_eof (ch_inner c') \<and> in_err (ch_inner c') = in_err (ch_inner c) \<and> br_decoder br = TC_Eof
         | CR_Err e \<Rightarrow> st = RS_Never \<and> in_err (ch_inner c') = Some e \<and> br_decoder br = TC_Corrupted
         | _ \<Rightarrow> st = RS_Never \<and> in_eof (ch_inner c') = in_eof (ch_inner c) \<and> in_err (ch_inner c') = in_err (ch_inner c)))"

lemma decode_loop_on_eof: "decode_loop st n buf = (OnEof, tc, rest) \<Longrightarrow> tc = TC_Eof"
proof (induction st n buf rule: decode_loop.induct)
  case (1 st n src)
  show ?case
    using 1 by (auto simp: decode_loop.simps [of st] split: prod.splits sum.splits option.splits if_splits)
qed

lemma decode_on_eof: "decode d buf = (Inr OnEof, tc, rest) \<Longrightarrow> tc = TC_Eof"
  by (cases d) (auto simp: decode_def dest: decode_loop_on_eof
      split: ChunkedState.splits if_splits prod.splits nat.splits)

lemma reader_ready_drain:
  assumes "drain k d buf = Some (ds, r, tc, rest)" and "chan_live c"
  shows "\<exists>st br'. reader_ready (Suc k) \<lparr>br_decoder = d, br_tx = Some c\<rparr> buf = Some (Inr (st, br', rest)) \<and>
           reader_result c ds r tc st br'"
  using assms
proof (induction k arbitrary: d buf ds c)
  case (Suc k)
  obtain x d1 b1 where dec: "decode d buf = (x, d1, b1)" by (cases "decode d buf")
  obtain q where x: "x = Inr q" using Suc.prems(1) dec by (cases x) auto
  show ?case
  proof (cases "\<exists>b. q = CR_Ok b")
    case True
    then obtain b where b: "q = CR_Ok b" by blast
    obtain ds' where ds: "ds = b # ds'" "drain k d1 b1 = Some (ds', r, tc, rest)"
      using Suc.prems(1) dec x b by (auto split: option.splits)
    obtain c' where c': "feed_data b (Some c) = Inr (Some c')" "chan_live c'"
      "in_items (ch_inner c') = in_items (ch_inner c) @ [b]" "in_eof (ch_inner c') = in_eof (ch_inner c)"
      "in_err (ch_inner c') = in_err (ch_inner c)" "in_len (ch_inner c') = in_len (ch_inner c) + length b"
      using feed_data_live [OF Suc.prems(2)] by blast
    obtain st br' where "reader_ready (Suc k) \<lparr>br_decoder = d1, br_tx = Some c'\<rparr> b1 = Some (Inr (st, br', rest))"
      "reader_result c' ds' r tc st br'" using Suc.IH [OF ds(2) c'(2)] by blast
    then show ?thesis using dec x b c' ds
      by (cases r) (auto simp: reader_result_def add.assoc simp del: reader_ready.simps
          simp add: reader_ready.simps(2) [of "Suc k"])
  next
    case False
    then have res: "ds = []" "r = q" "tc = d1" "rest = b1"
      using Suc.prems(1) dec x by (cases q; auto)+
    show ?thesis using False dec x res Suc.prems(2) decode_on_eof [of d buf d1 b1]
      by (cases q) (auto simp: reader_result_def channel_defs chan_live_def reader_feed_error_def set_corrupted_def
          backpressure_def not_le)
  qed
qed simp

text \<open>
  The reader of a request body never panics: without a body the decoder is at its end and
  nothing is fed, otherwise the channel exists. Enough fuel is the length of the buffer and three.
\<close>

lemma reader_ready_total:
  assumes "from_coding d = Inr br" and "\<And>st n. d = DecodeChunked st n \<Longrightarrow> chunk_wf st n"
  shows "\<exists>st br' rest. reader_ready (Suc (Suc (Suc (length buf)))) br buf = Some (Inr (st, br', rest))"
proof (cases "d = TC_Eof")
  case True
  then have "br_decoder br = TC_Eof" using assms(1) by (auto simp: from_coding_def is_eof_def)
  then show ?thesis by simp
next
  case False
  define c :: "io_error channel" where "c = \<lparr>ch_inner = inner_default, ch_sender = True, ch_receiver = True\<rparr>"
  have br: "br = \<lparr>br_decoder = d, br_tx = Some c\<rparr>" "chan_live c"
    using assms(1) False by (cases d; simp add: from_coding_def is_eof_def body_channel_def chan_live_def c_def)+
  have "d \<noteq> EncodeChunked" using assms(1) by (auto simp: from_coding_def is_eof_def)
  from drain_total [OF this assms(2)] obtain ds r tc rest where
    "drain (Suc (Suc (length buf))) d buf = Some (ds, r, tc, rest)" by (metis surj_pair)
  from reader_ready_drain [OF this br(2)] show ?thesis using br(1) by blast
qed

text \<open>What the service can read after the reader is done with a buffer, given the reference decoder's result.\<close>

definition body_delivered ::
  "bytes \<times> (io_error + ChunkedState \<times> nat) \<times> bytes \<Rightarrow> reader_state \<Rightarrow> BodyReader \<Rightarrow> bytes \<Rightarrow> bool" where
  "body_delivered out st br rest \<longleftrightarrow>
     (case (out, br_tx br) of
        ((data, R, rest'), Some c) \<Rightarrow>
          concat (in_items (ch_inner c)) = data \<and> rest = rest' \<and>
          (case R of
             Inl e \<Rightarrow> in_err (ch_inner c) = Some e \<and> st = RS_Never
           | Inr (s, n) \<Rightarrow>
               if s = End then in_eof (ch_inner c) \<and> st = RS_Never
               else br_decoder br = DecodeChunked s n \<and> \<not> in_eof (ch_inner c) \<and> in_err (ch_inner c) = None
                 \<and> st \<noteq> RS_Never)
      | _ \<Rightarrow> False)"

lemma reader_ready_chunked:
  assumes "from_coding tc_decode_chunked = Inr br"
  shows "\<exists>st br' rest. reader_ready (Suc (Suc (length buf))) br buf = Some (Inr (st, br', rest)) \<and>
    body_delivered (run Size 0 buf) st br' rest"
proof -
  define c0 :: "io_error channel" where "c0 = \<lparr>ch_inner = inner_default, ch_sender = True, ch_receiver = True\<rparr>"
  have br: "br = \<lparr>br_decoder = DecodeChunked Size 0, br_tx = Some c0\<rparr>" "chan_live c0"
    using assms by (simp_all add: from_coding_def is_eof_def body_channel_def tc_decode_chunked_def c0_def chan_live_def)
  obtain ds r tc rest where dr: "drain (Suc (length buf)) (DecodeChunked Size 0) buf = Some (ds, r, tc, rest)"
    and agr: "drain_agrees (run Size 0 buf) ds r tc rest"
    using drain_chunked [of Size 0 buf "Suc (length buf)"] by (auto simp: chunk_wf_def simp del: drain.simps)
  obtain st br' where rd: "reader_ready (Suc (Suc (length buf))) br buf = Some (Inr (st, br', rest))"
    and res: "reader_result c0 ds r tc st br'" using reader_ready_drain [OF dr br(2)] br(1) by blast
  have "body_delivered (run Size 0 buf) st br' rest"
    using agr res by (auto simp: body_delivered_def drain_agrees_def reader_result_def c0_def inner_default_def
        split: prod.splits sum.splits if_splits)
  with rd show ?thesis by blast
qed

section \<open>Expect: 100-continue\<close>

text \<open>With a body the wait is sound; without one the channel that is waited for does not exist.\<close>

lemma await_expect_body:
  assumes "br_tx br = Some c" and "write_buf_static W CONTINUE w \<noteq> None"
  shows "await_expect W cx br w \<noteq> Inl Panic"
  using assms by (auto simp: await_expect_def wait_for_poll_def ready_with_def try_inner_infallible_def
      split: option.splits)

lemma await_expect_no_body:
  assumes "is_expect_header cx" and "from_coding TC_Eof = Inr br"
  shows "await_expect W cx br w = Inl Panic"
  using assms by (auto simp: await_expect_def from_coding_def is_eof_def body_channel_def wait_for_poll_def
      ready_with_def try_inner_infallible_def)

section \<open>Answers to errors\<close>

text \<open>The head that answers an error.\<close>

definition answer :: "('h, 'u) h1_lib \<Rightarrow> nat \<Rightarrow> 'h Context \<Rightarrow> bytes" where
  "answer L status cx = ascii ''HTTP/1.1 '' @ H1_Context.status_as_str L status @ ascii '' '' @
     (case canonical_reason L status of Some r \<Rightarrow> r | None \<Rightarrow> ascii ''<none>'') @
     [13, 10] @ ascii ''connection: close'' @ [13, 10] @ ascii ''date: '' @ cx_date cx @ [13, 10, 13, 10]"

lemma error_head:
  assumes "hm_drain L (hm_empty L) = []" and "400 \<le> s"
  shows "\<exists>cx'. head_writer L \<lparr>pt_headers = hm_empty L, pt_exts = [], pt_version = HTTP_11, pt_status = s\<rparr>
      NONE_BODY_HINT (set_close cx) [] = (Inr (TC_Eof, cx'), answer L s cx) \<and> is_connection_closed cx'"
proof -
  have "skip_framing (set_close cx) s = Some False"
    using assms(2) by (auto simp: skip_framing_def is_success_def is_informational_def)
  moreover have "cx_date (set_close cx) = cx_date cx" by (simp add: set_close_def)
  moreover have "is_connection_closed (set_close cx)" by (simp add: is_connection_closed_def set_close_def context_flags.contains_insert)
  ultimately show ?thesis using assms
    by (auto simp: head_writer_def encode_head_inner_def encode_headers_def finish_headers_framing closing_lines_def Let_def
        from_stream_def replace_headers_def replace_extensions_def is_connection_closed_def answer_def CLOSE_HEADER_def CRLF_def
        encode_version_status_reason_def)
qed

context h1_response
begin

lemma handle_error_ok:
  assumes "hm_drain L (hm_empty L) = []" and "error_status e = Some s" and "room (Suc k) w"
  shows "\<exists>cx' w'. handle_error W L e cx w = (Inr (), cx', w') \<and> is_connection_closed cx' \<and> pending w' = pending w @ answer L s cx"
proof -
  have "400 \<le> s" using assms(2) by (auto simp: error_status_def split: h1_error.splits ProtoError.splits)
  then obtain cx' where hd: "head_writer L \<lparr>pt_headers = hm_empty L, pt_exts = [], pt_version = HTTP_11, pt_status = s\<rparr>
      NONE_BODY_HINT (set_close cx) [] = (Inr (TC_Eof, cx'), answer L s cx)" "is_connection_closed cx'"
    using error_head [OF assms(1)] by blast
  obtain w' where "encode_head W L \<lparr>pt_headers = hm_empty L, pt_exts = [], pt_version = HTTP_11, pt_status = s\<rparr>
      NONE_BODY_HINT (set_close cx) w = (Inr (TC_Eof, cx'), w')" "pending w' = pending w @ answer L s cx"
    using encode_head_ok [OF hd(1) assms(3)] by blast
  then show ?thesis using hd assms(2) by (cases e) (auto simp: handle_error_def Let_def error_status_def)
qed

end

lemma handle_error_pass:
  assumes "error_status e = None" and "e \<noteq> KeepAliveExpire"
  shows "handle_error W L e cx w = (Inl (Err e), set_close cx, w)"
  using assms by (cases e) (simp_all add: handle_error_def Let_def)

section \<open>Properties\<close>

text \<open>
  C20: One call of the body reader on a chunked request body hands the service exactly the data that the
  reference machine extracts from the read buffer, then the error or the end if there is one, and leaves the
  rest in the read buffer; it never panics, and it returns within as many turns as the buffer has bytes plus two.
\<close>

theorem reader_delivers_body:
  "\<exists>br st br' rest. from_coding tc_decode_chunked = Inr br \<and>
     reader_ready (Suc (Suc (length buf))) br buf = Some (Inr (st, br', rest)) \<and>
     body_delivered (run Size 0 buf) st br' rest"
proof -
  obtain br where "from_coding tc_decode_chunked = Inr br" by (simp add: from_coding_def tc_decode_chunked_def is_eof_def)
  with reader_ready_chunked [OF this, of buf] show ?thesis by blast
qed

text \<open>
  C33: From the first read on the head of a request has one deadline, however often further reads of the same
  head trickle in.
\<close>

theorem request_head_deadline:
  assumes "tm_state t = TS_Idle"
  shows "tm_deadline (fold timer_update (n0 # n1 # nows) t) = n1 + tm_req_dur t"
  using assms by (rule timer_head_deadline)

theorem request_head_deadline_witness:
  "tm_deadline (fold timer_update [10, 12, 20, 29, 35] (timer_new 0 5 30)) = 42"
  using request_head_deadline [of "timer_new 0 5 30" 10 12 "[20, 29, 35]"] by (simp add: timer_new_def)

text \<open>
  C37: A request without a body that expects \<open>100-continue\<close> makes the connection task panic: while the service is
  still working, the handler of the request body waits for a poll of a body channel that does not exist.
\<close>

theorem expect_without_body_panics:
  assumes "decode_head L mh lim buf cx = (Inr (Some (req, TC_Eof)), cx', buf')" and "is_expect_header cx'"
  shows "\<exists>br. from_coding TC_Eof = Inr br \<and> await_expect W cx' br w = Inl Panic"
proof -
  obtain br where "from_coding TC_Eof = Inr br" by (simp add: from_coding_def is_eof_def)
  with await_expect_no_body [OF assms(2) this, of W w] show ?thesis by blast
qed

definition expect_request :: "((HeaderName \<times> bytes) list, bytes) h1_lib" where
  "expect_request = one_request (ascii ''G / ex:100-continue;'')
     \<lparr>ph_len = 20, ph_method = ascii ''G'', ph_version = 1, ph_path = (2, 1), ph_headers = [((4, 2), (7, 12))]\<rparr>"

lemma expect_request_decoded:
  "\<exists>req cx'. decode_head expect_request 8 64 (ascii ''G / ex:100-continue;'') (with_addr 0 []) =
     (Inr (Some (req, TC_Eof)), cx', []) \<and> is_expect_header cx'"
  by (simp add: decode_head_def expect_request_def one_request_def ascii_def method_coding_def request_version_def
      record_indices_def slice_range_def take_headers_def take_extensions_def with_addr_def try_write_header_def
      read_header_def header_effect_def eq_ignore_ascii_case_def ascii_lower_def Let_def)
    (simp add: is_expect_header_def set_expect_header_def cx_reset_def cs_new_def cs_insert_def cs_contains_def EXPECT_def)

theorem expect_without_body_panics_witness:
  "\<exists>req cx' br. decode_head expect_request 8 64 (ascii ''G / ex:100-continue;'') (with_addr 0 []) =
       (Inr (Some (req, TC_Eof)), cx', []) \<and> from_coding TC_Eof = Inr br \<and>
     await_expect h1_write_buf cx' br \<lparr>wb_buf = [], wb_want_flush = False\<rparr> = Inl Panic"
proof -
  obtain req cx' where d: "decode_head expect_request 8 64 (ascii ''G / ex:100-continue;'') (with_addr 0 []) =
     (Inr (Some (req, TC_Eof)), cx', [])" "is_expect_header cx'"
    using expect_request_decoded by blast
  from expect_without_body_panics [OF d, of h1_write_buf] d(1) show ?thesis by blast
qed

text \<open>
  C31: Errors in a request are answered with the right status: a timeout with 408, a head that is too large with 431 and
  every other error of the protocol with 400. The connection is marked for closing and exactly one head is appended to
  the write buffer: the status line, \<open>connection: close\<close> and the date, without a body. Every other error is handed on
  and nothing is written, except that an expired keep-alive ends the connection silently.
\<close>

theorem error_is_answered:
  assumes "hm_drain L (hm_empty L) = []"
  shows "(\<forall>s. (e = RequestTimeout \<and> s = 408 \<or> e = ProtoErr PE_HeaderTooLarge \<and> s = 431 \<or>
        (\<exists>p. e = ProtoErr p \<and> p \<noteq> PE_HeaderTooLarge \<and> s = 400)) \<longrightarrow>
      (\<exists>cx' w'. handle_error h1_write_buf L e cx w = (Inr (), cx', w') \<and> is_connection_closed cx' \<and>
         wb_buf w' = wb_buf w @ answer L s cx)) \<and>
    (e \<noteq> RequestTimeout \<and> (\<forall>p. e \<noteq> ProtoErr p) \<longrightarrow>
      handle_error h1_write_buf L e cx w = (if e = KeepAliveExpire then Inr () else Inl (Err e), set_close cx, w))"
proof -
  have "error_status e = Some s" if "e = RequestTimeout \<and> s = 408 \<or> e = ProtoErr PE_HeaderTooLarge \<and> s = 431 \<or>
      (\<exists>p. e = ProtoErr p \<and> p \<noteq> PE_HeaderTooLarge \<and> s = 400)" for s
    using that by (auto simp: error_status_def split: ProtoError.splits)
  note answered = write_buf_response.handle_error_ok [OF assms this TrueI]
  have "handle_error h1_write_buf L e cx w = (if e = KeepAliveExpire then Inr () else Inl (Err e), set_close cx, w)"
    if "e \<noteq> RequestTimeout \<and> (\<forall>p. e \<noteq> ProtoErr p)"
    using that by (cases e) (auto simp: handle_error_def Let_def error_status_def)
  with answered show ?thesis by blast
qed

theorem error_is_answered_witness:
  "\<exists>cx' w'. handle_error h1_write_buf chunked_request (ProtoErr PE_HeaderTooLarge :: (nat, nat) h1_error) (with_addr 0 [])
      \<lparr>wb_buf = [1], wb_want_flush = False\<rparr> = (Inr (), cx', w') \<and> wb_buf w' = [1] @ answer chunked_request 431 (with_addr 0 [])"
proof -
  have "hm_drain chunked_request (hm_empty chunked_request) = []" by (simp add: chunked_request_def one_request_def)
  from error_is_answered [OF this, of "ProtoErr PE_HeaderTooLarge :: (nat, nat) h1_error" "with_addr 0 []"
      "\<lparr>wb_buf = [1], wb_want_flush = False\<rparr>"] show ?thesis by auto
qed

end
