(* ===== verification/Rate_Gcra.thy ===== *)
theory Rate_Gcra
  imports Prelude
begin

text \<open>
  The rate limiter of \<open>http-rate\<close>: quotas (\<open>quota.rs\<close>), the generic cell rate algorithm
  (\<open>gcra.rs\<close>), its snapshots (\<open>snapshot.rs\<close>) and times (\<open>nanos.rs\<close>). A \<open>Duration\<close> is its number
  of nanoseconds; \<open>Nanos\<close> is a 64-bit number whose addition wraps (\<open>usize_add\<close>). \<open>None\<close> is a
  panic, or the \<open>None\<close> of a constructor.
\<close>

section \<open>Quotas\<close>

record Quota =
  max_burst :: nat
  replenish_1_per :: nat

definition quota_new :: "nat \<Rightarrow> nat \<Rightarrow> Quota" where
  "quota_new burst dur_ns = \<lparr>max_burst = burst, replenish_1_per = dur_ns mod 2 ^ 64\<rparr>"

text \<open>\<open>try_into().unwrap()\<close> to a \<open>NonZeroU32\<close>.\<close>

definition nonzero_u32 :: "nat \<Rightarrow> nat option" where
  "nonzero_u32 n = (if 0 < n \<and> n < 2 ^ 32 then Some n else None)"

definition per_second :: "nat \<Rightarrow> Quota option" where
  "per_second b = map_option (\<lambda>b. quota_new b (1000000000 div b)) (nonzero_u32 b)"

definition per_minute :: "nat \<Rightarrow> Quota option" where
  "per_minute b = map_option (\<lambda>b. quota_new b (60 * 1000000000 div b)) (nonzero_u32 b)"

definition per_hour :: "nat \<Rightarrow> Quota option" where
  "per_hour b = map_option (\<lambda>b. quota_new b (60 * 60 * 1000000000 div b)) (nonzero_u32 b)"

definition with_period :: "nat \<Rightarrow> Quota option" where
  "with_period d = (if d = 0 then None else Some \<lparr>max_burst = 1, replenish_1_per = d\<rparr>)"

definition allow_burst :: "nat \<Rightarrow> Quota \<Rightarrow> Quota option" where
  "allow_burst b q = map_option (\<lambda>b. q\<lparr>max_burst := b\<rparr>) (nonzero_u32 b)"

definition from_gcra_parameters :: "nat \<Rightarrow> nat \<Rightarrow> Quota option" where
  "from_gcra_parameters t tau =
     (if t = 0 then None
      else map_option (\<lambda>b. \<lparr>max_burst = b, replenish_1_per = t\<rparr>) (nonzero_u32 ((tau div t) mod 2 ^ 32)))"

section \<open>Nanoseconds\<close>

definition nanos_from_duration :: "nat \<Rightarrow> nat option" where
  "nanos_from_duration d = (if d \<le> u64_max then Some d else None)"

text \<open>\<open>Reference::duration_since\<close> and \<open>saturating_sub\<close>: both saturate at zero.\<close>

definition duration_since :: "nat \<Rightarrow> nat \<Rightarrow> nat" where
  "duration_since later earlier = later - earlier"

section \<open>GCRA\<close>

record RateSnapshot =
  sn_t :: nat
  sn_tau :: nat
  sn_time :: nat
  sn_tat :: nat

record NotUntil =
  nu_state :: RateSnapshot
  nu_start :: nat

definition earliest_possible :: "NotUntil \<Rightarrow> nat" where
  "earliest_possible n = nu_start n + sn_tat (nu_state n)"

definition wait_time_from :: "NotUntil \<Rightarrow> nat \<Rightarrow> nat" where
  "wait_time_from n from =
     (let earliest = earliest_possible n in duration_since earliest (min earliest from))"

record Gcra =
  g_t :: nat
  g_tau :: nat

definition gcra_new :: "Quota \<Rightarrow> Gcra option" where
  "gcra_new q =
     (case nanos_from_duration (max (replenish_1_per q) 1 * max_burst q) of
        None \<Rightarrow> None
      | Some tau \<Rightarrow> (case nanos_from_duration (replenish_1_per q) of
          None \<Rightarrow> None
        | Some t \<Rightarrow> Some \<lparr>g_t = t, g_tau = tau\<rparr>))"

definition starting_state :: "Gcra \<Rightarrow> nat \<Rightarrow> nat" where
  "starting_state g t0 = usize_add t0 (g_t g)"

text \<open>The closure of \<open>test_and_update\<close>: the state is the theoretical arrival time, if there is one.\<close>

definition decide :: "Gcra \<Rightarrow> nat \<Rightarrow> nat \<Rightarrow> nat option \<Rightarrow> NotUntil + (RateSnapshot \<times> nat)" where
  "decide g start t0 state =
     (let tat = (case state of Some tat \<Rightarrow> tat | None \<Rightarrow> starting_state g t0);
          earliest_time = tat - g_tau g
      in if t0 < earliest_time then
           Inl \<lparr>nu_state = \<lparr>sn_t = g_t g, sn_tau = g_tau g, sn_time = earliest_time, sn_tat = earliest_time\<rparr>,
                nu_start = start\<rparr>
         else
           let nxt = usize_add (max tat t0) (g_t g)
           in Inr (\<lparr>sn_t = g_t g, sn_tau = g_tau g, sn_time = t0, sn_tat = nxt\<rparr>, nxt))"

definition test_and_update ::
  "('key \<Rightarrow> (nat option \<Rightarrow> NotUntil + (RateSnapshot \<times> nat)) \<Rightarrow> 's \<Rightarrow> (NotUntil + RateSnapshot) \<times> 's) \<Rightarrow>
     Gcra \<Rightarrow> nat \<Rightarrow> 'key \<Rightarrow> 's \<Rightarrow> nat \<Rightarrow> (NotUntil + RateSnapshot) \<times> 's" where
  "test_and_update measure_and_replace g start key state t0 =
     measure_and_replace key (decide g start (duration_since t0 start)) state"

section \<open>Snapshots\<close>

definition snapshot_quota :: "RateSnapshot \<Rightarrow> Quota option" where
  "snapshot_quota s = from_gcra_parameters (sn_t s) (sn_tau s)"

definition remaining_burst_capacity :: "RateSnapshot \<Rightarrow> nat option" where
  "remaining_burst_capacity s =
     (if sn_t s = 0 then None
      else
        let t0 = usize_add (sn_time s) (sn_t s)
        in Some ((min (usize_add t0 (sn_tau s) - sn_tat s) (sn_tau s) div sn_t s) mod 2 ^ 32))"

text \<open>The two headers a decision adds, or a panic.\<close>

definition extend_response :: "RateSnapshot \<Rightarrow> (nat \<times> nat) option" where
  "extend_response s =
     (case snapshot_quota s of
        None \<Rightarrow> None
      | Some q \<Rightarrow> (case remaining_burst_capacity s of
          None \<Rightarrow> None
        | Some r \<Rightarrow> Some (max_burst q, r)))"

section \<open>Quotas survive the algorithm\<close>

lemma quota_roundtrip:
  assumes "gcra_new q = Some g" and "0 < replenish_1_per q" and "0 < max_burst q" and "max_burst q < 2 ^ 32"
  shows "from_gcra_parameters (g_t g) (g_tau g) = Some q"
proof -
  have g: "g_t g = replenish_1_per q" "g_tau g = replenish_1_per q * max_burst q"
    using assms(1,2) by (auto simp: gcra_new_def nanos_from_duration_def max_def split: option.splits if_splits)
  then show ?thesis using assms(2-4) by (simp add: from_gcra_parameters_def nonzero_u32_def)
qed

section \<open>How much is let through\<close>

text \<open>How many of a sequence of checks at the given times pass, on one state.\<close>

fun passed :: "Gcra \<Rightarrow> nat \<Rightarrow> nat list \<Rightarrow> nat option \<Rightarrow> nat" where
  "passed g start [] s = 0"
| "passed g start (t # ts) s =
     (case decide g start t s of
        Inl _ \<Rightarrow> passed g start ts s
      | Inr (_, n) \<Rightarrow> Suc (passed g start ts (Some n)))"

text \<open>Times at which the 64-bit sums do not wrap.\<close>

definition in_range :: "Gcra \<Rightarrow> nat \<Rightarrow> bool" where
  "in_range g t \<longleftrightarrow> t + g_tau g + 2 * g_t g < 2 ^ 64"

definition tat_at :: "Gcra \<Rightarrow> nat \<Rightarrow> nat option \<Rightarrow> nat" where
  "tat_at g t0 s = (case s of Some tat \<Rightarrow> tat | None \<Rightarrow> t0 + g_t g)"

lemma decide_iff:
  assumes "in_range g t0"
  shows "decide g start t0 s = (if tat_at g t0 s \<le> t0 + g_tau g
     then Inr (\<lparr>sn_t = g_t g, sn_tau = g_tau g, sn_time = t0, sn_tat = max (tat_at g t0 s) t0 + g_t g\<rparr>,
               max (tat_at g t0 s) t0 + g_t g)
     else Inl \<lparr>nu_state = \<lparr>sn_t = g_t g, sn_tau = g_tau g, sn_time = tat_at g t0 s - g_tau g,
                 sn_tat = tat_at g t0 s - g_tau g\<rparr>, nu_start = start\<rparr>)"
proof -
  have st: "starting_state g t0 = t0 + g_t g"
    using assms unfolding starting_state_def in_range_def by (intro usize_add_small) simp
  have nx: "usize_add (max (tat_at g t0 s) t0) (g_t g) = max (tat_at g t0 s) t0 + g_t g"
    if "tat_at g t0 s \<le> t0 + g_tau g"
    using that assms unfolding in_range_def by (intro usize_add_small) simp
  show ?thesis using nx st
    by (cases s) (auto simp: decide_def Let_def tat_at_def)
qed

lemma passed_Cons:
  "in_range g t \<Longrightarrow> passed g start (t # ts) s =
     (if tat_at g t s \<le> t + g_tau g then Suc (passed g start ts (Some (max (tat_at g t s) t + g_t g)))
      else passed g start ts s)"
  by (simp add: decide_iff)

text \<open>
  In a window that starts at \<open>s0\<close> and lasts \<open>d\<close>, whatever came before: the cells let through but
  the first fit into the length of the window and the burst capacity.
\<close>

lemma passed_bound_from:
  "\<forall>t\<in>set ts. s0 \<le> t \<and> t \<le> s0 + d \<and> in_range g t \<Longrightarrow> s0 + m * g_t g \<le> tat \<Longrightarrow>
     0 < passed g start ts (Some tat) \<Longrightarrow> (m + passed g start ts (Some tat) - 1) * g_t g \<le> d + g_tau g"
proof (induction ts arbitrary: tat m)
  case (Cons t ts)
  have rng: "in_range g t" and t: "s0 \<le> t" "t \<le> s0 + d" using Cons.prems(1) by auto
  show ?case
  proof (cases "tat \<le> t + g_tau g")
    case True
    define k where "k = passed g start ts (Some (max tat t + g_t g))"
    have p: "passed g start (t # ts) (Some tat) = Suc k"
      using True by (simp add: passed_Cons [OF rng] tat_at_def k_def del: passed.simps)
    have m: "s0 + Suc m * g_t g \<le> max tat t + g_t g" using Cons.prems(2) by simp
    show ?thesis
    proof (cases "k = 0")
      case True
      have "m * g_t g \<le> d + g_tau g" using Cons.prems(2) \<open>tat \<le> t + g_tau g\<close> t by linarith
      then show ?thesis unfolding p using True by simp
    next
      case False
      then show ?thesis unfolding p using Cons.IH [OF _ m] Cons.prems(1) by (simp add: k_def)
    qed
  next
    case False
    then have "passed g start (t # ts) (Some tat) = passed g start ts (Some tat)"
      by (simp add: passed_Cons [OF rng] tat_at_def del: passed.simps)
    then show ?thesis using Cons by (simp del: passed.simps)
  qed
qed simp

lemma passed_bound:
  "\<forall>t\<in>set ts. s0 \<le> t \<and> t \<le> s0 + d \<and> in_range g t \<Longrightarrow> (passed g start ts s - 1) * g_t g \<le> d + g_tau g"
proof (induction ts)
  case (Cons t ts)
  have rng: "in_range g t" and t: "s0 \<le> t" using Cons.prems by auto
  show ?case
  proof (cases "tat_at g t s \<le> t + g_tau g")
    case True
    have "s0 + 1 * g_t g \<le> max (tat_at g t s) t + g_t g" using t by simp
    from passed_bound_from [OF _ this, of ts d start] Cons.prems
    have "passed g start ts (Some (max (tat_at g t s) t + g_t g)) * g_t g \<le> d + g_tau g"
      by (cases "passed g start ts (Some (max (tat_at g t s) t + g_t g)) = 0") simp_all
    then show ?thesis using True by (auto simp: passed_Cons [OF rng] simp del: passed.simps)
  next
    case False
    then show ?thesis using Cons by (simp add: passed_Cons [OF rng] del: passed.simps)
  qed
qed simp

text \<open>A burst: how many checks pass at one instant, from a given arrival time.\<close>

lemma passed_burst:
  assumes "in_range g t0" and "0 < g_t g"
  shows "t0 \<le> tat \<Longrightarrow> passed g start (replicate n t0) (Some tat) =
    min n (if tat \<le> t0 + g_tau g then Suc ((t0 + g_tau g - tat) div g_t g) else 0)"
proof (induction n arbitrary: tat)
  case (Suc n)
  show ?case
  proof (cases "tat \<le> t0 + g_tau g")
    case True
    have "passed g start (replicate (Suc n) t0) (Some tat) = Suc (passed g start (replicate n t0) (Some (tat + g_t g)))"
      using True Suc.prems passed_Cons [OF assms(1), of start "replicate n t0" "Some tat"]
      by (simp add: tat_at_def max_absorb1 del: passed.simps)
    also have "passed g start (replicate n t0) (Some (tat + g_t g)) =
        min n (if tat + g_t g \<le> t0 + g_tau g then Suc ((t0 + g_tau g - (tat + g_t g)) div g_t g) else 0)"
      using Suc.IH [of "tat + g_t g"] Suc.prems by simp
    also have "(if tat + g_t g \<le> t0 + g_tau g then Suc ((t0 + g_tau g - (tat + g_t g)) div g_t g) else 0)
        = (t0 + g_tau g - tat) div g_t g"
      using assms(2) True by (auto simp: div_if [of "t0 + g_tau g - tat"] diff_diff_add not_le less_diff_conv2)
    finally show ?thesis using True by simp
  next
    case False
    then show ?thesis using Suc passed_Cons [OF assms(1), of start "replicate n t0" "Some tat"]
      by (simp add: tat_at_def del: passed.simps)
  qed
qed simp

text \<open>A new limiter lets exactly its burst size through at once, one that was idle one cell more.\<close>

lemma passed_replicate_None:
  "in_range g t0 \<Longrightarrow> g_tau g < g_t g \<Longrightarrow> passed g start (replicate n t0) None = 0"
  by (induction n) (simp_all add: passed_Cons tat_at_def del: passed.simps(2))

lemma passed_burst_new:
  assumes "in_range g t0" and "0 < g_t g" and "g_tau g = g_t g * b"
  shows "passed g start (replicate n t0) None = min n b"
proof (cases n)
  case (Suc m)
  show ?thesis
  proof (cases b)
    case 0
    then show ?thesis using assms passed_replicate_None [OF assms(1), of start n] by simp
  next
    case (Suc c)
    have "passed g start (replicate n t0) None = Suc (passed g start (replicate m t0) (Some (t0 + g_t g + g_t g)))"
      using assms Suc \<open>n = Suc m\<close> passed_Cons [OF assms(1), of start "replicate m t0" None]
      by (simp add: tat_at_def del: passed.simps)
    also have "passed g start (replicate m t0) (Some (t0 + g_t g + g_t g)) = min m c"
    proof -
      have "(if t0 + g_t g + g_t g \<le> t0 + g_tau g then Suc ((t0 + g_tau g - (t0 + g_t g + g_t g)) div g_t g) else 0) = c"
        using assms(2,3) Suc by (cases c) (auto simp: algebra_simps)
      then show ?thesis using passed_burst [OF assms(1,2), of "t0 + g_t g + g_t g" start m] by simp
    qed
    finally show ?thesis using Suc \<open>n = Suc m\<close> by simp
  qed
qed simp

lemma passed_burst_idle:
  assumes "in_range g t0" and "0 < g_t g" and "g_tau g = g_t g * b" and "tat \<le> t0"
  shows "passed g start (replicate n t0) (Some tat) = min n (Suc b)"
proof (cases n)
  case (Suc m)
  have "passed g start (replicate n t0) (Some tat) = Suc (passed g start (replicate m t0) (Some (t0 + g_t g)))"
    using assms Suc passed_Cons [OF assms(1), of start "replicate m t0" "Some tat"]
    by (simp add: tat_at_def max_absorb2 del: passed.simps)
  also have "passed g start (replicate m t0) (Some (t0 + g_t g)) = min m b"
  proof -
    have "(if t0 + g_t g \<le> t0 + g_tau g then Suc ((t0 + g_tau g - (t0 + g_t g)) div g_t g) else 0) = b"
      using assms(2,3) by (cases b) (auto simp: algebra_simps)
    then show ?thesis using passed_burst [OF assms(1,2), of "t0 + g_t g" start m] by simp
  qed
  finally show ?thesis using Suc by simp
qed simp

text \<open>The capacity a decision reports is the number of cells that still pass at that instant.\<close>

lemma remaining_exact:
  assumes "in_range g t0" and "0 < g_t g" and "g_tau g div g_t g < 2 ^ 32"
    and "decide g start t0 s = Inr (sn, n)"
  shows "\<exists>r. remaining_burst_capacity sn = Some r \<and> passed g start (replicate k t0) (Some n) = min k r"
proof -
  define tat where "tat = max (tat_at g t0 s) t0"
  have tat: "t0 \<le> tat" "tat \<le> t0 + g_tau g" and n: "n = tat + g_t g"
    and sn: "sn = \<lparr>sn_t = g_t g, sn_tau = g_tau g, sn_time = t0, sn_tat = n\<rparr>"
    using assms(4) by (auto simp: decide_iff [OF assms(1)] tat_def split: if_splits)
  have sums: "usize_add t0 (g_t g) = t0 + g_t g" "usize_add (t0 + g_t g) (g_tau g) = t0 + g_t g + g_tau g"
    using assms(1) unfolding in_range_def by (intro usize_add_small; simp)+
  define r where "r = (t0 + g_tau g - tat) div g_t g"
  have "r \<le> g_tau g div g_t g" unfolding r_def using tat by (intro div_le_mono) simp
  then have "r mod 2 ^ 32 = r" using assms(3) by simp
  then have "remaining_burst_capacity sn = Some r"
    using assms(2) tat by (simp add: remaining_burst_capacity_def sn sums n r_def Let_def)
  moreover have "(if n \<le> t0 + g_tau g then Suc ((t0 + g_tau g - n) div g_t g) else 0) = r"
    using assms(2) tat unfolding n r_def
    by (auto simp: div_if [of "t0 + g_tau g - tat"] diff_diff_add not_le less_diff_conv2)
  ultimately show ?thesis using passed_burst [OF assms(1,2), of n start k] tat n by simp
qed

text \<open>A refusal names the earliest time at which the same check would pass.\<close>

lemma refusal_exact:
  assumes "in_range g t0" and "in_range g t1" and "t0 \<le> t1" and "g_t g \<le> g_tau g" and "decide g start t0 s = Inl n"
  shows "isl (decide g start t1 s) \<longleftrightarrow> start + t1 < earliest_possible n"
proof -
  obtain tat where s: "s = Some tat"
    using assms by (cases s) (auto simp: decide_iff tat_at_def split: if_splits)
  then have "n = \<lparr>nu_state = \<lparr>sn_t = g_t g, sn_tau = g_tau g, sn_time = tat - g_tau g, sn_tat = tat - g_tau g\<rparr>, nu_start = start\<rparr>"
    using assms(5) by (auto simp: decide_iff [OF assms(1)] tat_at_def split: if_splits)
  then show ?thesis using s by (auto simp: decide_iff [OF assms(2)] tat_at_def earliest_possible_def)
qed

section \<open>Properties\<close>

text \<open>
  C36: After an idle time a burst of one more than the configured burst size passes at once: the decision allows
  the theoretical arrival time to lie the whole tolerance ahead before it is advanced.
\<close>

theorem idle_burst_is_one_more:
  assumes "in_range g t0" and "0 < g_t g" and "g_tau g = g_t g * b" and "tat \<le> t0"
  shows "passed g start (replicate n t0) (Some tat) = min n (Suc b)"
  using assms by (rule passed_burst_idle)

theorem idle_burst_is_one_more_witness:
  "passed \<lparr>g_t = 10, g_tau = 30\<rparr> 0 (replicate 9 100) (Some 50) = 4"
  using idle_burst_is_one_more [of "\<lparr>g_t = 10, g_tau = 30\<rparr>" 100 3 50 0 9]
  by (simp add: in_range_def)

text \<open>
  C34: The remaining capacity reported with a positive decision is exact: at the same instant just that many
  further checks pass.
\<close>

theorem reported_capacity_exact:
  assumes "in_range g t0" and "0 < g_t g" and "g_tau g div g_t g < 2 ^ 32"
    and "decide g start t0 s = Inr (sn, n)"
  shows "\<exists>r. remaining_burst_capacity sn = Some r \<and> passed g start (replicate k t0) (Some n) = min k r"
  using assms by (rule remaining_exact)

theorem reported_capacity_exact_witness:
  "\<exists>sn n r. decide \<lparr>g_t = 10, g_tau = 30\<rparr> 0 100 None = Inr (sn, n) \<and> remaining_burst_capacity sn = Some r \<and>
     passed \<lparr>g_t = 10, g_tau = 30\<rparr> 0 (replicate 9 100) (Some n) = min 9 r"
proof -
  have r: "in_range \<lparr>g_t = 10, g_tau = 30\<rparr> 100" by (simp add: in_range_def)
  obtain sn n where d: "decide \<lparr>g_t = 10, g_tau = 30\<rparr> 0 100 None = Inr (sn, n)"
    by (simp add: decide_iff [OF r] tat_at_def)
  from reported_capacity_exact [OF r _ _ d, of 9] obtain r where "remaining_burst_capacity sn = Some r"
    "passed \<lparr>g_t = 10, g_tau = 30\<rparr> 0 (replicate 9 100) (Some n) = min 9 r" by auto
  with d show ?thesis by (intro exI conjI)
qed

text \<open>
  C35: The instant reported with a refusal is exact: a later check on the same state is refused again just before
  that instant and passes from it on.
\<close>

theorem reported_wait_exact:
  assumes "in_range g t0" and "in_range g t1" and "t0 \<le> t1" and "g_t g \<le> g_tau g" and "decide g start t0 s = Inl n"
  shows "isl (decide g start t1 s) \<longleftrightarrow> start + t1 < earliest_possible n"
  using assms by (rule refusal_exact)

theorem reported_wait_exact_witness:
  "\<exists>n. decide \<lparr>g_t = 10, g_tau = 30\<rparr> 0 100 (Some 140) = Inl n \<and>
     (isl (decide \<lparr>g_t = 10, g_tau = 30\<rparr> 0 110 (Some 140)) \<longleftrightarrow> 0 + 110 < earliest_possible n)"
proof -
  have r: "in_range \<lparr>g_t = 10, g_tau = 30\<rparr> 100" "in_range \<lparr>g_t = 10, g_tau = 30\<rparr> 110" by (simp_all add: in_range_def)
  obtain n where d: "decide \<lparr>g_t = 10, g_tau = 30\<rparr> 0 100 (Some 140) = Inl n"
    by (simp add: decide_iff [OF r(1)] tat_at_def)
  from reported_wait_exact [OF r _ _ d] have
    "isl (decide \<lparr>g_t = 10, g_tau = 30\<rparr> 0 110 (Some 140)) \<longleftrightarrow> 0 + 110 < earliest_possible n" by simp
  with d show ?thesis by (intro exI conjI)
qed

text \<open>
  The quota a snapshot reports is the quota the limiter was configured with.
\<close>

theorem snapshot_reports_quota:
  assumes "gcra_new q = Some g" and "0 < replenish_1_per q" and "0 < max_burst q" and "max_burst q < 2 ^ 32"
    and "sn_t sn = g_t g" and "sn_tau sn = g_tau g"
  shows "snapshot_quota sn = Some q"
  using quota_roundtrip [OF assms(1-4)] assms(5,6) by (simp add: snapshot_quota_def)

theorem snapshot_reports_quota_witness:
  "snapshot_quota \<lparr>sn_t = 1000, sn_tau = 5000, sn_time = 3, sn_tat = 4\<rparr> = Some \<lparr>max_burst = 5, replenish_1_per = 1000\<rparr>"
proof -
  have "gcra_new \<lparr>max_burst = 5, replenish_1_per = 1000\<rparr> = Some \<lparr>g_t = 1000, g_tau = 5000\<rparr>"
    by (simp add: gcra_new_def nanos_from_duration_def checked_mul_def u64_max_def)
  from snapshot_reports_quota [OF this, of "\<lparr>sn_t = 1000, sn_tau = 5000, sn_time = 3, sn_tat = 4\<rparr>"] show ?thesis by simp
qed

end
