(* ===== verification/Rate_State.thy ===== *)
theory Rate_State
  imports Rate_Gcra
begin

text \<open>
  State stores of the rate limiter, \<open>http-rate/src/state\<close>, and the limiter per client address of
  \<open>http-rate/src/lib.rs\<close>. The atomic cell is modelled twice: \<open>measure_and_replace_one\<close> without
  contention, and as the steps of any number of threads, where the compare-and-exchange may
  fail. The threads are linearizable to the sequential function. The locale \<open>state_store\<close> is
  the contract of the trait \<open>StateStore\<close>, kept by the direct and by the keyed store.
\<close>

section \<open>The atomic cell\<close>

text \<open>\<open>NonZeroU64::new\<close>: a cell that holds zero has not been measured yet.\<close>

definition non_zero :: "nat \<Rightarrow> nat option" where
  "non_zero n = (if n = 0 then None else Some n)"

definition measure_and_replace_one :: "(nat option \<Rightarrow> 'e + ('t \<times> nat)) \<Rightarrow> nat \<Rightarrow> ('e + 't) \<times> nat" where
  "measure_and_replace_one f cell =
     (case f (non_zero cell) of
        Inl e \<Rightarrow> (Inl e, cell)
      | Inr (r, new) \<Rightarrow> (Inr r, new))"

text \<open>
  The loop with other threads: a thread has not started, is about to exchange a value it has
  read for a new one, or is done.
\<close>

datatype ('e, 't) pc = Start | Exchange nat 't nat | Done "'e + 't"

record ('e, 't) cas_state =
  cs_cell :: nat
  cs_pc :: "nat \<Rightarrow> ('e, 't) pc"
  cs_log :: "(nat \<times> ('e + 't)) list"

text \<open>The decision on a value just read; a refusal leaves the loop. The log is the order of the decisions.\<close>

definition after_read :: "(nat \<Rightarrow> nat option \<Rightarrow> 'e + ('t \<times> nat)) \<Rightarrow> nat \<Rightarrow> ('e, 't) cas_state \<Rightarrow> ('e, 't) cas_state" where
  "after_read f i st =
     (case f i (non_zero (cs_cell st)) of
        Inl e \<Rightarrow> st\<lparr>cs_pc := (cs_pc st)(i := Done (Inl e)), cs_log := cs_log st @ [(i, Inl e)]\<rparr>
      | Inr (r, new) \<Rightarrow> st\<lparr>cs_pc := (cs_pc st)(i := Exchange (cs_cell st) r new)\<rparr>)"

text \<open>
  \<open>compare_exchange_weak\<close> succeeds only on the value it expects; it may fail on it, too, and
  then reports the value it found.
\<close>

inductive cas_step ::
  "(nat \<Rightarrow> nat option \<Rightarrow> 'e + ('t \<times> nat)) \<Rightarrow> ('e, 't) cas_state \<Rightarrow> ('e, 't) cas_state \<Rightarrow> bool" for f where
  load: "cs_pc st i = Start \<Longrightarrow> cas_step f st (after_read f i st)"
| exchange: "cs_pc st i = Exchange prev r new \<Longrightarrow> cs_cell st = prev \<Longrightarrow>
    cas_step f st (st\<lparr>cs_cell := new, cs_pc := (cs_pc st)(i := Done (Inr r)), cs_log := cs_log st @ [(i, Inr r)]\<rparr>)"
| retry: "cs_pc st i = Exchange prev r new \<Longrightarrow> cas_step f st (after_read f i st)"

definition cas_init :: "nat \<Rightarrow> ('e, 't) cas_state" where
  "cas_init c = \<lparr>cs_cell = c, cs_pc = (\<lambda>_. Start), cs_log = []\<rparr>"

inductive cas_reach ::
  "(nat \<Rightarrow> nat option \<Rightarrow> 'e + ('t \<times> nat)) \<Rightarrow> nat \<Rightarrow> ('e, 't) cas_state \<Rightarrow> bool" for f c where
  cas_reach_init: "cas_reach f c (cas_init c)"
| cas_reach_step: "cas_reach f c st \<Longrightarrow> cas_step f st st' \<Longrightarrow> cas_reach f c st'"

text \<open>The same calls one after the other: the results and the cell.\<close>

fun replay :: "(nat \<Rightarrow> nat option \<Rightarrow> 'e + ('t \<times> nat)) \<Rightarrow> nat list \<Rightarrow> nat \<Rightarrow> ('e + 't) list \<times> nat" where
  "replay f [] c = ([], c)"
| "replay f (i # is) c =
     (let (r, c) = measure_and_replace_one (f i) c; (rs, c) = replay f is c in (r # rs, c))"

lemma replay_snoc:
  "replay f (is @ [i]) c =
     (let (rs, c) = replay f is c; (r, c) = measure_and_replace_one (f i) c in (rs @ [r], c))"
  by (induction "is" arbitrary: c) (simp_all add: Let_def case_prod_beta)

definition cas_inv :: "(nat \<Rightarrow> nat option \<Rightarrow> 'e + ('t \<times> nat)) \<Rightarrow> nat \<Rightarrow> ('e, 't) cas_state \<Rightarrow> bool" where
  "cas_inv f c st \<longleftrightarrow>
     replay f (map fst (cs_log st)) c = (map snd (cs_log st), cs_cell st) \<and>
     distinct (map fst (cs_log st)) \<and>
     (\<forall>i r. cs_pc st i = Done r \<longleftrightarrow> (i, r) \<in> set (cs_log st)) \<and>
     (\<forall>i prev r new. cs_pc st i = Exchange prev r new \<longrightarrow> f i (non_zero prev) = Inr (r, new))"

lemma cas_inv_not_logged: "cas_inv f c st \<Longrightarrow> (\<And>r. cs_pc st i \<noteq> Done r) \<Longrightarrow> i \<notin> fst ` set (cs_log st)"
  by (auto simp: cas_inv_def image_iff)

lemma after_read_inv:
  assumes "cas_inv f c st" and "\<And>r. cs_pc st i \<noteq> Done r"
  shows "cas_inv f c (after_read f i st)"
proof (cases "f i (non_zero (cs_cell st))")
  case (Inl e)
  have "i \<notin> fst ` set (cs_log st)" by (rule cas_inv_not_logged [OF assms])
  then show ?thesis using assms(1) Inl
    by (auto simp: cas_inv_def after_read_def replay_snoc measure_and_replace_one_def Let_def image_iff)
next
  case (Inr x)
  then show ?thesis using assms by (cases x) (auto simp: cas_inv_def after_read_def)
qed

lemma cas_step_inv:
  assumes "cas_step f st st'" and "cas_inv f c st"
  shows "cas_inv f c st'"
  using assms
proof (cases rule: cas_step.cases)
  case (exchange i prev r new)
  have "i \<notin> fst ` set (cs_log st)" using cas_inv_not_logged [OF assms(2), of i] exchange by simp
  moreover have "f i (non_zero prev) = Inr (r, new)" using assms(2) exchange by (simp add: cas_inv_def)
  ultimately show ?thesis using assms(2) exchange
    by (auto simp: cas_inv_def replay_snoc measure_and_replace_one_def Let_def image_iff)
qed (use assms in \<open>auto intro: after_read_inv\<close>)

lemma cas_reach_inv: "cas_reach f c st \<Longrightarrow> cas_inv f c st"
proof (induction rule: cas_reach.induct)
  case cas_reach_init
  then show ?case by (simp add: cas_inv_def cas_init_def)
qed (blast intro: cas_step_inv)

section \<open>Stores\<close>

definition direct_measure :: "unit \<Rightarrow> (nat option \<Rightarrow> 'e + ('t \<times> nat)) \<Rightarrow> nat \<Rightarrow> ('e + 't) \<times> nat" where
  "direct_measure key f cell = measure_and_replace_one f cell"

text \<open>\<open>HashMapStateStore\<close>: the cells by key, behind a lock that a call holds to its end.\<close>

definition keyed_measure ::
  "'k \<Rightarrow> (nat option \<Rightarrow> 'e + ('t \<times> nat)) \<Rightarrow> ('k \<rightharpoonup> nat) \<Rightarrow> ('e + 't) \<times> ('k \<rightharpoonup> nat)" where
  "keyed_measure key f m =
     (case m key of
        Some v \<Rightarrow> (case measure_and_replace_one f v of (r, v) \<Rightarrow> (r, m(key \<mapsto> v)))
      | None \<Rightarrow> (case measure_and_replace_one f 0 of (r, v) \<Rightarrow> (r, m(key \<mapsto> v))))"

text \<open>\<open>RateLimiter\<close>: the algorithm and when it was started; the store is passed along.\<close>

record RateLimiter =
  rl_gcra :: Gcra
  rl_start :: nat

definition limiter_new :: "Quota \<Rightarrow> nat \<Rightarrow> RateLimiter option" where
  "limiter_new q now = map_option (\<lambda>g. \<lparr>rl_gcra = g, rl_start = now\<rparr>) (gcra_new q)"

definition check :: "RateLimiter \<Rightarrow> nat \<Rightarrow> nat \<Rightarrow> (NotUntil + RateSnapshot) \<times> nat" where
  "check l now s = test_and_update direct_measure (rl_gcra l) (rl_start l) () s now"

definition check_key :: "RateLimiter \<Rightarrow> 'k \<Rightarrow> nat \<Rightarrow> ('k \<rightharpoonup> nat) \<Rightarrow> (NotUntil + RateSnapshot) \<times> ('k \<rightharpoonup> nat)" where
  "check_key l key now s = test_and_update keyed_measure (rl_gcra l) (rl_start l) key s now"

text \<open>A sequence of checks, each with its key and time, on a store; and on the cell of one key.\<close>

fun limit ::
  "('k \<Rightarrow> (nat option \<Rightarrow> NotUntil + (RateSnapshot \<times> nat)) \<Rightarrow> 's \<Rightarrow> (NotUntil + RateSnapshot) \<times> 's) \<Rightarrow>
     Gcra \<Rightarrow> nat \<Rightarrow> ('k \<times> nat) list \<Rightarrow> 's \<Rightarrow> (NotUntil + RateSnapshot) list" where
  "limit mar g start [] s = []"
| "limit mar g start ((k, t) # cs) s =
     (let (r, s) = test_and_update mar g start k s t in r # limit mar g start cs s)"

fun limit_one :: "Gcra \<Rightarrow> nat \<Rightarrow> nat list \<Rightarrow> nat \<Rightarrow> (NotUntil + RateSnapshot) list" where
  "limit_one g start [] c = []"
| "limit_one g start (t # ts) c =
     (let (r, c) = measure_and_replace_one (decide g start (duration_since t start)) c in r # limit_one g start ts c)"

text \<open>What a store promises: the closure sees the state of its key, and only that is replaced.\<close>

locale state_store =
  fixes mar :: "'k \<Rightarrow> (nat option \<Rightarrow> NotUntil + (RateSnapshot \<times> nat)) \<Rightarrow> 's \<Rightarrow> (NotUntil + RateSnapshot) \<times> 's"
    and cell :: "'s \<Rightarrow> 'k \<Rightarrow> nat"
  assumes mar_result: "fst (mar k f s) = fst (measure_and_replace_one f (cell s k))"
    and mar_cell: "cell (snd (mar k f s)) k' =
      (if k' = k then snd (measure_and_replace_one f (cell s k)) else cell s k')"
begin

text \<open>What the limiter decides for one key does not depend on the others.\<close>

lemma limit_key:
  "map snd (filter (\<lambda>((k, _), _). k = key) (zip cs (limit mar g start cs s))) =
     limit_one g start (map snd (filter (\<lambda>(k, _). k = key) cs)) (cell s key)"
proof (induction cs arbitrary: s)
  case (Cons c cs)
  obtain k t where c: "c = (k, t)" by (cases c)
  define f where "f = decide g start (duration_since t start)"
  have "cell (snd (mar k f s)) key = (if key = k then snd (measure_and_replace_one f (cell s k)) else cell s key)"
    by (rule mar_cell)
  moreover have "fst (mar k f s) = fst (measure_and_replace_one f (cell s k))" by (rule mar_result)
  ultimately show ?case using Cons [of "snd (mar k f s)"]
    by (cases "k = key") (simp_all add: c test_and_update_def f_def [symmetric] Let_def case_prod_beta)
qed simp

end

interpretation direct_store: state_store direct_measure "\<lambda>s _. s"
  by unfold_locales (simp_all add: direct_measure_def)

interpretation keyed_store: state_store keyed_measure "\<lambda>m k. case m k of Some v \<Rightarrow> v | None \<Rightarrow> 0"
  by unfold_locales (auto simp: keyed_measure_def case_prod_beta split: option.splits)

text \<open>The checks of one cell pass as \<open>passed\<close> counts them, as long as its arrival times stay positive.\<close>

lemma limit_one_passed:
  assumes "0 < g_t g"
  shows "\<forall>t\<in>set ts. start \<le> t \<and> in_range g (t - start) \<Longrightarrow>
    length (filter (\<lambda>r. \<not> isl r) (limit_one g start ts c)) = passed g start (map (\<lambda>t. t - start) ts) (non_zero c)"
proof (induction ts arbitrary: c)
  case (Cons t ts)
  have rng: "in_range g (t - start)" using Cons.prems by simp
  have pos: "non_zero (max (tat_at g (t - start) s) (t - start) + g_t g) =
      Some (max (tat_at g (t - start) s) (t - start) + g_t g)" for s using assms by (simp add: non_zero_def)
  show ?case
    using Cons by (simp add: passed_Cons [OF rng] decide_iff [OF rng] measure_and_replace_one_def duration_since_def
        pos Let_def case_prod_beta del: passed.simps(2))
qed simp

section \<open>The limiter per client address\<close>

text \<open>The functions of the crate \<open>http\<close> and of the standard library that are used.\<close>

record ('hm, 'ip) rate_lib =
  hdr_get :: "'hm \<Rightarrow> bytes \<Rightarrow> bytes option"
  hdr_get_all :: "'hm \<Rightarrow> bytes \<Rightarrow> bytes list"
  hdr_to_str :: "bytes \<Rightarrow> bytes option"
  parse_ip :: "bytes \<Rightarrow> 'ip option"
  parse_socket_ip :: "bytes \<Rightarrow> 'ip option"

fun find_map :: "('a \<Rightarrow> 'b option) \<Rightarrow> 'a list \<Rightarrow> 'b option" where
  "find_map f [] = None"
| "find_map f (x # xs) = (case f x of Some y \<Rightarrow> Some y | None \<Rightarrow> find_map f xs)"

text \<open>\<open>splitn(2, c)\<close>: the part before the first separator, and the rest if there is one.\<close>

fun splitn2 :: "'a \<Rightarrow> 'a list \<Rightarrow> 'a list \<times> 'a list option" where
  "splitn2 c [] = ([], None)"
| "splitn2 c (x # xs) =
     (if x = c then ([], Some xs) else (case splitn2 c xs of (a, b) \<Rightarrow> (x # a, b)))"

definition maybe_x_forwarded_for :: "('hm, 'ip) rate_lib \<Rightarrow> 'hm \<Rightarrow> 'ip option" where
  "maybe_x_forwarded_for L hs =
     Option.bind (hdr_get L hs (ascii ''x-forwarded-for'')) (\<lambda>hv.
     Option.bind (hdr_to_str L hv) (\<lambda>s. find_map (\<lambda>s. parse_ip L (trim s)) (split_on 44 s)))"

definition maybe_x_real_ip :: "('hm, 'ip) rate_lib \<Rightarrow> 'hm \<Rightarrow> 'ip option" where
  "maybe_x_real_ip L hs =
     Option.bind (hdr_get L hs (ascii ''x-real-ip'')) (\<lambda>hv. Option.bind (hdr_to_str L hv) (parse_ip L))"

definition forwarded_for :: "('hm, 'ip) rate_lib \<Rightarrow> bytes \<Rightarrow> 'ip option" where
  "forwarded_for L val =
     (case splitn2 61 (trim val) of
        (name, Some val) \<Rightarrow>
          if eq_ignore_ascii_case (trim name) (ascii ''for'') then
            (case parse_ip L (trim val) of Some a \<Rightarrow> Some a | None \<Rightarrow> parse_socket_ip L (trim val))
          else None
      | _ \<Rightarrow> None)"

definition maybe_forwarded :: "('hm, 'ip) rate_lib \<Rightarrow> 'hm \<Rightarrow> 'ip option" where
  "maybe_forwarded L hs =
     find_map (forwarded_for L)
       (concat (map (split_on 44)
         (concat (map (split_on 59)
           (List.map_filter (hdr_to_str L) (hdr_get_all L hs (ascii ''forwarded'')))))))"

definition client_addr :: "('hm, 'ip) rate_lib \<Rightarrow> 'hm \<Rightarrow> 'ip \<Rightarrow> 'ip" where
  "client_addr L hs addr =
     (case maybe_x_forwarded_for L hs of
        Some a \<Rightarrow> a
      | None \<Rightarrow> (case maybe_x_real_ip L hs of
          Some a \<Rightarrow> a
        | None \<Rightarrow> (case maybe_forwarded L hs of Some a \<Rightarrow> a | None \<Rightarrow> addr)))"

text \<open>\<open>TooManyRequests\<close> holds the seconds to wait.\<close>

definition too_many_requests :: "nat \<Rightarrow> NotUntil \<Rightarrow> nat" where
  "too_many_requests now e = wait_time_from e now div 1000000000"

definition rate_limit ::
  "('hm, 'ip) rate_lib \<Rightarrow> RateLimiter \<Rightarrow> 'hm \<Rightarrow> 'ip \<Rightarrow> nat \<Rightarrow> ('ip \<rightharpoonup> nat) \<Rightarrow> (nat + RateSnapshot) \<times> ('ip \<rightharpoonup> nat)" where
  "rate_limit L l hs addr now s =
     (case check_key l (client_addr L hs addr) now s of
        (Inl e, s) \<Rightarrow> (Inl (too_many_requests now e), s)
      | (Inr r, s) \<Rightarrow> (Inr r, s))"

section \<open>Properties\<close>

text \<open>
  C18: Concurrent checks on one cell are linearizable: in every interleaving of the loads, the exchanges and the
  retries of the compare-and-exchange loop, the results handed out so far and the value of the cell are those of
  running the finished checks one after another, each once, in the order of the log.
\<close>

theorem concurrent_checks_linearize:
  assumes "cas_reach f c st"
  shows "replay f (map fst (cs_log st)) c = (map snd (cs_log st), cs_cell st) \<and> distinct (map fst (cs_log st)) \<and>
    (\<forall>i r. cs_pc st i = Done r \<longleftrightarrow> (i, r) \<in> set (cs_log st))"
  using cas_reach_inv [OF assms] by (auto simp: cas_inv_def)

theorem concurrent_checks_linearize_witness:
  "\<exists>st. cas_reach (\<lambda>i s. Inr (i, i + 1) :: nat + nat \<times> nat) 0 st \<and> cs_log st = [(7, Inr 7)] \<and>
     replay (\<lambda>i s. Inr (i, i + 1) :: nat + nat \<times> nat) (map fst (cs_log st)) 0 = (map snd (cs_log st), cs_cell st)"
proof -
  let ?f = "\<lambda>i s. Inr (i, i + 1) :: nat + nat \<times> nat"
  define s1 where "s1 = after_read ?f 7 (cas_init 0)"
  have pc: "cs_pc s1 7 = Exchange 0 7 8" "cs_cell s1 = 0" "cs_log s1 = []"
    by (simp_all add: s1_def after_read_def cas_init_def)
  define s2 where "s2 = s1\<lparr>cs_cell := 8, cs_pc := (cs_pc s1)(7 := Done (Inr 7)), cs_log := cs_log s1 @ [(7, Inr 7)]\<rparr>"
  have "cas_step ?f (cas_init 0) s1" unfolding s1_def by (rule cas_step.load) (simp add: cas_init_def)
  then have "cas_reach ?f 0 s1" by (rule cas_reach_step [OF cas_reach_init])
  moreover have "cas_step ?f s1 s2" unfolding s2_def by (rule cas_step.exchange) (simp_all add: pc)
  ultimately have r: "cas_reach ?f 0 s2" by (rule cas_reach_step)
  from concurrent_checks_linearize [OF r] r show ?thesis by (intro exI [of _ s2]) (simp add: s2_def pc)
qed

lemma key_checks_bounded:
  assumes "0 < g_t g"
    and "\<forall>t\<in>set ts. start + s0 \<le> t \<and> t \<le> start + s0 + d \<and> in_range g (t - start)"
  shows "(length (filter (\<lambda>r. \<not> isl r) (limit_one g start ts c)) - 1) * g_t g \<le> d + g_tau g"
proof -
  have "length (filter (\<lambda>r. \<not> isl r) (limit_one g start ts c)) = passed g start (map (\<lambda>t. t - start) ts) (non_zero c)"
    using assms by (intro limit_one_passed) auto
  moreover have "(passed g start (map (\<lambda>t. t - start) ts) (non_zero c) - 1) * g_t g \<le> d + g_tau g"
    by (rule passed_bound [of _ s0]) (use assms(2) in auto)
  ultimately show ?thesis by simp
qed

text \<open>
  C3: The limiter keeps every client within its quota, whatever the other clients do: of the checks that one key
  makes at times between \<open>s0\<close> and \<open>s0 + d\<close>, interleaved with any others on the shared store, at most as many
  pass as the window and the burst tolerance pay for, one more not counted.
\<close>

theorem client_rate_bounded:
  assumes "0 < g_t g"
    and "\<forall>(k, t)\<in>set cs. k = key \<longrightarrow> start + s0 \<le> t \<and> t \<le> start + s0 + d \<and> in_range g (t - start)"
  shows "(length (filter (\<lambda>((k, _), r). k = key \<and> \<not> isl r) (zip cs (limit keyed_measure g start cs s))) - 1) * g_t g
     \<le> d + g_tau g"
proof -
  let ?z = "zip cs (limit keyed_measure g start cs s)"
  have "filter (\<lambda>((k, _), r). k = key \<and> \<not> isl r) ?z = filter (\<lambda>(_, r). \<not> isl r) (filter (\<lambda>((k, _), _). k = key) ?z)"
    by (auto simp: filter_filter intro!: filter_cong)
  then have "length (filter (\<lambda>((k, _), r). k = key \<and> \<not> isl r) ?z) =
      length (filter (\<lambda>r. \<not> isl r) (map snd (filter (\<lambda>((k, _), _). k = key) ?z)))"
    by (simp add: filter_map o_def case_prod_beta)
  also have "\<dots> = length (filter (\<lambda>r. \<not> isl r) (limit_one g start (map snd (filter (\<lambda>(k, _). k = key) cs))
      (case s key of Some v \<Rightarrow> v | None \<Rightarrow> 0)))"
    by (simp only: keyed_store.limit_key)
  finally have len: "length (filter (\<lambda>((k, _), r). k = key \<and> \<not> isl r) ?z) = \<dots>" .
  have "\<forall>t\<in>set (map snd (filter (\<lambda>(k, _). k = key) cs)).
      start + s0 \<le> t \<and> t \<le> start + s0 + d \<and> in_range g (t - start)" using assms(2) by auto
  from key_checks_bounded [OF assms(1) this] show ?thesis by (simp only: len)
qed

theorem client_rate_bounded_witness:
  "(length (filter (\<lambda>((k, _), r). k = (1 :: nat) \<and> \<not> isl r) (zip [(1, 5 :: nat), (2, 5), (1, 6), (1, 7), (2, 9), (1, 8)]
      (limit keyed_measure \<lparr>g_t = 10, g_tau = 20\<rparr> 0 [(1 :: nat, 5), (2, 5), (1, 6), (1, 7), (2, 9), (1, 8)] Map.empty))) - 1) * 10
     \<le> 3 + 20"
  using client_rate_bounded [of "\<lparr>g_t = 10, g_tau = 20\<rparr>" "[(1, 5), (2, 5), (1, 6), (1, 7), (2, 9), (1, 8)]" "1 :: nat" 0 5 3 Map.empty]
  by (simp add: in_range_def del: limit.simps)

end
