(* ===== verification/Huffman_Tree.thy ===== *)
theory Huffman_Tree
  imports Huffman_Table
begin

text \<open>
  The reference for the Huffman tables: the binary tree of the codes, one entry per inner node with the length
  and the bits of the path to it and its two children. A walk through it bit by bit says what every entry of the
  four-bit decoding table has to be; the lemma \<open>decode_table\<close> evaluates that for all 256 states and 16 half
  bytes, and the other lemmas of the last section evaluate what the paths, the codes and the tree have to do with
  each other.
\<close>

datatype target = Inner nat | Sym nat

definition TREE_0 :: "(nat \<times> nat \<times> target \<times> target) list" where
  "TREE_0 = [
     (0, 0x0, Inner 1, Inner 22), (1, 0x0, Inner 2, Inner 9), (2, 0x0, Inner 3, Inner 6), (3, 0x0, Inner 4, Inner 5),
     (4, 0x0, Sym 48, Sym 49), (4, 0x1, Sym 50, Sym 97), (3, 0x1, Inner 7, Inner 8), (4, 0x2, Sym 99, Sym 101),
     (4, 0x3, Sym 105, Sym 111), (2, 0x1, Inner 10, Inner 15), (3, 0x2, Inner 11, Inner 12), (4, 0x4, Sym 115, Sym 116),
     (4, 0x5, Inner 13, Inner 14), (5, 0xa, Sym 32, Sym 37), (5, 0xb, Sym 45, Sym 46), (3, 0x3, Inner 16, Inner 19)]"

definition TREE_1 :: "(nat \<times> nat \<times> target \<times> target) list" where
  "TREE_1 = [
     (4, 0x6, Inner 17, Inner 18), (5, 0xc, Sym 47, Sym 51), (5, 0xd, Sym 52, Sym 53), (4, 0x7, Inner 20, Inner 21),
     (5, 0xe, Sym 54, Sym 55), (5, 0xf, Sym 56, Sym 57), (1, 0x1, Inner 23, Inner 40), (2, 0x2, Inner 24, Inner 31),
     (3, 0x4, Inner 25, Inner 28), (4, 0x8, Inner 26, Inner 27), (5, 0x10, Sym 61, Sym 65), (5, 0x11, Sym 95, Sym 98),
     (4, 0x9, Inner 29, Inner 30), (5, 0x12, Sym 100, Sym 102), (5, 0x13, Sym 103, Sym 104), (3, 0x5, Inner 32, Inner 35)]"

definition TREE_2 :: "(nat \<times> nat \<times> target \<times> target) list" where
  "TREE_2 = [
     (4, 0xa, Inner 33, Inner 34), (5, 0x14, Sym 108, Sym 109), (5, 0x15, Sym 110, Sym 112), (4, 0xb, Inner 36, Inner 37),
     (5, 0x16, Sym 114, Sym 117), (5, 0x17, Inner 38, Inner 39), (6, 0x2e, Sym 58, Sym 66), (6, 0x2f, Sym 67, Sym 68),
     (2, 0x3, Inner 41, Inner 56), (3, 0x6, Inner 42, Inner 49), (4, 0xc, Inner 43, Inner 46), (5, 0x18, Inner 44, Inner 45),
     (6, 0x30, Sym 69, Sym 70), (6, 0x31, Sym 71, Sym 72), (5, 0x19, Inner 47, Inner 48), (6, 0x32, Sym 73, Sym 74)]"

definition TREE_3 :: "(nat \<times> nat \<times> target \<times> target) list" where
  "TREE_3 = [
     (6, 0x33, Sym 75, Sym 76), (4, 0xd, Inner 50, Inner 53), (5, 0x1a, Inner 51, Inner 52), (6, 0x34, Sym 77, Sym 78),
     (6, 0x35, Sym 79, Sym 80), (5, 0x1b, Inner 54, Inner 55), (6, 0x36, Sym 81, Sym 82), (6, 0x37, Sym 83, Sym 84),
     (3, 0x7, Inner 57, Inner 64), (4, 0xe, Inner 58, Inner 61), (5, 0x1c, Inner 59, Inner 60), (6, 0x38, Sym 85, Sym 86),
     (6, 0x39, Sym 87, Sym 89), (5, 0x1d, Inner 62, Inner 63), (6, 0x3a, Sym 106, Sym 107), (6, 0x3b, Sym 113, Sym 118)]"

definition TREE_4 :: "(nat \<times> nat \<times> target \<times> target) list" where
  "TREE_4 = [
     (4, 0xf, Inner 65, Inner 68), (5, 0x1e, Inner 66, Inner 67), (6, 0x3c, Sym 119, Sym 120), (6, 0x3d, Sym 121, Sym 122),
     (5, 0x1f, Inner 69, Inner 72), (6, 0x3e, Inner 70, Inner 71), (7, 0x7c, Sym 38, Sym 42), (7, 0x7d, Sym 44, Sym 59),
     (6, 0x3f, Inner 73, Inner 74), (7, 0x7e, Sym 88, Sym 90), (7, 0x7f, Inner 75, Inner 78), (8, 0xfe, Inner 76, Inner 77),
     (9, 0x1fc, Sym 33, Sym 34), (9, 0x1fd, Sym 40, Sym 41), (8, 0xff, Inner 79, Inner 81), (9, 0x1fe, Sym 63, Inner 80)]"

definition TREE_5 :: "(nat \<times> nat \<times> target \<times> target) list" where
  "TREE_5 = [
     (10, 0x3fd, Sym 39, Sym 43), (9, 0x1ff, Inner 82, Inner 84), (10, 0x3fe, Sym 124, Inner 83), (11, 0x7fd, Sym 35, Sym 62),
     (10, 0x3ff, Inner 85, Inner 88), (11, 0x7fe, Inner 86, Inner 87), (12, 0xffc, Sym 0, Sym 36), (12, 0xffd, Sym 64, Sym 91),
     (11, 0x7ff, Inner 89, Inner 90), (12, 0xffe, Sym 93, Sym 126), (12, 0xfff, Inner 91, Inner 92), (13, 0x1ffe, Sym 94, Sym 125),
     (13, 0x1fff, Inner 93, Inner 94), (14, 0x3ffe, Sym 60, Sym 96), (14, 0x3fff, Sym 123, Inner 95), (15, 0x7fff, Inner 96, Inner 110)]"

definition TREE_6 :: "(nat \<times> nat \<times> target \<times> target) list" where
  "TREE_6 = [
     (16, 0xfffe, Inner 97, Inner 101), (17, 0x1fffc, Inner 98, Inner 99), (18, 0x3fff8, Sym 92, Sym 195), (18, 0x3fff9, Sym 208, Inner 100),
     (19, 0x7fff3, Sym 128, Sym 130), (17, 0x1fffd, Inner 102, Inner 105), (18, 0x3fffa, Inner 103, Inner 104), (19, 0x7fff4, Sym 131, Sym 162),
     (19, 0x7fff5, Sym 184, Sym 194), (18, 0x3fffb, Inner 106, Inner 107), (19, 0x7fff6, Sym 224, Sym 226), (19, 0x7fff7, Inner 108, Inner 109),
     (20, 0xfffee, Sym 153, Sym 161), (20, 0xfffef, Sym 167, Sym 172), (16, 0xffff, Inner 111, Inner 133), (17, 0x1fffe, Inner 112, Inner 119)]"

definition TREE_7 :: "(nat \<times> nat \<times> target \<times> target) list" where
  "TREE_7 = [
     (18, 0x3fffc, Inner 113, Inner 116), (19, 0x7fff8, Inner 114, Inner 115), (20, 0xffff0, Sym 176, Sym 177), (20, 0xffff1, Sym 179, Sym 209),
     (19, 0x7fff9, Inner 117, Inner 118), (20, 0xffff2, Sym 216, Sym 217), (20, 0xffff3, Sym 227, Sym 229), (18, 0x3fffd, Inner 120, Inner 126),
     (19, 0x7fffa, Inner 121, Inner 123), (20, 0xffff4, Sym 230, Inner 122), (21, 0x1fffe9, Sym 129, Sym 132), (20, 0xffff5, Inner 124, Inner 125),
     (21, 0x1fffea, Sym 133, Sym 134), (21, 0x1fffeb, Sym 136, Sym 146), (19, 0x7fffb, Inner 127, Inner 130), (20, 0xffff6, Inner 128, Inner 129)]"

definition TREE_8 :: "(nat \<times> nat \<times> target \<times> target) list" where
  "TREE_8 = [
     (21, 0x1fffec, Sym 154, Sym 156), (21, 0x1fffed, Sym 160, Sym 163), (20, 0xffff7, Inner 131, Inner 132), (21, 0x1fffee, Sym 164, Sym 169),
     (21, 0x1fffef, Sym 170, Sym 173), (17, 0x1ffff, Inner 134, Inner 153), (18, 0x3fffe, Inner 135, Inner 142), (19, 0x7fffc, Inner 136, Inner 139),
     (20, 0xffff8, Inner 137, Inner 138), (21, 0x1ffff0, Sym 178, Sym 181), (21, 0x1ffff1, Sym 185, Sym 186), (20, 0xffff9, Inner 140, Inner 141),
     (21, 0x1ffff2, Sym 187, Sym 189), (21, 0x1ffff3, Sym 190, Sym 196), (19, 0x7fffd, Inner 143, Inner 146), (20, 0xffffa, Inner 144, Inner 145)]"

definition TREE_9 :: "(nat \<times> nat \<times> target \<times> target) list" where
  "TREE_9 = [
     (21, 0x1ffff4, Sym 198, Sym 228), (21, 0x1ffff5, Sym 232, Sym 233), (20, 0xffffb, Inner 147, Inner 150), (21, 0x1ffff6, Inner 148, Inner 149),
     (22, 0x3fffec, Sym 1, Sym 135), (22, 0x3fffed, Sym 137, Sym 138), (21, 0x1ffff7, Inner 151, Inner 152), (22, 0x3fffee, Sym 139, Sym 140),
     (22, 0x3fffef, Sym 141, Sym 143), (18, 0x3ffff, Inner 154, Inner 169), (19, 0x7fffe, Inner 155, Inner 162), (20, 0xffffc, Inner 156, Inner 159),
     (21, 0x1ffff8, Inner 157, Inner 158), (22, 0x3ffff0, Sym 147, Sym 149), (22, 0x3ffff1, Sym 150, Sym 151), (21, 0x1ffff9, Inner 160, Inner 161)]"

definition TREE_10 :: "(nat \<times> nat \<times> target \<times> target) list" where
  "TREE_10 = [
     (22, 0x3ffff2, Sym 152, Sym 155), (22, 0x3ffff3, Sym 157, Sym 158), (20, 0xffffd, Inner 163, Inner 166), (21, 0x1ffffa, Inner 164, Inner 165),
     (22, 0x3ffff4, Sym 165, Sym 166), (22, 0x3ffff5, Sym 168, Sym 174), (21, 0x1ffffb, Inner 167, Inner 168), (22, 0x3ffff6, Sym 175, Sym 180),
     (22, 0x3ffff7, Sym 182, Sym 183), (19, 0x7ffff, Inner 170, Inner 180), (20, 0xffffe, Inner 171, Inner 174), (21, 0x1ffffc, Inner 172, Inner 173),
     (22, 0x3ffff8, Sym 188, Sym 191), (22, 0x3ffff9, Sym 197, Sym 231), (21, 0x1ffffd, Inner 175, Inner 177), (22, 0x3ffffa, Sym 239, Inner 176)]"

definition TREE_11 :: "(nat \<times> nat \<times> target \<times> target) list" where
  "TREE_11 = [
     (23, 0x7ffff5, Sym 9, Sym 142), (22, 0x3ffffb, Inner 178, Inner 179), (23, 0x7ffff6, Sym 144, Sym 145), (23, 0x7ffff7, Sym 148, Sym 159),
     (20, 0xfffff, Inner 181, Inner 190), (21, 0x1ffffe, Inner 182, Inner 185), (22, 0x3ffffc, Inner 183, Inner 184), (23, 0x7ffff8, Sym 171, Sym 206),
     (23, 0x7ffff9, Sym 215, Sym 225), (22, 0x3ffffd, Inner 186, Inner 187), (23, 0x7ffffa, Sym 236, Sym 237), (23, 0x7ffffb, Inner 188, Inner 189),
     (24, 0xfffff6, Sym 199, Sym 207), (24, 0xfffff7, Sym 234, Sym 235), (21, 0x1fffff, Inner 191, Inner 207), (22, 0x3ffffe, Inner 192, Inner 199)]"

definition TREE_12 :: "(nat \<times> nat \<times> target \<times> target) list" where
  "TREE_12 = [
     (23, 0x7ffffc, Inner 193, Inner 196), (24, 0xfffff8, Inner 194, Inner 195), (25, 0x1fffff0, Sym 192, Sym 193), (25, 0x1fffff1, Sym 200, Sym 201),
     (24, 0xfffff9, Inner 197, Inner 198), (25, 0x1fffff2, Sym 202, Sym 205), (25, 0x1fffff3, Sym 210, Sym 213), (23, 0x7ffffd, Inner 200, Inner 203),
     (24, 0xfffffa, Inner 201, Inner 202), (25, 0x1fffff4, Sym 218, Sym 219), (25, 0x1fffff5, Sym 238, Sym 240), (24, 0xfffffb, Inner 204, Inner 205),
     (25, 0x1fffff6, Sym 242, Sym 243), (25, 0x1fffff7, Sym 255, Inner 206), (26, 0x3ffffef, Sym 203, Sym 204), (22, 0x3fffff, Inner 208, Inner 223)]"

definition TREE_13 :: "(nat \<times> nat \<times> target \<times> target) list" where
  "TREE_13 = [
     (23, 0x7ffffe, Inner 209, Inner 216), (24, 0xfffffc, Inner 210, Inner 213), (25, 0x1fffff8, Inner 211, Inner 212), (26, 0x3fffff0, Sym 211, Sym 212),
     (26, 0x3fffff1, Sym 214, Sym 221), (25, 0x1fffff9, Inner 214, Inner 215), (26, 0x3fffff2, Sym 222, Sym 223), (26, 0x3fffff3, Sym 241, Sym 244),
     (24, 0xfffffd, Inner 217, Inner 220), (25, 0x1fffffa, Inner 218, Inner 219), (26, 0x3fffff4, Sym 245, Sym 246), (26, 0x3fffff5, Sym 247, Sym 248),
     (25, 0x1fffffb, Inner 221, Inner 222), (26, 0x3fffff6, Sym 250, Sym 251), (26, 0x3fffff7, Sym 252, Sym 253), (23, 0x7fffff, Inner 224, Inner 238)]"

definition TREE_14 :: "(nat \<times> nat \<times> target \<times> target) list" where
  "TREE_14 = [
     (24, 0xfffffe, Inner 225, Inner 231), (25, 0x1fffffc, Inner 226, Inner 228), (26, 0x3fffff8, Sym 254, Inner 227), (27, 0x7fffff1, Sym 2, Sym 3),
     (26, 0x3fffff9, Inner 229, Inner 230), (27, 0x7fffff2, Sym 4, Sym 5), (27, 0x7fffff3, Sym 6, Sym 7), (25, 0x1fffffd, Inner 232, Inner 235),
     (26, 0x3fffffa, Inner 233, Inner 234), (27, 0x7fffff4, Sym 8, Sym 11), (27, 0x7fffff5, Sym 12, Sym 14), (26, 0x3fffffb, Inner 236, Inner 237),
     (27, 0x7fffff6, Sym 15, Sym 16), (27, 0x7fffff7, Sym 17, Sym 18), (24, 0xffffff, Inner 239, Inner 246), (25, 0x1fffffe, Inner 240, Inner 243)]"

definition TREE_15 :: "(nat \<times> nat \<times> target \<times> target) list" where
  "TREE_15 = [
     (26, 0x3fffffc, Inner 241, Inner 242), (27, 0x7fffff8, Sym 19, Sym 20), (27, 0x7fffff9, Sym 21, Sym 23), (26, 0x3fffffd, Inner 244, Inner 245),
     (27, 0x7fffffa, Sym 24, Sym 25), (27, 0x7fffffb, Sym 26, Sym 27), (25, 0x1ffffff, Inner 247, Inner 250), (26, 0x3fffffe, Inner 248, Inner 249),
     (27, 0x7fffffc, Sym 28, Sym 29), (27, 0x7fffffd, Sym 30, Sym 31), (26, 0x3ffffff, Inner 251, Inner 252), (27, 0x7fffffe, Sym 127, Sym 220),
     (27, 0x7ffffff, Sym 249, Inner 253), (28, 0xfffffff, Inner 254, Inner 255), (29, 0x1ffffffe, Sym 10, Sym 13), (29, 0x1fffffff, Sym 22, Sym 256)]"


lemmas tree_defs = TREE_0_def TREE_1_def TREE_2_def TREE_3_def TREE_4_def TREE_5_def TREE_6_def TREE_7_def TREE_8_def TREE_9_def TREE_10_def TREE_11_def TREE_12_def TREE_13_def TREE_14_def TREE_15_def

definition TREE :: "(nat \<times> nat \<times> target \<times> target) list" where
  "TREE = concat [TREE_0, TREE_1, TREE_2, TREE_3, TREE_4, TREE_5, TREE_6, TREE_7, TREE_8, TREE_9, TREE_10, TREE_11, TREE_12, TREE_13, TREE_14, TREE_15]"

text \<open>The path to a node (number of bits and bits), its children, and the code of a symbol.\<close>

definition path :: "nat \<Rightarrow> nat \<times> nat" where
  "path i = (case TREE ! i of (l, v, _) \<Rightarrow> (l, v))"

definition child :: "nat \<Rightarrow> bool \<Rightarrow> target" where
  "child i b = (case TREE ! i of (_, _, zero, one) \<Rightarrow> if b then one else zero)"

definition code :: "nat \<Rightarrow> nat \<times> nat" where
  "code s = ENCODE_TABLE ! s"

text \<open>The states of one to seven one-bits: what may remain as padding at the end of a string.\<close>

definition ONES :: "nat list" where
  "ONES = [22, 40, 56, 64, 68, 72, 74]"

definition ones :: "nat \<Rightarrow> bool" where
  "ones i \<longleftrightarrow> i \<in> set ONES"

text \<open>
  A walk over bits: the symbols met and the node reached; \<open>Inl\<close> with the bits that remain when the
  end-of-string symbol is met.
\<close>

fun walk :: "nat \<Rightarrow> bool list \<Rightarrow> bool list + nat list \<times> nat" where
  "walk i [] = Inr ([], i)"
| "walk i (b # bs) =
     (case child i b of
        Inner j \<Rightarrow> walk j bs
      | Sym s \<Rightarrow>
          if s = 256 then Inl bs
          else (case walk 0 bs of Inl e \<Rightarrow> Inl e | Inr (out, j) \<Rightarrow> Inr (s # out, j)))"

text \<open>What the decoding table has to say about four bits.\<close>

definition entry :: "nat \<Rightarrow> bool list \<Rightarrow> nat \<times> nat \<times> nat" where
  "entry i bs =
     (case walk i bs of
        Inl rest \<Rightarrow> (0, 0, if rest \<noteq> [] \<and> list_all id rest then 5 else 4)
      | Inr ([], j) \<Rightarrow> (j, 0, if ones j then 1 else 0)
      | Inr ([s], j) \<Rightarrow> (j, s, if ones j then 3 else 2)
      | _ \<Rightarrow> (0, 0, 8))"

definition nibbles :: "bool list list" where
  "nibbles = [[False, False, False, False], [False, False, False, True], [False, False, True, False], [False, False, True, True],
     [False, True, False, False], [False, True, False, True], [False, True, True, False], [False, True, True, True],
     [True, False, False, False], [True, False, False, True], [True, False, True, False], [True, False, True, True],
     [True, True, False, False], [True, True, False, True], [True, True, True, False], [True, True, True, True]]"

text \<open>The last bits of a number, the most significant first.\<close>

primrec to_bits :: "nat \<Rightarrow> nat \<Rightarrow> bool list" where
  "to_bits 0 x = []"
| "to_bits (Suc n) x = to_bits n (x div 2) @ [odd x]"

lemma to_bits_numeral:
  "to_bits (numeral k) x = to_bits (pred_numeral k) (x div 2) @ [odd x]" "to_bits 1 x = [odd x]"
  by (simp_all add: numeral_eq_Suc)

section \<open>Lookups\<close>

lemma upt_256: "[0..<256] = [0, 1, 2, 3, 4, 5, 6, 7, 8, 9, 10, 11, 12, 13, 14, 15, 16, 17, 18, 19, 20, 21, 22, 23, 24, 25, 26, 27, 28, 29, 30, 31, 32, 33, 34, 35, 36, 37, 38, 39, 40, 41, 42, 43, 44, 45, 46, 47, 48, 49, 50, 51, 52, 53, 54, 55, 56, 57, 58, 59, 60, 61, 62, 63, 64, 65, 66, 67, 68, 69, 70, 71, 72, 73, 74, 75, 76, 77, 78, 79, 80, 81, 82, 83, 84, 85, 86, 87, 88, 89, 90, 91, 92, 93, 94, 95, 96, 97, 98, 99, 100, 101, 102, 103, 104, 105, 106, 107, 108, 109, 110, 111, 112, 113, 114, 115, 116, 117, 118, 119, 120, 121, 122, 123, 124, 125, 126, 127, 128, 129, 130, 131, 132, 133, 134, 135, 136, 137, 138, 139, 140, 141, 142, 143, 144, 145, 146, 147, 148, 149, 150, 151, 152, 153, 154, 155, 156, 157, 158, 159, 160, 161, 162, 163, 164, 165, 166, 167, 168, 169, 170, 171, 172, 173, 174, 175, 176, 177, 178, 179, 180, 181, 182, 183, 184, 185, 186, 187, 188, 189, 190, 191, 192, 193, 194, 195, 196, 197, 198, 199, 200, 201, 202, 203, 204, 205, 206, 207, 208, 209, 210, 211, 212, 213, 214, 215, 216, 217, 218, 219, 220, 221, 222, 223, 224, 225, 226, 227, 228, 229, 230, 231, 232, 233, 234, 235, 236, 237, 238, 239, 240, 241, 242, 243, 244, 245, 246, 247, 248, 249, 250, 251, 252, 253, 254, 255]"
  by (simp add: upt_rec [of 0] upt_rec [of "Suc 0"] numeral_2_eq_2 [symmetric])

lemma upt_16: "[0..<16] = [0, 1, 2, 3, 4, 5, 6, 7, 8, 9, 10, 11, 12, 13, 14, 15]"
  by (simp add: upt_rec [of 0] upt_rec [of "Suc 0"] numeral_2_eq_2 [symmetric])

lemma map_nth_eq: "length xs = n \<Longrightarrow> (\<And>i. f i = g (xs ! i)) \<Longrightarrow> map f [0..<n] = map g xs"
  by (rule nth_equalityI) simp_all

lemma children: "map (\<lambda>i. (child i False, child i True)) [0..<256] = map (snd \<circ> snd) TREE"
  by (rule map_nth_eq) (simp_all add: TREE_def tree_defs child_def case_prod_beta)

lemma paths: "map path [0..<256] = map (\<lambda>(l, v, _). (l, v)) TREE"
  by (rule map_nth_eq) (simp_all add: TREE_def tree_defs path_def)

lemma codes: "map code [0..<257] = map id ENCODE_TABLE"
  by (rule map_nth_eq) (simp_all add: ENCODE_TABLE_def code_def)

lemmas lookup_lists = upt_256 TREE_def tree_defs concat.simps append.simps list.map o_apply snd_conv prod.case
  list.inject prod.inject

lemmas path_rules = paths [unfolded lookup_lists]

lemmas child_rules = children [unfolded lookup_lists]

lemma upt_257: "[0..<257] = [0..<256] @ [256]"
  using upt_add_eq_append [of 0 256 1] by simp

lemmas code_rules = codes [unfolded upt_257 upt_256 append.simps ENCODE_TABLE_def list.map id_apply list.inject]

section \<open>Evaluation\<close>

text \<open>The bits on the path of a child are those of its parent and its own; at a leaf they are the code.\<close>

definition edge_ok :: "nat \<Rightarrow> bool \<Rightarrow> bool" where
  "edge_ok i b =
     (case path i of (l, v) \<Rightarrow>
        (case child i b of
           Inner j \<Rightarrow> j < 256 \<and> path j = (l + 1, 2 * v + (if b then 1 else 0))
         | Sym s \<Rightarrow> s < 257 \<and> code s = (l + 1, 2 * v + (if b then 1 else 0))))"

lemma edges: "list_all (\<lambda>i. edge_ok i False \<and> edge_ok i True) [0..<256]"
  by (simp add: upt_256 edge_ok_def child_rules path_rules code_rules del: One_nat_def)

text \<open>The code of a symbol leads to it.\<close>

definition code_bits :: "nat \<Rightarrow> bool list" where
  "code_bits s = (case code s of (n, c) \<Rightarrow> to_bits n c)"

lemma code_walks: "list_all (\<lambda>s. walk 0 (code_bits s) = Inr ([s], 0)) [0..<256]"
  by (simp add: upt_256 code_bits_def to_bits_numeral child_rules code_rules del: One_nat_def)

lemma pad_walks:
  "list_all (\<lambda>bs. case walk 0 bs of Inr ([], j) \<Rightarrow> j = 0 \<or> ones j | _ \<Rightarrow> False) (map (\<lambda>p. replicate p True) [0..<8])"
proof -
  have "map (\<lambda>p. replicate p True) [0..<8] = [[],
      [True],
      [True, True],
      [True, True, True],
      [True, True, True, True],
      [True, True, True, True, True],
      [True, True, True, True, True, True],
      [True, True, True, True, True, True, True]]"
    by (simp add: numeral_eq_Suc)
  then show ?thesis by (simp add: child_rules ones_def ONES_def)
qed

lemma pads: "list_all (\<lambda>i. case path i of (l, v) \<Rightarrow> 0 < l \<and> l < 8 \<and> v + 1 = 2 ^ l) ONES"
  by (simp add: ONES_def path_rules)

text \<open>The rows of the decoding table.\<close>

lemma rows_0: "map (\<lambda>i. map (entry i) nibbles) [0..<16] = DECODE_ROWS_0"
  by (simp add: nibbles_def entry_def ones_def ONES_def child_rules DECODE_ROWS_0_def upt_16 del: One_nat_def)

lemma rows_1: "map (\<lambda>i. map (entry i) nibbles) [16..<32] = DECODE_ROWS_1"
  by (simp add: nibbles_def entry_def ones_def ONES_def child_rules DECODE_ROWS_1_def del: One_nat_def)

lemma rows_2: "map (\<lambda>i. map (entry i) nibbles) [32..<48] = DECODE_ROWS_2"
  by (simp add: nibbles_def entry_def ones_def ONES_def child_rules DECODE_ROWS_2_def del: One_nat_def)

lemma rows_3: "map (\<lambda>i. map (entry i) nibbles) [48..<64] = DECODE_ROWS_3"
  by (simp add: nibbles_def entry_def ones_def ONES_def child_rules DECODE_ROWS_3_def del: One_nat_def)

lemma rows_4: "map (\<lambda>i. map (entry i) nibbles) [64..<80] = DECODE_ROWS_4"
  by (simp add: nibbles_def entry_def ones_def ONES_def child_rules DECODE_ROWS_4_def del: One_nat_def)

lemma rows_5: "map (\<lambda>i. map (entry i) nibbles) [80..<96] = DECODE_ROWS_5"
  by (simp add: nibbles_def entry_def ones_def ONES_def child_rules DECODE_ROWS_5_def del: One_nat_def)

lemma rows_6: "map (\<lambda>i. map (entry i) nibbles) [96..<112] = DECODE_ROWS_6"
  by (simp add: nibbles_def entry_def ones_def ONES_def child_rules DECODE_ROWS_6_def del: One_nat_def)

lemma rows_7: "map (\<lambda>i. map (entry i) nibbles) [112..<128] = DECODE_ROWS_7"
  by (simp add: nibbles_def entry_def ones_def ONES_def child_rules DECODE_ROWS_7_def del: One_nat_def)

lemma rows_8: "map (\<lambda>i. map (entry i) nibbles) [128..<144] = DECODE_ROWS_8"
  by (simp add: nibbles_def entry_def ones_def ONES_def child_rules DECODE_ROWS_8_def del: One_nat_def)

lemma rows_9: "map (\<lambda>i. map (entry i) nibbles) [144..<160] = DECODE_ROWS_9"
  by (simp add: nibbles_def entry_def ones_def ONES_def child_rules DECODE_ROWS_9_def del: One_nat_def)

lemma rows_10: "map (\<lambda>i. map (entry i) nibbles) [160..<176] = DECODE_ROWS_10"
  by (simp add: nibbles_def entry_def ones_def ONES_def child_rules DECODE_ROWS_10_def del: One_nat_def)

lemma rows_11: "map (\<lambda>i. map (entry i) nibbles) [176..<192] = DECODE_ROWS_11"
  by (simp add: nibbles_def entry_def ones_def ONES_def child_rules DECODE_ROWS_11_def del: One_nat_def)

lemma rows_12: "map (\<lambda>i. map (entry i) nibbles) [192..<208] = DECODE_ROWS_12"
  by (simp add: nibbles_def entry_def ones_def ONES_def child_rules DECODE_ROWS_12_def del: One_nat_def)

lemma rows_13: "map (\<lambda>i. map (entry i) nibbles) [208..<224] = DECODE_ROWS_13"
  by (simp add: nibbles_def entry_def ones_def ONES_def child_rules DECODE_ROWS_13_def del: One_nat_def)

lemma rows_14: "map (\<lambda>i. map (entry i) nibbles) [224..<240] = DECODE_ROWS_14"
  by (simp add: nibbles_def entry_def ones_def ONES_def child_rules DECODE_ROWS_14_def del: One_nat_def)

lemma rows_15: "map (\<lambda>i. map (entry i) nibbles) [240..<256] = DECODE_ROWS_15"
  by (simp add: nibbles_def entry_def ones_def ONES_def child_rules DECODE_ROWS_15_def del: One_nat_def)

lemma decode_table: "map (\<lambda>i. map (entry i) nibbles) [0..<256] = DECODE_TABLE"
proof -
  have "[0..<256] = [0..<16] @ [16..<32] @ [32..<48] @ [48..<64] @ [64..<80] @ [80..<96] @ [96..<112] @ [112..<128]
      @ [128..<144] @ [144..<160] @ [160..<176] @ [176..<192] @ [192..<208] @ [208..<224] @ [224..<240] @ [240..<256 :: nat]"
    by (simp add: upt_256 upt_16)
  then show ?thesis
    by (simp only: map_append rows_0 rows_1 rows_2 rows_3 rows_4 rows_5 rows_6 rows_7 rows_8 rows_9 rows_10 rows_11 rows_12
        rows_13 rows_14 rows_15 DECODE_TABLE_def concat.simps append_Nil2)
qed

end
