(* ===== verification/Huffman.thy ===== *)
theory Huffman
  imports Huffman_Tree
begin

text \<open>
  \<open>http/src/h2/proto/hpack/huffman/mod.rs\<close>: the decoder, which follows the table by half bytes, and the encoder,
  which collects codes in a 64-bit accumulator. They are shown to be the code that the tree describes: a string is
  decoded exactly if its bits are codes of bytes followed by at most seven one-bits.
\<close>

unbundle bit_operations_syntax

section \<open>The decoder\<close>

datatype NeedMore = UnexpectedEndOfStream | IntegerUnderflow | StringUnderflow

datatype DecoderError =
    InvalidRepresentation | InvalidIntegerPrefix | InvalidTableIndex | InvalidHuffmanCode | InvalidUtf8
  | InvalidStatusCode | InvalidPseudoheader | InvalidMaxDynamicSize | IntegerOverflow | NeedMore NeedMore

record HuffDecoder =
  hd_state :: nat
  hd_maybe_eos :: bool

definition MAYBE_EOS :: nat where "MAYBE_EOS = 1"
definition DECODED :: nat where "DECODED = 2"
definition ERROR :: nat where "ERROR = 4"

definition hd_new :: HuffDecoder where
  "hd_new = \<lparr>hd_state = 0, hd_maybe_eos = False\<rparr>"

definition decode4 :: "u8 \<Rightarrow> HuffDecoder \<Rightarrow> (DecoderError + u8 option) \<times> HuffDecoder" where
  "decode4 input d =
     (case DECODE_TABLE ! hd_state d ! unat input of (nxt, byte, flags) \<Rightarrow>
        if flags AND ERROR = ERROR then (Inl InvalidHuffmanCode, d)
        else (Inr (if flags AND DECODED = DECODED then Some (word_of_nat byte) else None),
              \<lparr>hd_state = nxt, hd_maybe_eos = (flags AND MAYBE_EOS = MAYBE_EOS)\<rparr>))"

definition is_final :: "HuffDecoder \<Rightarrow> bool" where
  "is_final d \<longleftrightarrow> hd_state d = 0 \<or> hd_maybe_eos d"

text \<open>The loop of \<open>decode\<close> over the input; the buffer is returned as it is left, on errors, too.\<close>

fun huff_loop :: "bytes \<Rightarrow> HuffDecoder \<Rightarrow> bytes \<Rightarrow> (DecoderError + HuffDecoder) \<times> bytes" where
  "huff_loop [] d buf = (Inr d, buf)"
| "huff_loop (b # src) d buf =
     (case decode4 (drop_bit 4 b) d of
        (Inl e, _) \<Rightarrow> (Inl e, buf)
      | (Inr r, d) \<Rightarrow>
          let buf = buf @ (case r of Some x \<Rightarrow> [x] | None \<Rightarrow> []) in
          (case decode4 (b AND 0xf) d of
             (Inl e, _) \<Rightarrow> (Inl e, buf)
           | (Inr r, d) \<Rightarrow> huff_loop src d (buf @ (case r of Some x \<Rightarrow> [x] | None \<Rightarrow> []))))"

definition huff_decode :: "bytes \<Rightarrow> bytes \<Rightarrow> (DecoderError + bytes) \<times> bytes" where
  "huff_decode src buf =
     (case huff_loop src hd_new buf of
        (Inl e, buf) \<Rightarrow> (Inl e, buf)
      | (Inr d, buf) \<Rightarrow> if \<not> is_final d then (Inl InvalidHuffmanCode, buf) else (Inr buf, []))"

section \<open>The encoder\<close>

text \<open>\<open>while bits_left <= 32\<close>: full bytes leave the accumulator.\<close>

function put_bits :: "64 word \<Rightarrow> nat \<Rightarrow> bytes \<Rightarrow> 64 word \<times> nat \<times> bytes" where
  "put_bits bits bits_left dst =
     (if bits_left \<le> 32 then put_bits (push_bit 8 bits) (bits_left + 8) (dst @ [ucast (drop_bit 32 bits)])
      else (bits, bits_left, dst))"
  by pat_completeness auto
termination
  by (relation "measure (\<lambda>(_, bits_left, _). 33 - bits_left)") auto

declare put_bits.simps [simp del]

fun encode_loop :: "bytes \<Rightarrow> 64 word \<Rightarrow> nat \<Rightarrow> bytes \<Rightarrow> 64 word \<times> nat \<times> bytes" where
  "encode_loop [] bits bits_left dst = (bits, bits_left, dst)"
| "encode_loop (b # src) bits bits_left dst =
     (case ENCODE_TABLE ! unat b of (nbits, c) \<Rightarrow>
        (case put_bits (bits OR push_bit (bits_left - nbits) (word_of_nat c)) (bits_left - nbits) dst of
           (bits, bits_left, dst) \<Rightarrow> encode_loop src bits bits_left dst))"

definition huff_encode :: "bytes \<Rightarrow> bytes \<Rightarrow> bytes" where
  "huff_encode src dst =
     (case encode_loop src 0 40 dst of (bits, bits_left, dst) \<Rightarrow>
        if bits_left \<noteq> 40 then dst @ [ucast (drop_bit 32 (bits OR (push_bit bits_left 1 - 1)))] else dst)"

section \<open>Bits\<close>

lemma length_to_bits [simp]: "length (to_bits n x) = n"
  by (induction n arbitrary: x) simp_all

lemma nth_to_bits: "i < n \<Longrightarrow> to_bits n x ! i = bit x (n - 1 - i)"
proof (induction n arbitrary: x)
  case (Suc n)
  then show ?case
    by (cases "i = n") (simp_all add: nth_append bit_0 Suc_diff_Suc bit_Suc [symmetric])
qed simp

lemma to_bits_append: "to_bits (m + n) x = to_bits m (x div 2 ^ n) @ to_bits n x"
  by (induction n arbitrary: x) (simp_all add: div_mult2_eq mult.commute)

lemma to_bits_mod: "to_bits n (x mod 2 ^ n) = to_bits n x"
  by (rule nth_equalityI) (auto simp: nth_to_bits bit_take_bit_iff simp flip: take_bit_eq_mod)

definition byte_bits :: "u8 \<Rightarrow> bool list" where
  "byte_bits b = to_bits 8 (unat b)"

definition bits :: "bytes \<Rightarrow> bool list" where
  "bits bs = concat (map byte_bits bs)"

lemma bits_simps [simp]: "bits [] = []" "bits (b # bs) = byte_bits b @ bits bs" "bits (xs @ ys) = bits xs @ bits ys"
  by (simp_all add: bits_def)

lemma unat_high: "unat (drop_bit 4 (b :: u8)) = unat b div 16"
  by (simp only: unat_drop_bit_eq) (simp add: drop_bit_eq_div)

lemma unat_low: "unat (b AND 0xf :: u8) = unat b mod 16"
proof -
  have "b AND 0xf = take_bit 4 b" by (simp add: take_bit_eq_mask mask_eq_exp_minus_1)
  then show ?thesis by (simp add: unsigned_take_bit_eq) (simp add: take_bit_eq_mod)
qed

lemma byte_bits_nibbles: "byte_bits b = to_bits 4 (unat (drop_bit 4 b)) @ to_bits 4 (unat (b AND 0xf))"
  using to_bits_append [of 4 4 "unat b"] to_bits_mod [of 4 "unat b"]
  by (simp add: byte_bits_def unat_high unat_low)

section \<open>Walks through the tree\<close>

definition path_bits :: "nat \<Rightarrow> bool list" where
  "path_bits i = (case path i of (l, v) \<Rightarrow> to_bits l v)"

lemma child_edge: "i < 256 \<Longrightarrow> edge_ok i b"
  using edges by (cases b) (auto simp: list_all_iff)

lemma to_bits_snoc: "to_bits (l + 1) (2 * v + (if b then 1 else 0)) = to_bits l v @ [b]"
  by simp

lemma child_Inner: "i < 256 \<Longrightarrow> child i b = Inner j \<Longrightarrow> j < 256 \<and> path_bits j = path_bits i @ [b]"
  using child_edge [of i b] to_bits_snoc [of _ _ b] by (auto simp: edge_ok_def path_bits_def split: prod.splits)

lemma child_Sym: "i < 256 \<Longrightarrow> child i b = Sym s \<Longrightarrow> s < 257 \<and> code_bits s = path_bits i @ [b]"
  using child_edge [of i b] to_bits_snoc [of _ _ b] by (auto simp: edge_ok_def path_bits_def code_bits_def split: prod.splits)

lemma path_root [simp]: "path_bits 0 = []"
  by (simp add: path_bits_def path_rules)

lemma walk_append:
  "walk i (xs @ ys) =
     (case walk i xs of
        Inl e \<Rightarrow> Inl (e @ ys)
      | Inr (out, j) \<Rightarrow> (case walk j ys of Inl e \<Rightarrow> Inl e | Inr (out', k) \<Rightarrow> Inr (out @ out', k)))"
  by (induction i xs rule: walk.induct) (auto split: target.splits sum.splits prod.splits)

lemma walk_sound:
  "i < 256 \<Longrightarrow> walk i bs = Inr (out, j) \<Longrightarrow>
     j < 256 \<and> (\<forall>s\<in>set out. s < 256) \<and> path_bits i @ bs = concat (map code_bits out) @ path_bits j"
proof (induction i bs arbitrary: out rule: walk.induct)
  case (2 i b bs)
  show ?case
  proof (cases "child i b")
    case (Inner k)
    then show ?thesis using "2.IH"(1) [OF Inner] "2.prems" child_Inner [OF _ Inner] by auto
  next
    case (Sym s)
    then obtain out' where "s \<noteq> 256" "walk 0 bs = Inr (out', j)" "out = s # out'"
      using "2.prems"(2) by (auto split: if_splits sum.splits)
    then show ?thesis using "2.IH"(2) [OF Sym] child_Sym [OF "2.prems"(1) Sym] by auto
  qed
qed auto

lemma walk_code: "s < 256 \<Longrightarrow> walk 0 (code_bits s) = Inr ([s], 0)"
  using code_walks by (auto simp: list_all_iff)

lemma walk_codes:
  "\<forall>s\<in>set out. s < 256 \<Longrightarrow> walk 0 (concat (map code_bits out)) = Inr (out, 0)"
  by (induction out) (auto simp: walk_append walk_code)

lemma walk_ones:
  assumes "p < 8"
  shows "\<exists>j. walk 0 (replicate p True) = Inr ([], j) \<and> (j = 0 \<or> ones j)"
proof -
  have "replicate p True \<in> set (map (\<lambda>p. replicate p True) [0..<8])" using assms by simp
  then have "case walk 0 (replicate p True) of Inr ([], j) \<Rightarrow> j = 0 \<or> ones j | _ \<Rightarrow> False"
    using pad_walks unfolding list_all_iff by blast
  moreover obtain r where "walk 0 (replicate p True) = r" by blast
  ultimately show ?thesis by (cases r; cases "case r of Inr p \<Rightarrow> fst p | _ \<Rightarrow> []") auto
qed

lemma ones_path:
  assumes "ones j"
  shows "\<exists>p<8. path_bits j = replicate p True"
proof -
  obtain l v where p: "path j = (l, v)" by (cases "path j")
  have l: "l < 8" "v + 1 = 2 ^ l" using assms pads p by (auto simp: list_all_iff ones_def)
  have "to_bits n (2 ^ n - 1) = replicate n True" for n
    unfolding mask_eq_exp_minus_1 [symmetric] by (rule nth_equalityI) (simp_all add: nth_to_bits bit_mask_iff)
  moreover have "v = 2 ^ l - 1" using l(2) by simp
  ultimately show ?thesis using l p by (auto simp: path_bits_def)
qed

lemma code_lengths: "list_all (\<lambda>s. 5 \<le> fst (code s)) [0..<257]"
  by (simp add: upt_257 upt_256 code_rules del: One_nat_def)

lemma code_length: "s < 257 \<Longrightarrow> 5 \<le> length (code_bits s)"
  using code_lengths by (auto simp: list_all_iff code_bits_def case_prod_beta)

lemma walk_few:
  assumes "walk 0 bs = Inr (out, j)" and "length bs < 5"
  shows "out = []"
proof (rule ccontr)
  assume "out \<noteq> []"
  then obtain s out' where o: "out = s # out'" by (cases out) auto
  have w: "\<forall>s\<in>set out. s < 256" "bs = concat (map code_bits out) @ path_bits j" using walk_sound [OF _ assms(1)] by simp_all
  have "5 \<le> length (code_bits s)" using w(1) o by (intro code_length) simp
  then show False using w(2) o assms(2) by simp
qed

lemma walk_one:
  "walk i bs = Inr (out, j) \<Longrightarrow> length bs \<le> 5 \<Longrightarrow> length out \<le> 1"
proof (induction i bs arbitrary: out rule: walk.induct)
  case (2 i b bs)
  show ?case
  proof (cases "child i b")
    case (Inner k)
    then show ?thesis using "2.IH"(1) [OF Inner] "2.prems" by simp
  next
    case (Sym s)
    then obtain out' where "walk 0 bs = Inr (out', j)" "out = s # out'"
      using "2.prems"(1) by (auto split: if_splits sum.splits)
    then show ?thesis using walk_few [of bs out' j] "2.prems"(2) by simp
  qed
qed simp

section \<open>The decoder follows the tree\<close>

lemma nibbles_nth: "n < 16 \<Longrightarrow> nibbles ! n = to_bits 4 n"
proof -
  have "list_all (\<lambda>n. nibbles ! n = to_bits 4 n) [0..<16]"
    by (simp add: upt_16 nibbles_def to_bits_numeral)
  then show "n < 16 \<Longrightarrow> nibbles ! n = to_bits 4 n" by (auto simp: list_all_iff)
qed

lemma table_entry: "i < 256 \<Longrightarrow> n < 16 \<Longrightarrow> DECODE_TABLE ! i ! n = entry i (to_bits 4 n)"
proof -
  have "length nibbles = 16" by (simp add: nibbles_def)
  then show "i < 256 \<Longrightarrow> n < 16 \<Longrightarrow> DECODE_TABLE ! i ! n = entry i (to_bits 4 n)"
    by (simp add: decode_table [symmetric] nibbles_nth del: to_bits.simps)
qed

lemma decode4_walk:
  assumes "hd_state d < 256" and "unat input < 16"
  shows "decode4 input d =
     (case walk (hd_state d) (to_bits 4 (unat input)) of
        Inl _ \<Rightarrow> (Inl InvalidHuffmanCode, d)
      | Inr (out, j) \<Rightarrow> (Inr (case out of [] \<Rightarrow> None | s # _ \<Rightarrow> Some (word_of_nat s)), \<lparr>hd_state = j, hd_maybe_eos = ones j\<rparr>))"
proof (cases "walk (hd_state d) (to_bits 4 (unat input))")
  case (Inl e)
  then show ?thesis by (simp add: decode4_def table_entry [OF assms] entry_def ERROR_def)
next
  case (Inr p)
  obtain out j where p: "p = (out, j)" by (cases p)
  have "length out \<le> 1" by (rule walk_one [OF Inr [unfolded p]]) simp
  then consider "out = []" | s where "out = [s]" by (cases out) auto
  then show ?thesis
    by cases (simp_all add: Inr p decode4_def table_entry [OF assms] entry_def ERROR_def DECODED_def MAYBE_EOS_def)
qed

lemma decode4_bits:
  assumes "hd_state d < 256" and "unat input < 16"
  shows "case decode4 input d of
      (Inl e, _) \<Rightarrow> e = InvalidHuffmanCode \<and> isl (walk (hd_state d) (to_bits 4 (unat input)))
    | (Inr r, d') \<Rightarrow> hd_state d' < 256 \<and> hd_maybe_eos d' = ones (hd_state d') \<and>
        (\<exists>out. walk (hd_state d) (to_bits 4 (unat input)) = Inr (out, hd_state d') \<and>
           (case r of Some x \<Rightarrow> [x] | None \<Rightarrow> []) = map word_of_nat out)"
proof (cases "walk (hd_state d) (to_bits 4 (unat input))")
  case (Inl e)
  then show ?thesis by (simp add: decode4_walk [OF assms])
next
  case (Inr p)
  obtain out j where p: "p = (out, j)" by (cases p)
  have "length out \<le> 1" by (rule walk_one [OF Inr [unfolded p]]) simp
  moreover have "j < 256" using walk_sound [OF assms(1) Inr [unfolded p]] by simp
  ultimately show ?thesis by (cases out) (simp_all add: Inr p decode4_walk [OF assms])
qed

lemma nibble_less: "unat (drop_bit 4 (b :: u8)) < 16" "unat (b AND 0xf :: u8) < 16"
proof -
  have "unat b < 16 * 16" using unsigned_less [of b, where 'a = nat] by simp
  then show "unat (drop_bit 4 b) < 16" unfolding unat_high by (rule less_mult_imp_div_less)
  show "unat (b AND 0xf) < 16" unfolding unat_low by simp
qed

lemma huff_loop_walk:
  assumes "hd_state d < 256"
  shows "case huff_loop src d buf of
      (Inl e, _) \<Rightarrow> e = InvalidHuffmanCode \<and> isl (walk (hd_state d) (bits src))
    | (Inr d', buf') \<Rightarrow> hd_state d' < 256 \<and> (src \<noteq> [] \<longrightarrow> hd_maybe_eos d' = ones (hd_state d')) \<and>
        (src = [] \<longrightarrow> d' = d) \<and>
        (\<exists>out. walk (hd_state d) (bits src) = Inr (out, hd_state d') \<and> buf' = buf @ map word_of_nat out)"
  using assms
proof (induction src d buf rule: huff_loop.induct)
  case (2 b src d buf)
  let ?n1 = "to_bits 4 (unat (drop_bit 4 b))" and ?n2 = "to_bits 4 (unat (b AND 0xf))"
  note h1 = decode4_bits [OF "2.prems" nibble_less(1), of b]
  obtain r1 d1 where e1: "decode4 (drop_bit 4 b) d = (r1, d1)" by (cases "decode4 (drop_bit 4 b) d")
  show ?case
  proof (cases r1)
    case (Inl x)
    then show ?thesis using h1 e1 by (auto simp: byte_bits_nibbles walk_append split: sum.splits)
  next
    case (Inr x1)
    then have d1: "hd_state d1 < 256" using h1 e1 by simp
    note h2 = decode4_bits [OF d1 nibble_less(2), of b]
    obtain r2 d2 where e2: "decode4 (b AND 0xf) d1 = (r2, d2)" by (cases "decode4 (b AND 0xf) d1")
    show ?thesis
    proof (cases r2)
      case (Inl x)
      then show ?thesis using h1 h2 e1 e2 Inr
        by (auto simp: byte_bits_nibbles walk_append Let_def split: sum.splits)
    next
      case (Inr x2)
      have "hd_state d2 < 256" using h2 e2 Inr by simp
      note IH = "2.IH" [OF e1 [symmetric] \<open>r1 = Inr x1\<close> refl e2 [symmetric] Inr this]
      show ?thesis using IH h1 h2 e1 e2 Inr \<open>r1 = Inr x1\<close>
        by (cases "src = []") (auto simp: byte_bits_nibbles walk_append Let_def split: sum.splits prod.splits)
    qed
  qed
qed simp

section \<open>Codes of strings\<close>

definition string_code :: "bytes \<Rightarrow> bool list" where
  "string_code bs = concat (map (\<lambda>b. code_bits (unat b)) bs)"

lemma huff_decode_walk:
  "fst (huff_decode src []) = Inr out \<longleftrightarrow>
     (\<exists>ss j. walk 0 (bits src) = Inr (ss, j) \<and> (j = 0 \<or> ones j) \<and> out = map word_of_nat ss)"
proof -
  have d: "hd_state hd_new < 256" by (simp add: hd_new_def)
  obtain r buf where l: "huff_loop src hd_new [] = (r, buf)" by (cases "huff_loop src hd_new []")
  show ?thesis
  proof (cases r)
    case (Inl e)
    then show ?thesis using huff_loop_walk [OF d, of src "[]"] l by (auto simp: huff_decode_def hd_new_def)
  next
    case (Inr d')
    then show ?thesis using huff_loop_walk [OF d, of src "[]"] l
      by (cases "src = []") (auto simp: huff_decode_def is_final_def hd_new_def)
  qed
qed

lemma huff_decode_iff:
  "fst (huff_decode src []) = Inr out \<longleftrightarrow> (\<exists>p<8. bits src = string_code out @ replicate p True)"
proof
  assume "fst (huff_decode src []) = Inr out"
  then obtain ss j where w: "walk 0 (bits src) = Inr (ss, j)" "j = 0 \<or> ones j" "out = map word_of_nat ss"
    unfolding huff_decode_walk by blast
  have s: "\<forall>s\<in>set ss. s < 256" "bits src = concat (map code_bits ss) @ path_bits j" using walk_sound [OF _ w(1)] by simp_all
  have "concat (map code_bits ss) = string_code out"
    unfolding string_code_def w(3) using s(1) by (intro arg_cong [of _ _ concat]) (auto simp: unat_of_nat)
  moreover have "\<exists>p<8. path_bits j = replicate p True" using w(2) ones_path by (auto intro: exI [of _ 0])
  ultimately show "\<exists>p<8. bits src = string_code out @ replicate p True" using s(2) by auto
next
  assume "\<exists>p<8. bits src = string_code out @ replicate p True"
  then obtain p where p: "p < 8" "bits src = string_code out @ replicate p True" by blast
  have c: "string_code out = concat (map code_bits (map unat out))" by (simp add: string_code_def o_def)
  have "\<forall>s\<in>set (map unat out). s < 256" using unsigned_less [where 'a = nat and 'b = 8] by auto
  then have "walk 0 (string_code out) = Inr (map unat out, 0)" unfolding c by (rule walk_codes)
  moreover obtain j where "walk 0 (replicate p True) = Inr ([], j)" "j = 0 \<or> ones j" using walk_ones [OF p(1)] by blast
  ultimately show "fst (huff_decode src []) = Inr out"
    unfolding huff_decode_walk by (intro exI [of _ "map unat out"] exI [of _ j]) (simp add: p(2) walk_append o_def)
qed

section \<open>The encoder writes the codes\<close>

text \<open>The accumulator holds the bits \<open>p\<close> from bit 39 downwards, followed by zeros; what is above has been
  written already.\<close>

definition holds :: "64 word \<Rightarrow> nat \<Rightarrow> bool list \<Rightarrow> bool" where
  "holds acc bits_left p \<longleftrightarrow>
     length p + bits_left = 40 \<and> (\<forall>i<40. bit acc (39 - i) \<longleftrightarrow> i < length p \<and> p ! i)"

lemma holds_empty: "holds 0 40 []"
  by (simp add: holds_def)

lemma code_sizes: "list_all (\<lambda>s. fst (code s) \<le> 30 \<and> snd (code s) < 2 ^ fst (code s)) [0..<257]"
  by (simp add: upt_257 upt_256 code_rules del: One_nat_def)

lemma code_size: "s < 257 \<Longrightarrow> code s = (n, c) \<Longrightarrow> n \<le> 30 \<and> c < 2 ^ n"
  using code_sizes by (force simp: list_all_iff)

lemma bit_small: "c < 2 ^ n \<Longrightarrow> bit (c :: nat) k \<Longrightarrow> k < n"
  by (metis bit_take_bit_iff take_bit_nat_eq_self)

lemma bit_word_of_nat: "bit (word_of_nat n :: 'a :: len word) m \<longleftrightarrow> m < LENGTH('a) \<and> bit n m"
  by transfer (simp add: bit_take_bit_iff bit_of_nat_iff)

lemma holds_push:
  assumes "holds acc bits_left p" and "n \<le> bits_left" and "c < 2 ^ n"
  shows "holds (acc OR push_bit (bits_left - n) (word_of_nat c)) (bits_left - n) (p @ to_bits n c)"
proof -
  have l: "length p + bits_left = 40" and b: "\<And>i. i < 40 \<Longrightarrow> bit acc (39 - i) \<longleftrightarrow> i < length p \<and> p ! i"
    using assms(1) by (auto simp: holds_def)
  have "bit (acc OR push_bit (bits_left - n) (word_of_nat c)) (39 - i) \<longleftrightarrow>
      i < length (p @ to_bits n c) \<and> (p @ to_bits n c) ! i" if i: "i < 40" for i
  proof (cases "i < length p")
    case True
    then have "\<not> bit c (39 - i - (bits_left - n))" using bit_small [OF assms(3)] l assms(2) by fastforce
    then show ?thesis using True b [OF i] by (simp add: bit_or_iff bit_push_bit_iff bit_word_of_nat nth_append)
  next
    case False
    show ?thesis
    proof (cases "i < length p + n")
      case True
      then have "39 - i - (bits_left - n) = n - 1 - (i - length p)" "bits_left - n \<le> 39 - i" "i - length p < n"
        "39 - i < 64" "n + length p - Suc i < 64" using False l assms(2) i by simp_all
      then show ?thesis using False True b [OF i]
        by (simp add: bit_or_iff bit_push_bit_iff bit_word_of_nat nth_append nth_to_bits)
    next
      case False
      then have "\<not> bits_left - n \<le> 39 - i" using l assms(2) i by simp
      then show ?thesis using False b [OF i]
        by (simp add: bit_or_iff bit_push_bit_iff bit_word_of_nat)
    qed
  qed
  then show ?thesis using l assms(2) by (simp add: holds_def)
qed

lemma length_byte_bits [simp]: "length (byte_bits b) = 8"
  by (simp add: byte_bits_def)

lemma byte_bits_nth: "i < 8 \<Longrightarrow> byte_bits (ucast (drop_bit 32 (acc :: 64 word))) ! i \<longleftrightarrow> bit acc (39 - i)"
  by (auto simp: byte_bits_def nth_to_bits bit_simps)

lemma holds_byte:
  assumes "holds acc bits_left p" and "bits_left \<le> 32"
  shows "byte_bits (ucast (drop_bit 32 acc)) = take 8 p" "holds (push_bit 8 acc) (bits_left + 8) (drop 8 p)"
proof -
  have l: "length p + bits_left = 40" and b: "\<And>i. i < 40 \<Longrightarrow> bit acc (39 - i) \<longleftrightarrow> i < length p \<and> p ! i"
    using assms(1) by (auto simp: holds_def)
  show "byte_bits (ucast (drop_bit 32 acc)) = take 8 p"
    by (rule nth_equalityI) (use l b assms(2) in \<open>auto simp: byte_bits_nth\<close>)
  have "bit (push_bit 8 acc) (39 - i) \<longleftrightarrow> i < length (drop 8 p) \<and> drop 8 p ! i" if "i < 40" for i
  proof (cases "i < 32")
    case True
    then have "8 \<le> 39 - i" "39 - i < 64" "39 - i - 8 = 31 - i" by simp_all
    then show ?thesis using b [of "i + 8"] True by (auto simp: bit_simps add.commute)
  next
    case False
    then have "\<not> 8 \<le> 39 - i" "\<not> i < length p - 8" using l that by simp_all
    then show ?thesis by (simp add: bit_simps)
  qed
  then show "holds (push_bit 8 acc) (bits_left + 8) (drop 8 p)" using l assms(2) by (simp add: holds_def)
qed

lemma put_bits_holds:
  assumes "holds acc bits_left p" and "put_bits acc bits_left dst = (acc', bits_left', dst')"
  shows "\<exists>q. holds acc' bits_left' q \<and> 32 < bits_left' \<and> bits dst' @ q = bits dst @ p"
  using assms
proof (induction acc bits_left dst arbitrary: p rule: put_bits.induct)
  case (1 acc bits_left dst)
  show ?case
  proof (cases "bits_left \<le> 32")
    case True
    have "put_bits (push_bit 8 acc) (bits_left + 8) (dst @ [ucast (drop_bit 32 acc)]) = (acc', bits_left', dst')"
      using "1.prems"(2) True by (simp add: put_bits.simps [of acc])
    from "1.IH" [OF True holds_byte(2) [OF "1.prems"(1) True] this] show ?thesis
      by (simp add: holds_byte(1) [OF "1.prems"(1) True])
  qed (use "1.prems" in \<open>auto simp: put_bits.simps [of acc]\<close>)
qed

lemma encode_loop_holds:
  "holds acc bits_left p \<Longrightarrow> 32 < bits_left \<Longrightarrow> encode_loop src acc bits_left dst = (acc', bits_left', dst') \<Longrightarrow>
     \<exists>q. holds acc' bits_left' q \<and> 32 < bits_left' \<and> bits dst' @ q = bits dst @ p @ string_code src"
proof (induction src acc bits_left dst arbitrary: p rule: encode_loop.induct)
  case (2 b src acc bits_left dst)
  obtain n c where nc: "ENCODE_TABLE ! unat b = (n, c)" by (cases "ENCODE_TABLE ! unat b")
  have "unat b < 257" by (rule less_trans [OF unsigned_less]) simp
  then have sz: "n \<le> 30" "c < 2 ^ n" using code_size [of "unat b"] nc by (auto simp: code_def)
  let ?acc = "acc OR push_bit (bits_left - n) (word_of_nat c)"
  obtain acc1 bl1 dst1 where pb: "put_bits ?acc (bits_left - n) dst = (acc1, bl1, dst1)"
    by (cases "put_bits ?acc (bits_left - n) dst") auto
  have h: "holds ?acc (bits_left - n) (p @ to_bits n c)" using holds_push [OF "2.prems"(1) _ sz(2)] sz(1) "2.prems"(2) by simp
  obtain q where q: "holds acc1 bl1 q" "32 < bl1" "bits dst1 @ q = bits dst @ p @ to_bits n c"
    using put_bits_holds [OF h pb] by auto
  have "encode_loop src acc1 bl1 dst1 = (acc', bits_left', dst')" using "2.prems"(3) nc pb by simp
  from "2.IH" [OF nc [symmetric] pb [symmetric] refl q(1,2) this] obtain r where
    "holds acc' bits_left' r" "32 < bits_left'" "bits dst' @ r = bits dst1 @ q @ string_code src" by blast
  moreover have "string_code (b # src) = to_bits n c @ string_code src" by (simp add: string_code_def code_bits_def code_def nc)
  ultimately show ?case using q(3) by (metis append.assoc)
qed (auto simp: string_code_def)

lemma huff_encode_bits: "\<exists>p<8. bits (huff_encode src dst) = bits dst @ string_code src @ replicate p True"
proof -
  obtain acc bl dst' where e: "encode_loop src 0 40 dst = (acc, bl, dst')" by (cases "encode_loop src 0 40 dst") auto
  obtain q where q: "holds acc bl q" "32 < bl" "bits dst' @ q = bits dst @ string_code src"
    using encode_loop_holds [OF holds_empty _ e] by auto
  show ?thesis
  proof (cases "bl = 40")
    case True
    then show ?thesis using q e by (auto simp: huff_encode_def holds_def intro!: exI [of _ 0])
  next
    case False
    have l: "length q + bl = 40" using q(1) by (simp add: holds_def)
    define padded where "padded = acc OR (push_bit bl 1 - 1)"
    have "bit padded (39 - i) \<longleftrightarrow> (q @ replicate (8 - length q) True) ! i" if "i < 8" for i
      using q(1,2) that l unfolding padded_def
      by (auto simp: holds_def bit_or_iff push_bit_of_1 bit_mask_iff nth_append simp flip: mask_eq_exp_minus_1)
    then have "byte_bits (ucast (drop_bit 32 padded)) = q @ replicate (8 - length q) True"
      by (intro nth_equalityI) (use l q(2) in \<open>auto simp: byte_bits_nth\<close>)
    moreover have "huff_encode src dst = dst' @ [ucast (drop_bit 32 padded)]"
      using False e by (simp add: huff_encode_def padded_def)
    ultimately have "bits (huff_encode src dst) = (bits dst' @ q) @ replicate (8 - length q) True" by simp
    moreover have "8 - length q < 8" using False l q(2) by (cases q) simp_all
    ultimately show ?thesis unfolding q(3) append.assoc by blast
  qed
qed

lemma put_bits_append:
  "put_bits acc bits_left (dst @ out) = (case put_bits acc bits_left out of (a, l, out) \<Rightarrow> (a, l, dst @ out))"
proof (induction acc bits_left out rule: put_bits.induct)
  case (1 acc bits_left out)
  then show ?case
    by (simp add: put_bits.simps [of acc bits_left "dst @ out"] put_bits.simps [of acc bits_left out])
qed

lemma encode_loop_append:
  "encode_loop src acc bits_left (dst @ out) = (case encode_loop src acc bits_left out of (a, l, out) \<Rightarrow> (a, l, dst @ out))"
  by (induction src acc bits_left out rule: encode_loop.induct) (simp_all add: put_bits_append split: prod.splits)

lemma huff_encode_append: "huff_encode src dst = dst @ huff_encode src []"
  using encode_loop_append [of src 0 40 dst "[]"] by (simp add: huff_encode_def split: prod.splits)

lemma huff_decode_clears: "fst (huff_decode src buf) = Inr out \<Longrightarrow> huff_decode src buf = (Inr out, [])"
  by (auto simp: huff_decode_def split: prod.splits sum.splits if_splits)

lemma huff_encode_decode: "huff_decode (huff_encode src []) [] = (Inr src, [])"
  using huff_encode_bits [of src "[]"] by (intro huff_decode_clears) (simp add: huff_decode_iff)

section \<open>Properties\<close>

text \<open>
  C5: the table-driven Huffman decoder accepts exactly the strings whose bits are the codes of bytes followed by at
  most seven one-bits of padding, and it yields those bytes: longer padding, padding with a zero, an end-of-string
  code and truncated codes are refused.
\<close>

theorem huffman_decode_exact:
  "fst (huff_decode src []) = Inr out \<longleftrightarrow> (\<exists>p<8. bits src = string_code out @ replicate p True)"
  by (rule huff_decode_iff)

text \<open>
  C6: what the Huffman encoder appends to its destination decodes to the source string, for every string, and the
  scratch buffer of the decoder is empty again.
\<close>

theorem huffman_roundtrip:
  "\<exists>enc. huff_encode src dst = dst @ enc \<and> huff_decode enc [] = (Inr src, [])"
  using huff_encode_append huff_encode_decode by blast

end
