(* ===== verification/Hpack_Header.thy ===== *)
theory Hpack_Header
  imports Huffman Utf8
begin

text \<open>
  \<open>http/src/h2/proto/hpack/header.rs\<close>, the header fields of HTTP/2, and the two functions on the static table,
  \<open>get_static\<close> of \<open>decoder.rs\<close> and \<open>index_static\<close> of \<open>table.rs\<close>. Header names, methods and status codes are types
  of the package \<open>http\<close>; they are represented by their texts and numbers, and its conversions are the record
  \<open>h2_lib\<close> of parameters.
\<close>

section \<open>Header fields\<close>

record HeaderValue =
  hv_bytes :: bytes
  hv_sensitive :: bool

text \<open>Equality of header values looks at the bytes only.\<close>

definition hv_eq :: "HeaderValue \<Rightarrow> HeaderValue \<Rightarrow> bool" where
  "hv_eq a b \<longleftrightarrow> hv_bytes a = hv_bytes b"

text \<open>The conversions of \<open>http\<close>: \<open>HeaderName::from_lowercase\<close>, \<open>HeaderValue::from_bytes\<close>, \<open>Method::from_bytes\<close>,
  \<open>StatusCode::from_bytes\<close> and \<open>StatusCode::as_str\<close>.\<close>

record h2_lib =
  hn_from_lowercase :: "bytes \<Rightarrow> bytes option"
  hv_from_bytes :: "bytes \<Rightarrow> HeaderValue option"
  method_from_bytes :: "bytes \<Rightarrow> bytes option"
  status_from_bytes :: "bytes \<Rightarrow> nat option"
  status_as_str :: "nat \<Rightarrow> bytes"

datatype 'n Header =
    Field 'n HeaderValue
  | Authority bytes
  | Method bytes
  | Scheme bytes
  | Path bytes
  | Protocol bytes
  | Status nat

type_synonym header = "bytes Header"

datatype Name =
    Name_Field bytes
  | Name_Authority
  | Name_Method
  | Name_Scheme
  | Name_Path
  | Name_Protocol
  | Name_Status

fun reify :: "bytes option Header \<Rightarrow> HeaderValue + header" where
  "reify (Field (Some n) v) = Inr (Field n v)"
| "reify (Field None v) = Inl v"
| "reify (Authority v) = Inr (Authority v)"
| "reify (Method v) = Inr (Method v)"
| "reify (Scheme v) = Inr (Scheme v)"
| "reify (Path v) = Inr (Path v)"
| "reify (Protocol v) = Inr (Protocol v)"
| "reify (Status v) = Inr (Status v)"

text \<open>\<open>BytesStr::try_from\<close> checks for UTF-8; every conversion error becomes \<open>InvalidUtf8\<close>.\<close>

definition str_from :: "bytes \<Rightarrow> DecoderError + bytes" where
  "str_from v = (if valid_utf8 v then Inr v else Inl InvalidUtf8)"

definition or_invalid :: "'a option \<Rightarrow> DecoderError + 'a" where
  "or_invalid r = (case r of Some x \<Rightarrow> Inr x | None \<Rightarrow> Inl InvalidUtf8)"

definition map_ok :: "('a \<Rightarrow> 'b) \<Rightarrow> 'e + 'a \<Rightarrow> 'e + 'b" where
  "map_ok f r = (case r of Inl e \<Rightarrow> Inl e | Inr x \<Rightarrow> Inr (f x))"

definition header_new :: "h2_lib \<Rightarrow> bytes \<Rightarrow> bytes \<Rightarrow> DecoderError + header" where
  "header_new L n v =
     (if n = [] then Inl (NeedMore UnexpectedEndOfStream)
      else if n ! 0 = 0x3A then
        let r = drop 1 n in
        if r = ascii ''authority'' then map_ok Authority (str_from v)
        else if r = ascii ''method'' then map_ok Method (or_invalid (method_from_bytes L v))
        else if r = ascii ''scheme'' then map_ok Scheme (str_from v)
        else if r = ascii ''path'' then map_ok Path (str_from v)
        else if r = ascii ''protocol'' then map_ok Protocol (str_from v)
        else if r = ascii ''status'' then map_ok Status (or_invalid (status_from_bytes L v))
        else Inl InvalidPseudoheader
      else
        (case or_invalid (hn_from_lowercase L n) of
           Inl e \<Rightarrow> Inl e
         | Inr nm \<Rightarrow> map_ok (Field nm) (or_invalid (hv_from_bytes L v))))"

definition field_len :: "bytes \<Rightarrow> HeaderValue \<Rightarrow> nat" where
  "field_len n v = 32 + length n + length (hv_bytes v)"

fun header_len :: "header \<Rightarrow> nat" where
  "header_len (Field n v) = field_len n v"
| "header_len (Authority v) = 32 + 10 + length v"
| "header_len (Method v) = 32 + 7 + length v"
| "header_len (Scheme v) = 32 + 7 + length v"
| "header_len (Path v) = 32 + 5 + length v"
| "header_len (Protocol v) = 32 + 9 + length v"
| "header_len (Status v) = 32 + 7 + 3"

fun name :: "header \<Rightarrow> Name" where
  "name (Field n v) = Name_Field n"
| "name (Authority v) = Name_Authority"
| "name (Method v) = Name_Method"
| "name (Scheme v) = Name_Scheme"
| "name (Path v) = Name_Path"
| "name (Protocol v) = Name_Protocol"
| "name (Status v) = Name_Status"

fun value_slice :: "h2_lib \<Rightarrow> header \<Rightarrow> bytes" where
  "value_slice L (Field n v) = hv_bytes v"
| "value_slice L (Authority v) = v"
| "value_slice L (Method v) = v"
| "value_slice L (Scheme v) = v"
| "value_slice L (Path v) = v"
| "value_slice L (Protocol v) = v"
| "value_slice L (Status v) = status_as_str L v"

fun value_eq :: "header \<Rightarrow> header \<Rightarrow> bool" where
  "value_eq (Field _ a) (Field _ b) \<longleftrightarrow> hv_eq a b"
| "value_eq (Authority a) (Authority b) \<longleftrightarrow> a = b"
| "value_eq (Method a) (Method b) \<longleftrightarrow> a = b"
| "value_eq (Scheme a) (Scheme b) \<longleftrightarrow> a = b"
| "value_eq (Path a) (Path b) \<longleftrightarrow> a = b"
| "value_eq (Protocol a) (Protocol b) \<longleftrightarrow> a = b"
| "value_eq (Status a) (Status b) \<longleftrightarrow> a = b"
| "value_eq _ _ \<longleftrightarrow> False"

fun is_sensitive :: "header \<Rightarrow> bool" where
  "is_sensitive (Field n v) \<longleftrightarrow> hv_sensitive v"
| "is_sensitive _ \<longleftrightarrow> False"

fun skip_value_index :: "header \<Rightarrow> bool" where
  "skip_value_index (Field n v) \<longleftrightarrow>
     n \<in> set [ascii ''age'', ascii ''authorization'', ascii ''content-length'', ascii ''etag'', ascii ''if-modified-since'',
       ascii ''if-none-match'', ascii ''location'', ascii ''cookie'', ascii ''set-cookie'']"
| "skip_value_index (Path v) \<longleftrightarrow> True"
| "skip_value_index _ \<longleftrightarrow> False"

fun into_entry :: "h2_lib \<Rightarrow> Name \<Rightarrow> bytes \<Rightarrow> DecoderError + header" where
  "into_entry L (Name_Field n) v = map_ok (Field n) (or_invalid (hv_from_bytes L v))"
| "into_entry L Name_Authority v = map_ok Authority (str_from v)"
| "into_entry L Name_Method v = map_ok Method (or_invalid (method_from_bytes L v))"
| "into_entry L Name_Scheme v = map_ok Scheme (str_from v)"
| "into_entry L Name_Path v = map_ok Path (str_from v)"
| "into_entry L Name_Protocol v = map_ok Protocol (str_from v)"
| "into_entry L Name_Status v =
     (case status_from_bytes L v of Some s \<Rightarrow> Inr (Status s) | None \<Rightarrow> Inl InvalidStatusCode)"

fun as_slice :: "Name \<Rightarrow> bytes" where
  "as_slice (Name_Field n) = n"
| "as_slice Name_Authority = ascii '':authority''"
| "as_slice Name_Method = ascii '':method''"
| "as_slice Name_Scheme = ascii '':scheme''"
| "as_slice Name_Path = ascii '':path''"
| "as_slice Name_Protocol = ascii '':protocol''"
| "as_slice Name_Status = ascii '':status''"

section \<open>The static table\<close>

definition static_field :: "string \<Rightarrow> string \<Rightarrow> header" where
  "static_field n v = Field (ascii n) \<lparr>hv_bytes = ascii v, hv_sensitive = False\<rparr>"

definition static_entries :: "header list" where
  "static_entries =
     [Authority [], Method (ascii ''GET''), Method (ascii ''POST''), Path (ascii ''/''), Path (ascii ''/index.html''),
      Scheme (ascii ''http''), Scheme (ascii ''https''), Status 200, Status 204, Status 206, Status 304, Status 400,
      Status 404, Status 500,
      static_field ''accept-charset'' [], static_field ''accept-encoding'' ''gzip, deflate'',
      static_field ''accept-language'' [], static_field ''accept-ranges'' [],
      static_field ''accept'' [], static_field ''access-control-allow-origin'' [],
      static_field ''age'' [], static_field ''allow'' [],
      static_field ''authorization'' [], static_field ''cache-control'' [],
      static_field ''content-disposition'' [], static_field ''content-encoding'' [],
      static_field ''content-language'' [], static_field ''content-length'' [],
      static_field ''content-location'' [], static_field ''content-range'' [],
      static_field ''content-type'' [], static_field ''cookie'' [],
      static_field ''date'' [], static_field ''etag'' [],
      static_field ''expect'' [], static_field ''expires'' [],
      static_field ''from'' [], static_field ''host'' [],
      static_field ''if-match'' [], static_field ''if-modified-since'' [],
      static_field ''if-none-match'' [], static_field ''if-range'' [],
      static_field ''if-unmodified-since'' [], static_field ''last-modified'' [],
      static_field ''link'' [], static_field ''location'' [],
      static_field ''max-forwards'' [], static_field ''proxy-authenticate'' [],
      static_field ''proxy-authorization'' [], static_field ''range'' [],
      static_field ''referer'' [], static_field ''refresh'' [],
      static_field ''retry-after'' [], static_field ''server'' [],
      static_field ''set-cookie'' [], static_field ''strict-transport-security'' [],
      static_field ''transfer-encoding'' [], static_field ''user-agent'' [],
      static_field ''vary'' [], static_field ''via'' [],
      static_field ''www-authenticate'' []]"

text \<open>The match on the index; any other index is \<open>unreachable!()\<close>.\<close>

definition get_static :: "nat \<Rightarrow> header option" where
  "get_static idx = (if 1 \<le> idx \<and> idx \<le> 61 then Some (static_entries ! (idx - 1)) else None)"

definition static_names :: "(bytes \<times> nat) list" where
  "static_names =
     [(ascii ''accept-charset'', 15), (ascii ''accept-language'', 17), (ascii ''accept-ranges'', 18),
      (ascii ''accept'', 19), (ascii ''access-control-allow-origin'', 20), (ascii ''age'', 21),
      (ascii ''allow'', 22), (ascii ''authorization'', 23), (ascii ''cache-control'', 24),
      (ascii ''content-disposition'', 25), (ascii ''content-encoding'', 26), (ascii ''content-language'', 27),
      (ascii ''content-length'', 28), (ascii ''content-location'', 29), (ascii ''content-range'', 30),
      (ascii ''content-type'', 31), (ascii ''cookie'', 32), (ascii ''date'', 33),
      (ascii ''etag'', 34), (ascii ''expect'', 35), (ascii ''expires'', 36),
      (ascii ''from'', 37), (ascii ''host'', 38), (ascii ''if-match'', 39),
      (ascii ''if-modified-since'', 40), (ascii ''if-none-match'', 41), (ascii ''if-range'', 42),
      (ascii ''if-unmodified-since'', 43), (ascii ''last-modified'', 44), (ascii ''link'', 45),
      (ascii ''location'', 46), (ascii ''max-forwards'', 47), (ascii ''proxy-authenticate'', 48),
      (ascii ''proxy-authorization'', 49), (ascii ''range'', 50), (ascii ''referer'', 51),
      (ascii ''refresh'', 52), (ascii ''retry-after'', 53), (ascii ''server'', 54),
      (ascii ''set-cookie'', 55), (ascii ''strict-transport-security'', 56), (ascii ''transfer-encoding'', 57),
      (ascii ''user-agent'', 58), (ascii ''vary'', 59), (ascii ''via'', 60),
      (ascii ''www-authenticate'', 61)]"

fun index_static :: "header \<Rightarrow> (nat \<times> bool) option" where
  "index_static (Field n v) =
     (if n = ascii ''accept-encoding'' then Some (16, hv_bytes v = ascii ''gzip, deflate'')
      else map_option (\<lambda>i. (i, False)) (map_of static_names n))"
| "index_static (Authority v) = Some (1, False)"
| "index_static (Method v) =
     Some (if v = ascii ''GET'' then (2, True) else if v = ascii ''POST'' then (3, True) else (2, False))"
| "index_static (Scheme v) =
     Some (if v = ascii ''http'' then (6, True) else if v = ascii ''https'' then (7, True) else (6, False))"
| "index_static (Path v) =
     Some (if v = ascii ''/'' then (4, True) else if v = ascii ''/index.html'' then (5, True) else (4, False))"
| "index_static (Protocol v) = None"
| "index_static (Status v) =
     Some (if v = 200 then (8, True) else if v = 204 then (9, True) else if v = 206 then (10, True)
       else if v = 304 then (11, True) else if v = 400 then (12, True) else if v = 404 then (13, True)
       else if v = 500 then (14, True) else (8, False))"

section \<open>What the static table promises\<close>

lemma static_length: "length static_entries = 61"
  by (simp add: static_entries_def)

lemma static_names_ok: "list_all (\<lambda>(n, i). 15 \<le> i \<and> i \<le> 61 \<and> name (static_entries ! (i - 1)) = Name_Field n) static_names"
  by (simp add: static_names_def static_entries_def static_field_def)

text \<open>An index found by the encoder names an entry of the decoder with the same name and, where it says so, the same
  value.\<close>

lemma index_static_get:
  assumes "index_static h = Some (i, full)"
  shows "\<exists>s. get_static i = Some s \<and> name s = name h \<and> (full \<longrightarrow> value_eq s h)"
proof (cases h)
  case (Field n v)
  show ?thesis
  proof (cases "n = ascii ''accept-encoding''")
    case True
    then show ?thesis using assms Field by (auto simp: get_static_def static_entries_def static_field_def hv_eq_def)
  next
    case False
    then have f: "map_of static_names n = Some i" "\<not> full" using assms Field by auto
    then have "(n, i) \<in> set static_names" by (simp add: map_of_SomeD)
    then show ?thesis using static_names_ok Field f(2) by (auto simp: list_all_iff get_static_def)
  qed
qed (use assms in \<open>auto simp: get_static_def static_entries_def split: if_splits\<close>)

lemma index_static_bounds: "index_static h = Some (i, full) \<Longrightarrow> 1 \<le> i \<and> i \<le> 61"
  using index_static_get [of h i full] by (auto simp: get_static_def split: if_splits)

lemma skip_value_index_names:
  "skip_value_index (Field n v) \<Longrightarrow> n \<in> set (map fst static_names)"
  unfolding static_names_def skip_value_index.simps list.map fst_conv list.set by blast

lemma skip_value_index_static: "skip_value_index h \<Longrightarrow> index_static h \<noteq> None"
proof (cases h)
  case (Field n v)
  assume "skip_value_index h"
  then have "map_of static_names n \<noteq> None"
    using skip_value_index_names [of n v] by (simp only: Field map_of_eq_None_iff) simp
  then show ?thesis by (auto simp: Field)
qed simp_all

section \<open>Dynamic tables\<close>

text \<open>
  The dynamic table of the specification (RFC 7541, section 4): the newest entry is first, and entries are evicted
  from the end until the rest fits. The tables of decoder and encoder are both shown to compute this.
\<close>

definition entries_size :: "header list \<Rightarrow> nat" where
  "entries_size hs = sum_list (map header_len hs)"

fun fit :: "nat \<Rightarrow> header list \<Rightarrow> header list" where
  "fit m [] = []"
| "fit m (h # hs) = (if header_len h \<le> m then h # fit (m - header_len h) hs else [])"

definition spec_insert :: "nat \<Rightarrow> header \<Rightarrow> header list \<Rightarrow> header list" where
  "spec_insert m h hs = (if header_len h \<le> m then h # fit (m - header_len h) hs else [])"

lemma entries_size_simps [simp]: "entries_size [] = 0" "entries_size (h # hs) = header_len h + entries_size hs" "entries_size (hs @ hs') = entries_size hs + entries_size hs'"
  by (simp_all add: entries_size_def)

lemma entries_size_butlast: "hs \<noteq> [] \<Longrightarrow> entries_size (butlast hs) = entries_size hs - header_len (last hs)"
  by (cases hs rule: rev_cases) simp_all

lemma fit_all: "entries_size hs \<le> m \<Longrightarrow> fit m hs = hs"
  by (induction hs arbitrary: m) auto

lemma fit_butlast: "m < entries_size hs \<Longrightarrow> fit m hs = fit m (butlast hs)"
  by (induction hs arbitrary: m) (auto simp: less_diff_conv)

lemma entries_size_fit: "entries_size (fit m hs) \<le> m"
proof (induction hs arbitrary: m)
  case (Cons h hs)
  have "entries_size (fit (m - header_len h) hs) \<le> m - header_len h" by (rule Cons)
  then show ?case by (cases "header_len h \<le> m") simp_all
qed simp

lemma fit_prefix: "\<exists>n. fit m hs = take n hs"
proof (induction hs arbitrary: m)
  case (Cons h hs)
  then obtain n where "fit (m - header_len h) hs = take n hs" by blast
  then show ?case by (cases "header_len h \<le> m") (auto intro: exI [of _ "Suc n"] exI [of _ 0])
qed simp

lemma header_len_ge: "32 \<le> header_len h"
  by (cases h) (simp_all add: field_len_def)

lemma entries_size_length: "32 * length hs \<le> entries_size hs"
  using header_len_ge by (induction hs) (auto intro: add_mono)

end
