(* ===== verification/Hpack_Int.thy ===== *)
theory Hpack_Int
  imports Hpack_Header
begin

text \<open>
  The primitives of HPACK: the cursor over the input and \<open>decode_int\<close> of \<open>decoder.rs\<close>, \<open>encode_int\<close> and
  \<open>encode_str\<close> of \<open>encoder.rs\<close>.
\<close>

unbundle bit_operations_syntax

section \<open>The cursor\<close>

text \<open>\<open>Cursor<&mut BytesMut>\<close> of the standard library, with the methods of \<open>Buf\<close> used.\<close>

record Cursor =
  cur_buf :: bytes
  cur_pos :: nat

definition chunk :: "Cursor \<Rightarrow> bytes" where
  "chunk c = drop (cur_pos c) (cur_buf c)"

definition remaining :: "Cursor \<Rightarrow> nat" where
  "remaining c = length (cur_buf c) - cur_pos c"

definition has_remaining :: "Cursor \<Rightarrow> bool" where
  "has_remaining c \<longleftrightarrow> 0 < remaining c"

definition get_u8 :: "Cursor \<Rightarrow> u8 \<times> Cursor" where
  "get_u8 c = (cur_buf c ! cur_pos c, c\<lparr>cur_pos := cur_pos c + 1\<rparr>)"

definition peek_u8 :: "Cursor \<Rightarrow> u8 option" where
  "peek_u8 c = (if has_remaining c then Some (chunk c ! 0) else None)"

text \<open>\<open>advance\<close> asserts that there is enough.\<close>

definition advance :: "nat \<Rightarrow> Cursor \<Rightarrow> Cursor option" where
  "advance n c = (if n \<le> remaining c then Some (c\<lparr>cur_pos := cur_pos c + n\<rparr>) else None)"

section \<open>Integers\<close>

definition MAX_BYTES :: nat where "MAX_BYTES = 5"
definition VARINT_MASK :: u8 where "VARINT_MASK = 0x7F"
definition VARINT_FLAG :: u8 where "VARINT_FLAG = 0x80"

function decode_int_loop :: "nat \<Rightarrow> nat \<Rightarrow> nat \<Rightarrow> Cursor \<Rightarrow> (DecoderError + nat) \<times> Cursor" where
  "decode_int_loop ret bytes shift c =
     (if has_remaining c then
        let (b, c) = get_u8 c; bytes = bytes + 1; ret = ret + push_bit shift (unat (b AND VARINT_MASK)); shift = shift + 7 in
        if b AND VARINT_FLAG = 0 then (Inr ret, c)
        else if bytes = MAX_BYTES then (Inl IntegerOverflow, c)
        else decode_int_loop ret bytes shift c
      else (Inl (NeedMore IntegerUnderflow), c))"
  by pat_completeness auto
termination
  by (relation "measure (\<lambda>(_, _, _, c). remaining c)") (auto simp: has_remaining_def get_u8_def remaining_def)

declare decode_int_loop.simps [simp del]

definition decode_int :: "nat \<Rightarrow> Cursor \<Rightarrow> (DecoderError + nat) \<times> Cursor" where
  "decode_int prefix_size c =
     (if \<not> (1 \<le> prefix_size \<and> prefix_size \<le> 8) then (Inl InvalidIntegerPrefix, c)
      else if \<not> has_remaining c then (Inl (NeedMore IntegerUnderflow), c)
      else
        let m = (if prefix_size = 8 then 0xFF else push_bit prefix_size 1 - 1 :: u8);
            (b, c) = get_u8 c;
            ret = unat (b AND m) in
        if ret < unat m then (Inr ret, c) else decode_int_loop ret 1 0 c)"

definition encode_int_one_byte :: "nat \<Rightarrow> nat \<Rightarrow> bool" where
  "encode_int_one_byte v prefix_bits \<longleftrightarrow> v < push_bit prefix_bits 1 - 1"

function encode_int_loop :: "nat \<Rightarrow> bytes \<Rightarrow> bytes" where
  "encode_int_loop v dst =
     (if v \<ge> 128 then encode_int_loop (drop_bit 7 v) (dst @ [0x80 OR word_of_nat v]) else dst @ [word_of_nat v])"
  by pat_completeness auto
termination
  by (relation "measure fst") (auto simp: drop_bit_eq_div)

declare encode_int_loop.simps [simp del]

definition encode_int :: "nat \<Rightarrow> nat \<Rightarrow> u8 \<Rightarrow> bytes \<Rightarrow> bytes" where
  "encode_int v prefix_bits first_byte dst =
     (if encode_int_one_byte v prefix_bits then dst @ [first_byte OR word_of_nat v]
      else
        let low = push_bit prefix_bits 1 - 1 in
        encode_int_loop (v - low) (dst @ [first_byte OR word_of_nat low]))"

section \<open>Strings\<close>

text \<open>The loop that shifts the string forward, from its last byte to its first.\<close>

fun shift_forward :: "nat \<Rightarrow> nat \<Rightarrow> nat \<Rightarrow> nat list \<Rightarrow> bytes \<Rightarrow> bytes" where
  "shift_forward idx huff_len head_len [] dst = dst"
| "shift_forward idx huff_len head_len (i # is) dst =
     (let src_i = idx + 1 + (huff_len - (i + 1));
          dst_i = idx + head_len + (huff_len - (i + 1)) in
      shift_forward idx huff_len head_len is (dst[dst_i := dst ! src_i]))"

fun copy_head :: "nat \<Rightarrow> bytes \<Rightarrow> nat list \<Rightarrow> bytes \<Rightarrow> bytes" where
  "copy_head idx buf [] dst = dst"
| "copy_head idx buf (i # is) dst = copy_head idx buf is (dst[idx + i := buf ! i])"

definition PLACEHOLDER_LEN :: nat where "PLACEHOLDER_LEN = 8"

text \<open>\<open>None\<close>: the head does not fit into the placeholder, and writing it panics.\<close>

definition encode_str :: "bytes \<Rightarrow> bytes \<Rightarrow> bytes option" where
  "encode_str val dst =
     (if val \<noteq> [] then
        let idx = length dst;
            dst = huff_encode val (dst @ [0]);
            huff_len = length dst - (idx + 1) in
        if encode_int_one_byte huff_len 7 then Some (dst[idx := 0x80 OR word_of_nat huff_len])
        else
          let head = encode_int huff_len 7 0x80 [] in
          if length head > PLACEHOLDER_LEN then None
          else
            let head_len = length head;
                buf = head @ replicate (PLACEHOLDER_LEN - head_len) 0;
                dst = dst @ drop 1 (take head_len buf);
                dst = shift_forward idx huff_len head_len [0..<huff_len] dst in
            Some (copy_head idx buf [0..<head_len] dst)
      else Some (dst @ [0]))"

section \<open>Strings in their final place\<close>

lemma shift_forward_nth:
  assumes "1 \<le> hl" and "k \<le> n" and "length dst = idx + hl + n" and "length h = n"
    and "\<And>j. j < n - k \<Longrightarrow> dst ! (idx + 1 + j) = h ! j"
    and "\<And>j. n - k \<le> j \<Longrightarrow> j < n \<Longrightarrow> dst ! (idx + hl + j) = h ! j"
  shows "length (shift_forward idx n hl [k..<n] dst) = idx + hl + n \<and>
    (\<forall>j<n. shift_forward idx n hl [k..<n] dst ! (idx + hl + j) = h ! j) \<and>
    (\<forall>i<idx. shift_forward idx n hl [k..<n] dst ! i = dst ! i)"
  using assms
proof (induction "n - k" arbitrary: k dst)
  case (Suc m)
  then have k: "[k..<n] = k # [Suc k..<n]" by (simp add: upt_conv_Cons)
  let ?d = "dst[idx + hl + m := dst ! (idx + 1 + m)]"
  have m: "n - (k + 1) = m" "m < n - k" using Suc.hyps(2) by simp_all
  have "?d ! (idx + 1 + j) = h ! j" if "j < n - Suc k" for j
    using that m Suc.prems(1) Suc.prems(5) [of j] by (simp add: nth_list_update)
  moreover have "?d ! (idx + hl + j) = h ! j" if "n - Suc k \<le> j" "j < n" for j
    using that m Suc.prems(3,5,6) by (cases "j = m") (simp_all add: nth_list_update)
  ultimately have "length (shift_forward idx n hl [Suc k..<n] ?d) = idx + hl + n \<and>
    (\<forall>j<n. shift_forward idx n hl [Suc k..<n] ?d ! (idx + hl + j) = h ! j) \<and>
    (\<forall>i<idx. shift_forward idx n hl [Suc k..<n] ?d ! i = ?d ! i)"
    using Suc.hyps(2) Suc.prems by (intro Suc.hyps(1)) simp_all
  then show ?case unfolding k shift_forward.simps Let_def m(1) by simp
qed simp

lemma copy_head_nth:
  "idx + m \<le> length dst \<Longrightarrow> length (copy_head idx buf [k..<m] dst) = length dst \<and>
     (\<forall>i<length dst. copy_head idx buf [k..<m] dst ! i = (if idx + k \<le> i \<and> i < idx + m then buf ! (i - idx) else dst ! i))"
proof (induction "m - k" arbitrary: k dst)
  case (Suc x)
  then have k: "[k..<m] = k # [Suc k..<m]" by (simp add: upt_conv_Cons)
  show ?case unfolding k copy_head.simps
    using Suc.hyps(1) [of "Suc k" "dst[idx + k := buf ! k]"] Suc.hyps(2) Suc.prems
    by (auto simp: nth_list_update)
qed auto

text \<open>What \<open>encode_str\<close> appends.\<close>

definition str_bytes :: "bytes \<Rightarrow> bytes" where
  "str_bytes val = (if val = [] then [0] else encode_int (length (huff_encode val [])) 7 0x80 [] @ huff_encode val [])"

lemma encode_int_loop_append: "encode_int_loop v dst = dst @ encode_int_loop v []"
proof (induction v arbitrary: dst rule: less_induct)
  case (less v)
  have "drop_bit 7 v < v" if "128 \<le> v" using that by (simp add: drop_bit_eq_div)
  note IH = less [OF this]
  show ?case
    using IH [of "dst @ [0x80 OR word_of_nat v]"] IH [of "[0x80 OR word_of_nat v]"]
    by (simp add: encode_int_loop.simps [of v])
qed

lemma encode_int_append: "encode_int v p f dst = dst @ encode_int v p f []"
  unfolding encode_int_def Let_def
  by (simp add: encode_int_loop_append [of _ "dst @ _"] encode_int_loop_append [of _ "[_]"])

lemma encode_int_nonempty [simp]: "encode_int v p f [] \<noteq> []"
  unfolding encode_int_def Let_def by (simp add: encode_int_loop_append [of _ "[_]"])

lemma encode_str_bytes:
  assumes "length (encode_int (length (huff_encode val [])) 7 0x80 []) \<le> PLACEHOLDER_LEN"
  shows "encode_str val dst = Some (dst @ str_bytes val)"
proof (cases "val = []")
  case True
  then show ?thesis by (simp add: encode_str_def str_bytes_def)
next
  case False
  define h where "h = huff_encode val []"
  define n where "n = length h"
  have d: "huff_encode val (dst @ [0]) = dst @ [0] @ h" using huff_encode_append [of val "dst @ [0]"] by (simp add: h_def)
  show ?thesis
  proof (cases "encode_int_one_byte n 7")
    case True
    then show ?thesis
      using False by (simp add: encode_str_def str_bytes_def d Let_def encode_int_def flip: h_def n_def)
  next
    case c: False
    define hdr where "hdr = encode_int n 7 0x80 []"
    have l: "1 \<le> length hdr" unfolding hdr_def by (cases "encode_int n 7 0x80 []") simp_all
    let ?buf = "hdr @ replicate (PLACEHOLDER_LEN - length hdr) 0"
    let ?d = "dst @ [0] @ h @ drop 1 hdr"
    let ?s = "shift_forward (length dst) n (length hdr) [0..<n] ?d"
    have len: "length ?d = length dst + length hdr + n" using l by (simp add: n_def)
    have at: "?d ! (length dst + 1 + j) = h ! j" if "j < n - 0" for j using that by (simp add: nth_append n_def)
    have s: "length ?s = length dst + length hdr + n \<and> (\<forall>j<n. ?s ! (length dst + length hdr + j) = h ! j) \<and>
      (\<forall>i<length dst. ?s ! i = ?d ! i)"
      by (rule shift_forward_nth [OF l _ len n_def [symmetric] at]) simp_all
    have "copy_head (length dst) ?buf [0..<length hdr] ?s = dst @ hdr @ h"
    proof (rule nth_equalityI)
      fix i assume "i < length (copy_head (length dst) ?buf [0..<length hdr] ?s)"
      then have i: "i < length dst + length hdr + n" using copy_head_nth [of "length dst" "length hdr" ?s] s by simp
      then show "copy_head (length dst) ?buf [0..<length hdr] ?s ! i = (dst @ hdr @ h) ! i"
        using copy_head_nth [of "length dst" "length hdr" ?s ?buf 0] s
        by (auto simp: nth_append dest: spec [of _ "i - (length dst + length hdr)"])
    qed (use copy_head_nth [of "length dst" "length hdr" ?s] s n_def in simp)
    moreover have "length hdr \<le> PLACEHOLDER_LEN" using assms by (simp add: hdr_def n_def h_def)
    ultimately show ?thesis
      using False c by (simp add: encode_str_def str_bytes_def d Let_def flip: h_def n_def hdr_def)
  qed
qed

section \<open>Integers go through\<close>

definition moved :: "nat \<Rightarrow> Cursor \<Rightarrow> Cursor" where
  "moved n c = c\<lparr>cur_pos := cur_pos c + n\<rparr>"

lemma moved_simps [simp]:
  "chunk (moved n c) = drop n (chunk c)" "moved 0 c = c" "moved m (moved n c) = moved (n + m) c"
  "cur_buf (moved n c) = cur_buf c" "cur_pos (moved n c) = cur_pos c + n"
  by (simp_all add: moved_def chunk_def add.commute add.left_commute)

lemma remaining_chunk: "remaining c = length (chunk c)"
  by (simp add: remaining_def chunk_def)

lemma has_remaining_chunk [simp]: "has_remaining c \<longleftrightarrow> chunk c \<noteq> []"
  by (simp add: has_remaining_def remaining_chunk)

lemma get_u8_chunk: "chunk c = x # xs \<Longrightarrow> get_u8 c = (x, moved 1 c)"
  by (metis chunk_def get_u8_def hd_drop_conv_nth length_drop length_greater_0_conv list.distinct(1) list.sel(1) moved_def
      zero_less_diff)

lemma advance_chunk: "advance n c = (if n \<le> length (chunk c) then Some (moved n c) else None)"
  by (simp add: advance_def moved_def remaining_chunk)

lemma varint_byte:
  "unat ((0x80 OR word_of_nat v) AND VARINT_MASK :: u8) = v mod 128"
  "(0x80 OR word_of_nat v) AND VARINT_FLAG \<noteq> (0 :: u8)"
proof -
  have m: "VARINT_MASK = mask 7" by (simp add: VARINT_MASK_def mask_eq_exp_minus_1)
  have "(0x80 OR word_of_nat v) AND VARINT_MASK = (take_bit 7 (word_of_nat v) :: u8)"
    by (simp add: m take_bit_eq_mask and.commute [of "mask 7"] bit.conj_disj_distrib2 mask_eq_exp_minus_1)
  then have "unat ((0x80 OR word_of_nat v) AND VARINT_MASK :: u8) = take_bit 7 (unat (word_of_nat v :: u8))"
    by (simp only: unsigned_take_bit_eq)
  then show "unat ((0x80 OR word_of_nat v) AND VARINT_MASK :: u8) = v mod 128"
    by (simp add: unsigned_of_nat take_bit_eq_mod mod_mod_cancel)
  have "bit ((0x80 OR word_of_nat v) AND VARINT_FLAG :: u8) 7" by (simp add: VARINT_FLAG_def bit_simps)
  then show "(0x80 OR word_of_nat v) AND VARINT_FLAG \<noteq> (0 :: u8)" by auto
qed

lemma varint_last:
  assumes "v < 128"
  shows "unat (word_of_nat v AND VARINT_MASK :: u8) = v" "word_of_nat v AND VARINT_FLAG = (0 :: u8)"
proof -
  have "word_of_nat v AND VARINT_MASK = (take_bit 7 (word_of_nat v) :: u8)"
    by (simp add: VARINT_MASK_def take_bit_eq_mask mask_eq_exp_minus_1)
  then have "unat (word_of_nat v AND VARINT_MASK :: u8) = take_bit 7 (unat (word_of_nat v :: u8))"
    by (simp only: unsigned_take_bit_eq)
  then show "unat (word_of_nat v AND VARINT_MASK :: u8) = v"
    using assms by (simp add: unsigned_of_nat take_bit_eq_mod)
  have f: "VARINT_FLAG = 2 ^ 7" by (simp add: VARINT_FLAG_def)
  have "\<And>n. bit VARINT_FLAG n \<longleftrightarrow> n = 7" unfolding f bit_exp_iff by auto
  moreover have "\<not> bit (word_of_nat v :: u8) 7" using assms bit_small [of v 7 7] by (auto simp: bit_word_of_nat)
  ultimately show "word_of_nat v AND VARINT_FLAG = (0 :: u8)"
    by (intro bit_word_eqI) (auto simp: bit_simps)
qed

lemma encode_int_loop_length: "0 < k \<Longrightarrow> length (encode_int_loop v []) \<le> k \<longleftrightarrow> v < 128 ^ k"
proof (induction k arbitrary: v)
  case (Suc k)
  show ?case
  proof (cases "v \<ge> 128")
    case True
    then have e: "length (encode_int_loop v []) = Suc (length (encode_int_loop (v div 128) []))"
      by (simp add: encode_int_loop.simps [of v] encode_int_loop_append [of _ "[_]"] drop_bit_eq_div)
    show ?thesis
    proof (cases "k = 0")
      case True
      have "encode_int_loop (v div 128) [] \<noteq> []"
        by (simp add: encode_int_loop.simps [of "v div 128"] encode_int_loop_append [of _ "[_]"])
      then show ?thesis using True e \<open>v \<ge> 128\<close> by simp
    next
      case False
      then show ?thesis using Suc.IH [of "v div 128"] e by (simp add: div_less_iff_less_mult mult.commute)
    qed
  next
    case False
    have "(128 :: nat) ^ 1 \<le> 128 ^ Suc k" by (rule power_increasing) simp_all
    then show ?thesis using False by (simp add: encode_int_loop.simps [of v] del: power_Suc)
  qed
qed simp

lemma decode_int_loop_encoded:
  assumes "chunk c = encode_int_loop v [] @ rest" and "bytes < MAX_BYTES"
  shows "if bytes + length (encode_int_loop v []) \<le> MAX_BYTES
    then decode_int_loop ret bytes shift c = (Inr (ret + v * 2 ^ shift), moved (length (encode_int_loop v [])) c)
    else fst (decode_int_loop ret bytes shift c) = Inl IntegerOverflow"
  using assms
proof (induction v arbitrary: c bytes ret shift rule: less_induct)
  case (less v)
  show ?case
  proof (cases "v \<ge> 128")
    case True
    have e: "encode_int_loop v [] = (0x80 OR word_of_nat v) # encode_int_loop (v div 128) []"
      using True by (simp add: encode_int_loop.simps [of v] encode_int_loop_append [of _ "[_]"] drop_bit_eq_div)
    have g: "get_u8 c = (0x80 OR word_of_nat v, moved 1 c)" using less.prems(1) by (intro get_u8_chunk) (simp add: e)
    have m: "chunk (moved 1 c) = encode_int_loop (v div 128) [] @ rest" using less.prems(1) by (simp add: e)
    have s: "ret + push_bit shift (v mod 128) + v div 128 * 2 ^ (shift + 7) = ret + v * 2 ^ shift"
    proof -
      have "v mod 128 * 2 ^ shift + v div 128 * (2 ^ shift * 128) = (v mod 128 + v div 128 * 128) * 2 ^ shift"
        by (simp only: distrib_right mult.assoc mult.commute [of 128 "2 ^ shift"])
      then show ?thesis by (simp add: push_bit_eq_mult power_add)
    qed
    have c: "chunk c \<noteq> []" using less.prems(1) e by simp
    have n: "0 < length (encode_int_loop (v div 128) [])"
      by (simp add: encode_int_loop.simps [of "v div 128"] encode_int_loop_append [of _ "[_]"])
    show ?thesis
    proof (cases "bytes + 1 = MAX_BYTES")
      case True
      then have "\<not> bytes + length (encode_int_loop v []) \<le> MAX_BYTES" using n unfolding e list.size by linarith
      then show ?thesis using True c g by (simp add: decode_int_loop.simps [of ret] varint_byte Let_def)
    next
      case False
      then have "bytes + 1 < MAX_BYTES" using less.prems(2) by simp
      from less.IH [OF _ m this, of "ret + push_bit shift (v mod 128)" "shift + 7"] s True False c g
      show ?thesis by (simp add: decode_int_loop.simps [of ret] varint_byte e Let_def split: if_splits)
    qed
  next
    case False
    then have e: "encode_int_loop v [] = [word_of_nat v]" by (simp add: encode_int_loop.simps [of v])
    have g: "get_u8 c = (word_of_nat v, moved 1 c)" using less.prems(1) by (intro get_u8_chunk) (simp add: e)
    show ?thesis using False g less.prems e
      by (simp add: decode_int_loop.simps [of ret] varint_last Let_def push_bit_eq_mult)
  qed
qed

lemma prefix_byte:
  fixes f :: u8
  assumes "p < 8" and "f AND mask p = 0" and "v < 2 ^ p"
  shows "unat ((f OR word_of_nat v) AND mask p) = v"
proof -
  have "(f OR word_of_nat v) AND mask p = take_bit p (word_of_nat v)"
    using assms(2) by (simp add: bit.conj_disj_distrib2 take_bit_eq_mask)
  then have "unat ((f OR word_of_nat v) AND mask p) = take_bit p (unat (word_of_nat v :: u8))"
    by (simp only: unsigned_take_bit_eq)
  also have "\<dots> = take_bit p v" using assms(1) by (simp only: unsigned_of_nat take_bit_take_bit) simp
  finally show ?thesis using assms(3) by (simp add: take_bit_nat_eq_self_iff)
qed

lemma prefix_mask: "p < 8 \<Longrightarrow> (push_bit p 1 - 1 :: u8) = mask p \<and> unat (mask p :: u8) = 2 ^ p - 1"
proof -
  assume "p < 8"
  then have "p = 0 \<or> p = 1 \<or> p = 2 \<or> p = 3 \<or> p = 4 \<or> p = 5 \<or> p = 6 \<or> p = 7" by arith
  then show ?thesis by (auto simp: mask_eq_exp_minus_1)
qed

lemma decode_int_encoded:
  assumes "chunk c = encode_int v p f [] @ rest" and "1 \<le> p" and "p < 8" and "f AND mask p = 0"
  shows "if v < 2 ^ p - 1 + 2 ^ 28 then decode_int p c = (Inr v, moved (length (encode_int v p f [])) c)
    else fst (decode_int p c) = Inl IntegerOverflow"
proof -
  note m = prefix_mask [OF assms(3)]
  have c: "chunk c \<noteq> []" using assms(1) by simp
  show ?thesis
  proof (cases "v < 2 ^ p - 1")
    case True
    then have e: "encode_int v p f [] = [f OR word_of_nat v]" by (simp add: encode_int_def encode_int_one_byte_def push_bit_of_1)
    have g: "get_u8 c = (f OR word_of_nat v, moved 1 c)" using assms(1) by (intro get_u8_chunk) (simp add: e)
    have "unat ((f OR word_of_nat v) AND mask p) = v" using True by (intro prefix_byte assms) simp
    then have "decode_int p c = (Inr v, moved (length (encode_int v p f [])) c)"
      using True c g m assms(2,3) e by (simp add: decode_int_def Let_def)
    moreover have "v < 2 ^ p - 1 + 2 ^ 28" using True by (rule trans_less_add1)
    ultimately show ?thesis by presburger
  next
    case False
    define low where "low = (2 :: nat) ^ p - 1"
    have e: "encode_int v p f [] = (f OR word_of_nat low) # encode_int_loop (v - low) []"
      using False by (simp add: encode_int_def encode_int_one_byte_def push_bit_of_1 low_def Let_def encode_int_loop_append [of _ "[_]"])
    have g: "get_u8 c = (f OR word_of_nat low, moved 1 c)" using assms(1) by (intro get_u8_chunk) (simp add: e)
    have r: "unat ((f OR word_of_nat low) AND mask p) = low" by (rule prefix_byte [OF assms(3,4)]) (simp add: low_def)
    have d: "decode_int p c = decode_int_loop low 1 0 (moved 1 c)"
      using c g m r assms(2,3) by (simp add: decode_int_def Let_def low_def)
    have ch: "chunk (moved 1 c) = encode_int_loop (v - low) [] @ rest" using assms(1) by (simp add: e)
    have b: "1 < MAX_BYTES" by (simp add: MAX_BYTES_def)
    have "1 + length (encode_int_loop (v - low) []) \<le> MAX_BYTES \<longleftrightarrow> v - low < 128 ^ 4"
      using encode_int_loop_length [of 4 "v - low"] by (simp add: MAX_BYTES_def)
    moreover have l: "low \<le> v" using False by (simp add: low_def)
    then have "v - low < 128 ^ 4 \<longleftrightarrow> v < low + 2 ^ 28" by auto
    ultimately show ?thesis
      using decode_int_loop_encoded [OF ch b, of low 0] l unfolding d e low_def [symmetric] by (simp split: if_splits)
  qed
qed

end
