(* ===== verification/Hpack_Decoder.thy ===== *)
theory Hpack_Decoder
  imports Hpack_Int
begin

text \<open>
  \<open>http/src/h2/proto/hpack/decoder.rs\<close>: the dynamic table of the decoder and the decoding of header blocks. The
  callback of \<open>decode\<close> is the list of the headers passed to it. Errors are returned with the decoder and the
  cursor as they are left; \<open>Panic\<close> stands for the failing assertions.
\<close>

unbundle bit_operations_syntax

section \<open>The dynamic table\<close>

text \<open>The size is the sum of the lengths of the entries (an invariant shown below), so subtractions do not wrap.\<close>

record DecTable =
  dt_entries :: "header list"
  dt_size :: nat
  dt_max_size :: nat

definition dt_new :: "nat \<Rightarrow> DecTable" where
  "dt_new n = \<lparr>dt_entries = [], dt_size = 0, dt_max_size = n\<rparr>"

definition dt_get :: "nat \<Rightarrow> DecTable \<Rightarrow> DecoderError fault + header" where
  "dt_get index t =
     (if index = 0 then Inl (Err InvalidTableIndex)
      else if index \<le> 61 then (case get_static index of Some h \<Rightarrow> Inr h | None \<Rightarrow> Inl Panic)
      else if index - 62 < length (dt_entries t) then Inr (dt_entries t ! (index - 62))
      else Inl (Err InvalidTableIndex))"

text \<open>\<open>entries.pop_back()\<close> with the size of the entry taken off.\<close>

definition dt_pop_back :: "DecTable \<Rightarrow> DecTable" where
  "dt_pop_back t = t\<lparr>dt_entries := butlast (dt_entries t), dt_size := dt_size t - header_len (last (dt_entries t))\<rparr>"

function dt_reserve :: "nat \<Rightarrow> DecTable \<Rightarrow> DecTable" where
  "dt_reserve n t =
     (if dt_size t + n > dt_max_size t then
        if dt_entries t = [] then t else dt_reserve n (dt_pop_back t)
      else t)"
  by pat_completeness auto
termination
  by (relation "measure (\<lambda>(_, t). length (dt_entries t))") (auto simp: dt_pop_back_def)

definition dt_insert :: "header \<Rightarrow> DecTable \<Rightarrow> DecTable" where
  "dt_insert h t =
     (let n = header_len h; t = dt_reserve n t in
      if dt_size t + n \<le> dt_max_size t then t\<lparr>dt_size := dt_size t + n, dt_entries := h # dt_entries t\<rparr> else t)"

text \<open>\<open>None\<close>: no entry is left although the size is not zero.\<close>

function dt_consolidate :: "DecTable \<Rightarrow> DecTable option" where
  "dt_consolidate t =
     (if dt_size t > dt_max_size t then
        if dt_entries t = [] then None else dt_consolidate (dt_pop_back t)
      else Some t)"
  by pat_completeness auto
termination
  by (relation "measure (\<lambda>t. length (dt_entries t))") (auto simp: dt_pop_back_def)

declare dt_reserve.simps [simp del] dt_consolidate.simps [simp del]

definition dt_set_max_size :: "nat \<Rightarrow> DecTable \<Rightarrow> DecTable option" where
  "dt_set_max_size n t = dt_consolidate (t\<lparr>dt_max_size := n\<rparr>)"

section \<open>The decoder\<close>

record Decoder =
  d_max_size_update :: "nat option"
  d_last_max_update :: nat
  d_table :: DecTable
  d_buffer :: bytes

definition decoder_new :: "nat \<Rightarrow> Decoder" where
  "decoder_new n = \<lparr>d_max_size_update = None, d_last_max_update = n, d_table = dt_new n, d_buffer = []\<rparr>"

definition queue_size_update :: "nat \<Rightarrow> Decoder \<Rightarrow> Decoder" where
  "queue_size_update n d =
     d\<lparr>d_max_size_update := Some (case d_max_size_update d of Some v \<Rightarrow> max v n | None \<Rightarrow> n)\<rparr>"

datatype Representation =
  Indexed_Field | LiteralWithIndexing | LiteralWithoutIndexing | LiteralNeverIndexed | Size_Update

definition load :: "u8 \<Rightarrow> DecoderError + Representation" where
  "load byte =
     (if byte AND 0x80 = 0x80 then Inr Indexed_Field
      else if byte AND 0x40 = 0x40 then Inr LiteralWithIndexing
      else if byte AND 0xF0 = 0 then Inr LiteralWithoutIndexing
      else if byte AND 0xF0 = 0x10 then Inr LiteralNeverIndexed
      else if byte AND 0xE0 = 0x20 then Inr Size_Update
      else Inl InvalidRepresentation)"

text \<open>\<open>take\<close> splits the bytes up to the end of the string off the buffer; \<open>consume\<close> forgets what has been read.\<close>

definition cur_take :: "nat \<Rightarrow> Cursor \<Rightarrow> (bytes \<times> Cursor) option" where
  "cur_take n c =
     (if cur_pos c + n \<le> length (cur_buf c) then
        Some (drop (cur_pos c) (take (cur_pos c + n) (cur_buf c)), \<lparr>cur_buf = drop (cur_pos c + n) (cur_buf c), cur_pos = 0\<rparr>)
      else None)"

definition consume :: "Cursor \<Rightarrow> Cursor option" where
  "consume c = map_option snd (cur_take 0 c)"

record StringMarker =
  sm_offset :: nat
  sm_len :: nat
  sm_string :: "bytes option"

definition sm_consume :: "StringMarker \<Rightarrow> Cursor \<Rightarrow> (bytes \<times> Cursor) option" where
  "sm_consume m c =
     (case advance (sm_offset m) c of
        None \<Rightarrow> None
      | Some c \<Rightarrow>
          (case sm_string m of
             Some s \<Rightarrow> map_option (Pair s) (advance (sm_len m) c)
           | None \<Rightarrow> cur_take (sm_len m) c))"

definition try_decode_string :: "Decoder \<Rightarrow> Cursor \<Rightarrow> (DecoderError fault + StringMarker) \<times> Decoder \<times> Cursor" where
  "try_decode_string d c =
     (let old_pos = cur_pos c in
      (case peek_u8 c of
         None \<Rightarrow> (Inl (Err (NeedMore UnexpectedEndOfStream)), d, c)
       | Some hdr \<Rightarrow>
           let huff = (hdr AND 0x80 = 0x80) in
           (case decode_int 7 c of
              (Inl e, c) \<Rightarrow> (Inl (Err e), d, c)
            | (Inr n, c) \<Rightarrow>
                if n > remaining c then (Inl (Err (NeedMore StringUnderflow)), d, c)
                else
                  let offset = cur_pos c - old_pos in
                  if huff then
                    (case huff_decode (take n (chunk c)) (d_buffer d) of (r, buf) \<Rightarrow>
                       let d = d\<lparr>d_buffer := buf\<rparr> in
                       (case advance n c of
                          None \<Rightarrow> (Inl Panic, d, c)
                        | Some c \<Rightarrow>
                            (case r of
                               Inl e \<Rightarrow> (Inl (Err e), d, c)
                             | Inr s \<Rightarrow> (Inr \<lparr>sm_offset = offset, sm_len = n, sm_string = Some s\<rparr>, d, c))))
                  else
                    (case advance n c of
                       None \<Rightarrow> (Inl Panic, d, c)
                     | Some c \<Rightarrow> (Inr \<lparr>sm_offset = offset, sm_len = n, sm_string = None\<rparr>, d, c)))))"

definition decode_string :: "Decoder \<Rightarrow> Cursor \<Rightarrow> (DecoderError fault + bytes) \<times> Decoder \<times> Cursor" where
  "decode_string d c =
     (let old_pos = cur_pos c in
      (case try_decode_string d c of
         (Inl e, d, c) \<Rightarrow> (Inl e, d, c)
       | (Inr m, d, c) \<Rightarrow>
           let c = c\<lparr>cur_pos := old_pos\<rparr> in
           (case sm_consume m c of None \<Rightarrow> (Inl Panic, d, c) | Some (s, c) \<Rightarrow> (Inr s, d, c))))"

definition err :: "DecoderError + 'a \<Rightarrow> DecoderError fault + 'a" where
  "err r = (case r of Inl e \<Rightarrow> Inl (Err e) | Inr x \<Rightarrow> Inr x)"

text \<open>The branch of \<open>decode_literal\<close> for a new name: both strings are located before either is taken.\<close>

definition decode_name_value :: "Decoder \<Rightarrow> Cursor \<Rightarrow> (DecoderError fault + bytes \<times> bytes) \<times> Decoder \<times> Cursor" where
  "decode_name_value d c =
     (let old_pos = cur_pos c in
      (case try_decode_string d c of
         (Inl e, d, c) \<Rightarrow> (Inl e, d, c)
       | (Inr name_marker, d, c) \<Rightarrow>
           (case try_decode_string d c of
              (Inl e, d, c) \<Rightarrow> (Inl e, d, c)
            | (Inr value_marker, d, c) \<Rightarrow>
                let c = c\<lparr>cur_pos := old_pos\<rparr> in
                (case sm_consume name_marker c of
                   None \<Rightarrow> (Inl Panic, d, c)
                 | Some (n, c) \<Rightarrow>
                     (case sm_consume value_marker c of
                        None \<Rightarrow> (Inl Panic, d, c)
                      | Some (v, c) \<Rightarrow> (Inr (n, v), d, c))))))"

definition decode_literal :: "h2_lib \<Rightarrow> bool \<Rightarrow> Decoder \<Rightarrow> Cursor \<Rightarrow> (DecoderError fault + header) \<times> Decoder \<times> Cursor" where
  "decode_literal L index d c =
     (case decode_int (if index then 6 else 4) c of
        (Inl e, c) \<Rightarrow> (Inl (Err e), d, c)
      | (Inr table_idx, c) \<Rightarrow>
          if table_idx = 0 then
            (case decode_name_value d c of
               (Inl e, d, c) \<Rightarrow> (Inl e, d, c)
             | (Inr (n, v), d, c) \<Rightarrow> (err (header_new L n v), d, c))
          else
            (case dt_get table_idx (d_table d) of
               Inl e \<Rightarrow> (Inl e, d, c)
             | Inr h \<Rightarrow>
                 (case decode_string d c of
                    (Inl e, d, c) \<Rightarrow> (Inl e, d, c)
                  | (Inr v, d, c) \<Rightarrow> (err (into_entry L (name h) v), d, c))))"

definition decode_indexed :: "Decoder \<Rightarrow> Cursor \<Rightarrow> (DecoderError fault + header) \<times> Cursor" where
  "decode_indexed d c =
     (case decode_int 7 c of
        (Inl e, c) \<Rightarrow> (Inl (Err e), c)
      | (Inr index, c) \<Rightarrow> (dt_get index (d_table d), c))"

definition process_size_update :: "Decoder \<Rightarrow> Cursor \<Rightarrow> (DecoderError fault + unit) \<times> Decoder \<times> Cursor" where
  "process_size_update d c =
     (case decode_int 5 c of
        (Inl e, c) \<Rightarrow> (Inl (Err e), d, c)
      | (Inr new_size, c) \<Rightarrow>
          if new_size > d_last_max_update d then (Inl (Err InvalidMaxDynamicSize), d, c)
          else
            (case dt_set_max_size new_size (d_table d) of
               None \<Rightarrow> (Inl Panic, d, c)
             | Some t \<Rightarrow> (Inr (), d\<lparr>d_table := t\<rparr>, c)))"

text \<open>The arms of the match in the loop: the header passed to the callback, if any, and the new value of
  \<open>can_resize\<close>; then one turn of the loop, which ends with \<open>consume\<close>.\<close>

definition decode_arm ::
    "h2_lib \<Rightarrow> Representation \<Rightarrow> bool \<Rightarrow> Decoder \<Rightarrow> Cursor \<Rightarrow> (DecoderError fault + header list \<times> bool) \<times> Decoder \<times> Cursor" where
  "decode_arm L rep can_resize d c =
     (case rep of
        Indexed_Field \<Rightarrow> (case decode_indexed d c of (r, c) \<Rightarrow> (map_ok (\<lambda>h. ([h], False)) r, d, c))
      | LiteralWithIndexing \<Rightarrow>
          (case decode_literal L True d c of
             (Inl e, d, c) \<Rightarrow> (Inl e, d, c)
           | (Inr h, d, c) \<Rightarrow> (Inr ([h], False), d\<lparr>d_table := dt_insert h (d_table d)\<rparr>, c))
      | LiteralWithoutIndexing \<Rightarrow>
          (case decode_literal L False d c of (r, d, c) \<Rightarrow> (map_ok (\<lambda>h. ([h], False)) r, d, c))
      | LiteralNeverIndexed \<Rightarrow>
          (case decode_literal L False d c of (r, d, c) \<Rightarrow> (map_ok (\<lambda>h. ([h], False)) r, d, c))
      | Size_Update \<Rightarrow>
          if \<not> can_resize then (Inl (Err InvalidMaxDynamicSize), d, c)
          else (case process_size_update d c of (r, d, c) \<Rightarrow> (map_ok (\<lambda>_. ([], can_resize)) r, d, c)))"

definition decode_block ::
    "h2_lib \<Rightarrow> u8 \<Rightarrow> bool \<Rightarrow> Decoder \<Rightarrow> Cursor \<Rightarrow> (DecoderError fault + header list \<times> bool) \<times> Decoder \<times> Cursor" where
  "decode_block L ty can_resize d c =
     (case load ty of
        Inl e \<Rightarrow> (Inl (Err e), d, c)
      | Inr rep \<Rightarrow>
          (case decode_arm L rep can_resize d c of
             (Inl e, d, c) \<Rightarrow> (Inl e, d, c)
           | (Inr x, d, c) \<Rightarrow>
               (case consume c of None \<Rightarrow> (Inl Panic, d, c) | Some c \<Rightarrow> (Inr x, d, c))))"

section \<open>What the readers consume\<close>

definition cursor_ok :: "Cursor \<Rightarrow> bool" where
  "cursor_ok c \<longleftrightarrow> cur_pos c \<le> length (cur_buf c)"

lemma cursor_ok_chunk: "chunk c \<noteq> [] \<Longrightarrow> cursor_ok c"
  by (auto simp: cursor_ok_def chunk_def)

lemma cursor_ok_moved: "cursor_ok c \<Longrightarrow> n \<le> length (chunk c) \<Longrightarrow> cursor_ok (moved n c)"
  by (auto simp: cursor_ok_def chunk_def)

lemma moved_back [simp]: "(moved n c)\<lparr>cur_pos := cur_pos c\<rparr> = c"
  by (simp add: moved_def)

lemma get_u8_moved: "chunk c \<noteq> [] \<Longrightarrow> get_u8 c = (hd (chunk c), moved 1 c)"
  by (cases "chunk c") (simp_all add: get_u8_chunk)

lemma decode_int_loop_moves:
  "decode_int_loop ret bytes shift c = (r, c') \<Longrightarrow> \<exists>n\<le>length (chunk c). c' = moved n c"
proof (induction ret bytes shift c rule: decode_int_loop.induct)
  case (1 ret bytes shift c)
  show ?case
  proof (cases "chunk c")
    case Nil
    then show ?thesis using "1.prems" by (auto simp: decode_int_loop.simps [of ret] intro!: exI [of _ 0])
  next
    case (Cons b bs)
    have g: "get_u8 c = (b, moved 1 c)" by (rule get_u8_chunk [OF Cons])
    consider "c' = moved 1 c" | "\<exists>r0. decode_int_loop r0 (bytes + 1) (shift + 7) (moved 1 c) = (r, c') \<and>
        r0 = ret + push_bit shift (unat (b AND VARINT_MASK)) \<and> b AND VARINT_FLAG \<noteq> 0 \<and> bytes + 1 \<noteq> MAX_BYTES"
      using "1.prems" g Cons by (auto simp: decode_int_loop.simps [of ret] Let_def split: if_splits)
    then show ?thesis
    proof cases
      case 1
      then show ?thesis using Cons by auto
    next
      case 2
      then obtain n where "n \<le> length (chunk (moved 1 c))" "c' = moved n (moved 1 c)"
        using "1.IH" [OF _ g [symmetric] refl refl refl refl] Cons by auto
      then show ?thesis using Cons by (intro exI [of _ "Suc n"]) simp
    qed
  qed
qed

lemma decode_int_moves:
  assumes "decode_int p c = (r, c')"
  shows "\<exists>n\<le>length (chunk c). c' = moved n c \<and> (\<forall>v. r = Inr v \<longrightarrow> 0 < n)"
proof (cases "chunk c = [] \<or> \<not> (1 \<le> p \<and> p \<le> 8)")
  case True
  then show ?thesis using assms by (auto simp: decode_int_def intro!: exI [of _ 0] split: if_splits)
next
  case False
  then consider "c' = moved 1 c" | ret where "decode_int_loop ret 1 0 (moved 1 c) = (r, c')"
    using assms get_u8_moved [of c] by (auto simp: decode_int_def Let_def split: if_splits)
  then show ?thesis
  proof cases
    case 1
    then show ?thesis using False by (cases "chunk c") auto
  next
    case 2
    from decode_int_loop_moves [OF this] obtain n where "n \<le> length (chunk (moved 1 c))" "c' = moved n (moved 1 c)" by blast
    then show ?thesis using False by (cases "chunk c") (auto intro!: exI [of _ "Suc n"])
  qed
qed

lemma try_decode_string_moves:
  assumes "try_decode_string d c = (r, d', c')"
  shows "\<exists>n\<le>length (chunk c). c' = moved n c \<and> (\<forall>m. r = Inr m \<longrightarrow> n = sm_offset m + sm_len m) \<and> r \<noteq> Inl Panic"
proof (cases "chunk c = []")
  case True
  then show ?thesis using assms by (auto simp: try_decode_string_def peek_u8_def intro!: exI [of _ 0])
next
  case False
  obtain r1 c1 where i: "decode_int 7 c = (r1, c1)" by (cases "decode_int 7 c")
  from decode_int_moves [OF this] obtain k where k: "k \<le> length (chunk c)" "c1 = moved k c" by blast
  show ?thesis
  proof (cases r1)
    case (Inl e)
    then show ?thesis using assms False i k by (auto simp: try_decode_string_def peek_u8_def)
  next
    case (Inr n)
    show ?thesis
      by (rule exI [of _ "if n > length (chunk c1) then k else k + n"])
        (use assms False i k Inr in \<open>auto simp: try_decode_string_def peek_u8_def Let_def advance_chunk remaining_chunk
          split: if_splits prod.splits sum.splits\<close>)
  qed
qed

lemma sm_consume_moves:
  assumes "cursor_ok c" and "sm_offset m + sm_len m \<le> length (chunk c)"
  shows "\<exists>s c'. sm_consume m c = Some (s, c') \<and> cursor_ok c' \<and> chunk c' = drop (sm_offset m + sm_len m) (chunk c)"
proof -
  have "cur_pos c + sm_offset m + sm_len m \<le> length (cur_buf c)" using assms by (simp add: cursor_ok_def chunk_def)
  then show ?thesis using assms
    by (auto simp: sm_consume_def advance_chunk cur_take_def cursor_ok_def chunk_def add.commute add.left_commute split: option.splits)
qed

lemma decode_string_moves:
  assumes "cursor_ok c" and "decode_string d c = (r, d', c')"
  shows "r \<noteq> Inl Panic \<and> cursor_ok c' \<and> (\<exists>n. chunk c' = drop n (chunk c))"
proof -
  obtain r1 d1 c1 where t: "try_decode_string d c = (r1, d1, c1)" by (cases "try_decode_string d c")
  from try_decode_string_moves [OF t] obtain n where n: "n \<le> length (chunk c)" "c1 = moved n c" "r1 \<noteq> Inl Panic"
    "\<And>m. r1 = Inr m \<Longrightarrow> n = sm_offset m + sm_len m" by blast
  show ?thesis
  proof (cases r1)
    case (Inl e)
    then show ?thesis using assms t n(1,2,3) by (auto simp: decode_string_def cursor_ok_moved)
  next
    case (Inr m)
    from sm_consume_moves [OF assms(1), of m] n(1) n(4) [OF Inr] obtain s c2 where
      "sm_consume m c = Some (s, c2)" "cursor_ok c2" "chunk c2 = drop (sm_offset m + sm_len m) (chunk c)" by auto
    then show ?thesis using assms(2) t Inr n(2) by (auto simp: decode_string_def)
  qed
qed

lemma decode_name_value_moves:
  assumes o1: "cursor_ok c" and "decode_name_value d c = (r, d', c')"
  shows "r \<noteq> Inl Panic \<and> cursor_ok c' \<and> (\<exists>n. chunk c' = drop n (chunk c))"
proof -
  obtain r2 d2 c2 where s2: "try_decode_string d c = (r2, d2, c2)" by (cases "try_decode_string d c")
  from try_decode_string_moves [OF this] obtain n2 where n2: "n2 \<le> length (chunk c)" "c2 = moved n2 c" "r2 \<noteq> Inl Panic"
    "\<And>m. r2 = Inr m \<Longrightarrow> n2 = sm_offset m + sm_len m" by blast
  have o2: "cursor_ok c2" using cursor_ok_moved [OF o1 n2(1)] n2(2) by simp
  show ?thesis
  proof (cases r2)
    case (Inl e)
    then show ?thesis using assms(2) s2 n2(2,3) o2 by (auto simp: decode_name_value_def)
  next
    case m2: (Inr m2)
    obtain r3 d3 c3 where s3: "try_decode_string d2 c2 = (r3, d3, c3)" by (cases "try_decode_string d2 c2")
    from try_decode_string_moves [OF this] obtain n3 where n3: "n3 \<le> length (chunk c2)" "c3 = moved n3 c2" "r3 \<noteq> Inl Panic"
      "\<And>m. r3 = Inr m \<Longrightarrow> n3 = sm_offset m + sm_len m" by blast
    have o3: "cursor_ok c3" using cursor_ok_moved [OF o2 n3(1)] n3(2) by simp
    show ?thesis
    proof (cases r3)
      case (Inl e)
      then show ?thesis using assms(2) s2 s3 m2 n2(2) n3(2,3) o3 by (auto simp: decode_name_value_def)
    next
      case m3: (Inr m3)
      have bk: "c3\<lparr>cur_pos := cur_pos c\<rparr> = c" using n2(2) n3(2) by (simp add: moved_def)
      from sm_consume_moves [OF o1, of m2] n2(1) n2(4) [OF m2] obtain s c4 where
        c4: "sm_consume m2 c = Some (s, c4)" "cursor_ok c4" "chunk c4 = drop n2 (chunk c)" by auto
      from sm_consume_moves [OF c4(2), of m3] n3(1) n3(4) [OF m3] n2(2) c4(3) obtain v c5 where
        "sm_consume m3 c4 = Some (v, c5)" "cursor_ok c5" "chunk c5 = drop n3 (chunk c4)" by auto
      then show ?thesis using assms(2) s2 s3 m2 m3 bk c4 by (auto simp: decode_name_value_def)
    qed
  qed
qed

lemma decode_literal_moves:
  assumes "cursor_ok c" and "decode_literal L i d c = (r, d', c')"
  shows "(r = Inl Panic \<longrightarrow> (\<exists>k. dt_get k (d_table d) = Inl Panic)) \<and> cursor_ok c' \<and>
    (\<exists>n. chunk c' = drop n (chunk c) \<and> (\<forall>h. r = Inr h \<longrightarrow> 0 < n))"
proof -
  obtain r1 c1 where i: "decode_int (if i then 6 else 4) c = (r1, c1)" by (cases "decode_int (if i then 6 else 4) c")
  from decode_int_moves [OF this] obtain k where k: "k \<le> length (chunk c)" "c1 = moved k c" "\<And>v. r1 = Inr v \<Longrightarrow> 0 < k" by blast
  have o1: "cursor_ok c1" using cursor_ok_moved [OF assms(1) k(1)] k(2) by simp
  show ?thesis
  proof (cases r1)
    case (Inl e)
    then show ?thesis using assms(2) i k o1 by (auto simp: decode_literal_def)
  next
    case idx: (Inr idx)
    have k0: "0 < k" by (rule k(3) [OF idx])
    show ?thesis
    proof (cases "idx = 0")
      case True
      obtain r2 d2 c2 where s: "decode_name_value d c1 = (r2, d2, c2)" by (cases "decode_name_value d c1")
      from decode_name_value_moves [OF o1 s] obtain n where "r2 \<noteq> Inl Panic" "cursor_ok c2" "chunk c2 = drop (n + k) (chunk c)"
        using k(2) by (auto simp: add.commute)
      then show ?thesis using assms(2) i k(2) k0 idx True s
        by (cases r2) (auto simp: decode_literal_def err_def split: sum.splits intro!: exI [of _ "n + k"])
    next
      case False
      show ?thesis
      proof (cases "dt_get idx (d_table d)")
        case (Inl e)
        then show ?thesis using assms(2) i k o1 idx False by (auto simp: decode_literal_def)
      next
        case (Inr h)
        obtain r2 d2 c2 where s: "decode_string d c1 = (r2, d2, c2)" by (cases "decode_string d c1")
        from decode_string_moves [OF o1 s] obtain n where "r2 \<noteq> Inl Panic" "cursor_ok c2" "chunk c2 = drop (n + k) (chunk c)"
          using k(2) by (auto simp: add.commute)
        then show ?thesis using assms(2) i k(2) k0 idx False Inr s
          by (cases r2) (auto simp: decode_literal_def err_def split: sum.splits intro!: exI [of _ "n + k"])
      qed
    qed
  qed
qed

lemma dt_get_no_panic: "dt_get k t \<noteq> Inl Panic"
  by (simp add: dt_get_def get_static_def)

lemma decode_indexed_moves:
  assumes "cursor_ok c" and "decode_indexed d c = (r, c')"
  shows "r \<noteq> Inl Panic \<and> cursor_ok c' \<and> (\<exists>n. chunk c' = drop n (chunk c) \<and> (\<forall>h. r = Inr h \<longrightarrow> 0 < n))"
proof -
  obtain r1 c1 where i: "decode_int 7 c = (r1, c1)" by (cases "decode_int 7 c")
  from decode_int_moves [OF this] obtain k where "k \<le> length (chunk c)" "c1 = moved k c" "\<forall>v. r1 = Inr v \<longrightarrow> 0 < k" by blast
  then show ?thesis
    using assms i dt_get_no_panic by (cases r1) (auto simp: decode_indexed_def cursor_ok_moved)
qed

section \<open>The table computes the specification\<close>

lemma fit_0: "fit 0 hs = []"
proof (cases hs)
  case (Cons h hs)
  then show ?thesis using header_len_ge [of h] by simp
qed simp

definition dt_ok :: "DecTable \<Rightarrow> bool" where
  "dt_ok t \<longleftrightarrow> dt_size t = entries_size (dt_entries t) \<and> dt_size t \<le> dt_max_size t"

lemma dt_pop_back_size:
  "dt_size t = entries_size (dt_entries t) \<Longrightarrow> dt_entries t \<noteq> [] \<Longrightarrow>
     dt_size (dt_pop_back t) = entries_size (dt_entries (dt_pop_back t))"
  by (simp add: dt_pop_back_def entries_size_butlast)

lemma dt_reserve_fit:
  "dt_size t = entries_size (dt_entries t) \<Longrightarrow>
     dt_reserve n t = t\<lparr>dt_entries := fit (dt_max_size t - n) (dt_entries t), dt_size := entries_size (fit (dt_max_size t - n) (dt_entries t))\<rparr>"
proof (induction n t rule: dt_reserve.induct)
  case (1 n t)
  consider "dt_entries t = []" | "dt_size t + n > dt_max_size t" "dt_entries t \<noteq> []" | "dt_size t + n \<le> dt_max_size t" by fastforce
  then show ?case
  proof cases
    case 1
    then show ?thesis using "1.prems" by (simp add: dt_reserve.simps)
  next
    case 2
    have "fit (dt_max_size t - n) (dt_entries t) = fit (dt_max_size t - n) (butlast (dt_entries t))"
    proof (cases "n \<le> dt_max_size t")
      case True
      then show ?thesis using 2 "1.prems" by (intro fit_butlast) simp
    next
      case False
      then show ?thesis by (simp add: fit_0)
    qed
    then show ?thesis
      using "1.IH" [OF 2 dt_pop_back_size [OF "1.prems" 2(2)]] 2
      by (simp add: dt_reserve.simps [of n t]) (simp add: dt_pop_back_def)
  next
    case 3
    then show ?thesis using "1.prems" by (simp add: dt_reserve.simps [of n t] fit_all)
  qed
qed

lemma dt_insert_spec:
  assumes "dt_ok t"
  shows "dt_ok (dt_insert h t)" "dt_entries (dt_insert h t) = spec_insert (dt_max_size t) h (dt_entries t)"
    "dt_max_size (dt_insert h t) = dt_max_size t"
proof -
  have "entries_size (fit (dt_max_size t - header_len h) (dt_entries t)) \<le> dt_max_size t - header_len h" by (rule entries_size_fit)
  then show "dt_ok (dt_insert h t)" "dt_entries (dt_insert h t) = spec_insert (dt_max_size t) h (dt_entries t)"
    "dt_max_size (dt_insert h t) = dt_max_size t"
    using assms by (auto simp: dt_insert_def dt_ok_def dt_reserve_fit spec_insert_def Let_def fit_0)
qed

lemma dt_consolidate_fit:
  "dt_size t = entries_size (dt_entries t) \<Longrightarrow>
     dt_consolidate t = Some (t\<lparr>dt_entries := fit (dt_max_size t) (dt_entries t), dt_size := entries_size (fit (dt_max_size t) (dt_entries t))\<rparr>)"
proof (induction t rule: dt_consolidate.induct)
  case (1 t)
  show ?case
  proof (cases "dt_size t > dt_max_size t")
    case True
    then have "dt_entries t \<noteq> []" using "1.prems" by auto
    then show ?thesis
      using "1.IH" [OF True _ dt_pop_back_size [OF "1.prems"]] True "1.prems" fit_butlast [of "dt_max_size t" "dt_entries t"]
      by (simp add: dt_consolidate.simps [of t]) (simp add: dt_pop_back_def)
  next
    case False
    then show ?thesis using "1.prems" by (simp add: dt_consolidate.simps [of t] fit_all)
  qed
qed

lemma dt_set_max_size_spec:
  assumes "dt_ok t"
  shows "\<exists>t'. dt_set_max_size n t = Some t' \<and> dt_ok t' \<and> dt_entries t' = fit n (dt_entries t) \<and> dt_max_size t' = n"
  using assms entries_size_fit by (simp add: dt_set_max_size_def dt_consolidate_fit dt_ok_def)

section \<open>Header blocks\<close>

lemma try_decode_string_decoder: "try_decode_string d c = (r, d', c') \<Longrightarrow> \<exists>b. d' = d\<lparr>d_buffer := b\<rparr>"
  by (auto simp: try_decode_string_def Let_def split: option.splits prod.splits sum.splits if_splits intro: exI [of _ "d_buffer d"])

lemma decode_string_decoder: "decode_string d c = (r, d', c') \<Longrightarrow> \<exists>b. d' = d\<lparr>d_buffer := b\<rparr>"
  by (auto simp: decode_string_def Let_def split: option.splits prod.splits sum.splits dest!: try_decode_string_decoder)

lemma decode_name_value_decoder: "decode_name_value d c = (r, d', c') \<Longrightarrow> \<exists>b. d' = d\<lparr>d_buffer := b\<rparr>"
  by (auto simp: decode_name_value_def Let_def split: option.splits prod.splits sum.splits dest!: try_decode_string_decoder)

lemma decode_literal_decoder: "decode_literal L i d c = (r, d', c') \<Longrightarrow> \<exists>b. d' = d\<lparr>d_buffer := b\<rparr>"
  by (auto simp: decode_literal_def split: prod.splits sum.splits if_splits
      dest!: decode_name_value_decoder decode_string_decoder intro: exI [of _ "d_buffer d"])

lemma consume_ok: "cursor_ok c \<Longrightarrow> \<exists>c'. consume c = Some c' \<and> cursor_ok c' \<and> chunk c' = chunk c"
  by (auto simp: consume_def cur_take_def cursor_ok_def chunk_def)

lemma process_size_update_moves:
  assumes "cursor_ok c" and "dt_ok (d_table d)" and "process_size_update d c = (r, d', c')"
  shows "r \<noteq> Inl Panic \<and> dt_ok (d_table d') \<and> cursor_ok c' \<and> (\<exists>n. chunk c' = drop n (chunk c) \<and> (\<forall>u. r = Inr u \<longrightarrow> 0 < n))"
proof -
  obtain r1 c1 where i: "decode_int 5 c = (r1, c1)" by (cases "decode_int 5 c")
  from decode_int_moves [OF this] obtain k where k: "k \<le> length (chunk c)" "c1 = moved k c" "\<forall>v. r1 = Inr v \<longrightarrow> 0 < k" by blast
  show ?thesis
  proof (cases r1)
    case (Inr n)
    obtain t where "dt_set_max_size n (d_table d) = Some t" "dt_ok t" using dt_set_max_size_spec [OF assms(2)] by blast
    then show ?thesis using assms i Inr k by (auto simp: process_size_update_def cursor_ok_moved split: if_splits)
  qed (use assms i k in \<open>auto simp: process_size_update_def cursor_ok_moved\<close>)
qed

lemma decode_arm_moves:
  assumes "cursor_ok c" and "dt_ok (d_table d)" and "decode_arm L rep cr d c = (r, d', c')"
  shows "r \<noteq> Inl Panic \<and> dt_ok (d_table d') \<and> cursor_ok c' \<and> (\<exists>n. chunk c' = drop n (chunk c) \<and> (\<forall>x. r = Inr x \<longrightarrow> 0 < n))"
proof -
  have literal: "r \<noteq> Inl Panic \<and> cursor_ok c' \<and> (\<exists>n. chunk c' = drop n (chunk c) \<and> (\<forall>h. r = Inr h \<longrightarrow> 0 < n)) \<and>
      (\<exists>b. d' = d\<lparr>d_buffer := b\<rparr>)" if "decode_literal L i d c = (r, d', c')" for i r d' c'
    using decode_literal_moves [OF assms(1) that] decode_literal_decoder [OF that] dt_get_no_panic by blast
  note moves = literal decode_indexed_moves [OF assms(1)] process_size_update_moves [OF assms(1,2)]
  show ?thesis using assms
    by (cases rep) (auto simp: decode_arm_def map_ok_def dt_insert_spec(1) split: prod.splits sum.splits if_splits
        dest!: moves intro: exI [of _ "0 :: nat"])
qed

text \<open>One turn: it does not panic, keeps the table well formed, and takes at least a byte when it succeeds.\<close>

lemma decode_block_moves:
  assumes "cursor_ok c" and "dt_ok (d_table d)" and "decode_block L ty cr d c = (r, d', c')"
  shows "r \<noteq> Inl Panic \<and> dt_ok (d_table d') \<and> cursor_ok c' \<and> (\<exists>n. chunk c' = drop n (chunk c) \<and> (\<forall>x. r = Inr x \<longrightarrow> 0 < n))"
proof (cases "load ty")
  case (Inr rep)
  obtain r1 d1 c1 where a: "decode_arm L rep cr d c = (r1, d1, c1)" by (cases "decode_arm L rep cr d c")
  from decode_arm_moves [OF assms(1,2) a] consume_ok [of c1] show ?thesis
    using assms(3) Inr a by (cases r1) (auto simp: decode_block_def)
qed (use assms in \<open>auto simp: decode_block_def intro: exI [of _ 0]\<close>)

lemma process_size_update_progress:
  assumes "cursor_ok c" and "process_size_update d c = (Inr u, d', c')"
  shows "cursor_ok c' \<and> (\<exists>n. chunk c' = drop n (chunk c) \<and> 0 < n)"
  using assms by (auto simp: process_size_update_def cursor_ok_moved split: prod.splits sum.splits option.splits if_splits
      dest!: decode_int_moves)

lemma decode_block_progress:
  assumes "decode_block L ty cr d c = (Inr x, d', c')" and "chunk c \<noteq> []"
  shows "length (chunk c') < length (chunk c)"
proof -
  have o: "cursor_ok c" by (rule cursor_ok_chunk [OF assms(2)])
  note moves = decode_literal_moves [OF o] decode_indexed_moves [OF o] process_size_update_progress [OF o]
  obtain rep c1 where a: "decode_arm L rep cr d c = (Inr x, d', c1)" "consume c1 = Some c'"
    using assms(1) by (auto simp: decode_block_def split: sum.splits prod.splits option.splits)
  have "cursor_ok c1 \<and> (\<exists>n. chunk c1 = drop n (chunk c) \<and> 0 < n)"
    using a(1) by (cases rep) (auto simp: decode_arm_def map_ok_def split: prod.splits sum.splits if_splits dest!: moves)
  then show ?thesis using consume_ok [of c1] a(2) assms(2) by (cases "chunk c") auto
qed

text \<open>The loop of \<open>decode\<close>; headers are collected in the order of the calls of the callback.\<close>

function decode_loop ::
    "h2_lib \<Rightarrow> bool \<Rightarrow> Decoder \<Rightarrow> Cursor \<Rightarrow> (DecoderError fault + unit) \<times> Decoder \<times> Cursor \<times> header list" where
  "decode_loop L can_resize d c =
     (case peek_u8 c of
        None \<Rightarrow> (Inr (), d, c, [])
      | Some ty \<Rightarrow>
          (case decode_block L ty can_resize d c of
             (Inl e, d, c) \<Rightarrow> (Inl e, d, c, [])
           | (Inr (hs, can_resize), d, c) \<Rightarrow>
               (case decode_loop L can_resize d c of (r, d, c, hs') \<Rightarrow> (r, d, c, hs @ hs'))))"
  by pat_completeness auto
termination
  by (relation "measure (\<lambda>(_, _, _, c). length (chunk c))") (auto simp: peek_u8_def split: if_splits intro: decode_block_progress [OF sym])

declare decode_loop.simps [simp del]

definition hpack_decode :: "h2_lib \<Rightarrow> Decoder \<Rightarrow> Cursor \<Rightarrow> (DecoderError fault + unit) \<times> Decoder \<times> Cursor \<times> header list" where
  "hpack_decode L d c =
     (let d = (case d_max_size_update d of Some n \<Rightarrow> d\<lparr>d_max_size_update := None, d_last_max_update := n\<rparr> | None \<Rightarrow> d) in
      decode_loop L True d c)"

section \<open>Reading what was written\<close>

lemma encode_int_head: "\<exists>k xs. encode_int v p f [] = (f OR word_of_nat k) # xs \<and> k < 2 ^ p"
proof (cases "v < 2 ^ p - 1")
  case True
  then show ?thesis by (auto simp: encode_int_def encode_int_one_byte_def push_bit_of_1)
next
  case False
  define low where "low = (2 :: nat) ^ p - 1"
  have "encode_int v p f [] = (f OR word_of_nat low) # encode_int_loop (v - low) []"
    using False by (simp add: encode_int_def encode_int_one_byte_def push_bit_of_1 low_def Let_def encode_int_loop_append [of _ "[_]"])
  moreover have "low < 2 ^ p" by (simp add: low_def)
  ultimately show ?thesis by blast
qed

lemma head_bits:
  fixes f m :: u8
  assumes "k < 2 ^ p" and "p < 8" and "m AND mask p = 0"
  shows "(f OR word_of_nat k) AND m = f AND m"
proof -
  have "word_of_nat k AND m = 0"
  proof (rule bit_word_eqI)
    fix n assume n: "n < LENGTH(8)"
    have "bit (word_of_nat k :: u8) n \<Longrightarrow> n < p" using bit_small [OF assms(1)] by (simp add: bit_word_of_nat)
    moreover have "\<not> bit (m AND mask p) n" using assms(3) by simp
    then have "\<not> (bit m n \<and> n < p)" using n by (auto simp: bit_and_iff bit_mask_iff)
    ultimately show "bit (word_of_nat k AND m) n = bit (0 :: u8) n" by (auto simp: bit_and_iff)
  qed
  then show ?thesis by (simp add: bit.conj_disj_distrib2)
qed

definition str_fits :: "bytes \<Rightarrow> bool" where
  "str_fits val \<longleftrightarrow> length (huff_encode val []) < 2 ^ 7 - 1 + 2 ^ 28"

text \<open>What \<open>try_decode_string\<close> reports of an encoded string.\<close>

definition str_marker :: "bytes \<Rightarrow> StringMarker" where
  "str_marker val =
     (if val = [] then \<lparr>sm_offset = 1, sm_len = 0, sm_string = None\<rparr>
      else \<lparr>sm_offset = length (encode_int (length (huff_encode val [])) 7 0x80 []), sm_len = length (huff_encode val []),
        sm_string = Some val\<rparr>)"

lemma str_bytes_marker:
  assumes "chunk c = str_bytes val @ rest" and "str_fits val" and "d_buffer d = []"
  shows "try_decode_string d c =
(Inr (str_marker val), d, moved (length (str_bytes val)) c)"
proof (cases "val = []")
  case True
  then have c: "chunk c = 0 # rest" using assms(1) by (simp add: str_bytes_def)
  have "decode_int 7 c = (Inr 0, moved 1 c)"
    using get_u8_chunk [OF c] c by (simp add: decode_int_def Let_def)
  then show ?thesis using True c
    by (simp add: try_decode_string_def peek_u8_def Let_def advance_chunk remaining_chunk str_bytes_def str_marker_def)
next
  case False
  let ?h = "huff_encode val []" and ?n = "encode_int (length (huff_encode val [])) 7 0x80 []"
  have s: "str_bytes val = ?n @ ?h" using False by (simp add: str_bytes_def)
  have "chunk c = ?n @ (?h @ rest)" using assms(1) s by simp
  from decode_int_encoded [OF this] assms(2)
  have i: "decode_int 7 c = (Inr (length ?h), moved (length ?n) c)" by (simp add: str_fits_def mask_eq_exp_minus_1)
  obtain k xs where h: "?n = (0x80 OR word_of_nat k) # xs" "k < 2 ^ 7" using encode_int_head by blast
  have "(0x80 OR word_of_nat k) AND 0x80 = (0x80 :: u8)"
    using head_bits [OF h(2), of "0x80" "0x80"] by (simp add: mask_eq_exp_minus_1)
  moreover have "peek_u8 c = Some (0x80 OR word_of_nat k)" using assms(1) s h(1) by (simp add: peek_u8_def)
  moreover have "chunk (moved (length ?n) c) = ?h @ rest" using assms(1) s by simp
  ultimately show ?thesis
    using False assms(3) s
    by (simp add: try_decode_string_def i Let_def advance_chunk remaining_chunk huff_encode_decode str_marker_def)
qed

lemma str_bytes_consume:
  assumes "cursor_ok c" and "chunk c = str_bytes val @ rest"
  shows "\<exists>c'. sm_consume (str_marker val) c =
    Some (val, c') \<and> cursor_ok c' \<and> chunk c' = rest"
proof -
  let ?m = "str_marker val"
  have l: "sm_offset ?m + sm_len ?m = length (str_bytes val)" by (simp add: str_bytes_def str_marker_def)
  then obtain s c' where c': "sm_consume ?m c = Some (s, c')" "cursor_ok c'" "chunk c' = rest"
    using sm_consume_moves [OF assms(1), of ?m] assms(2) by auto
  moreover have "s = val" using c'(1) by (auto simp: sm_consume_def cur_take_def str_marker_def split: option.splits if_splits)
  ultimately show ?thesis by auto
qed

lemma decode_string_bytes:
  assumes "cursor_ok c" and "chunk c = str_bytes val @ rest" and "str_fits val" and "d_buffer d = []"
  shows "\<exists>c'. decode_string d c = (Inr val, d, c') \<and> cursor_ok c' \<and> chunk c' = rest"
  using str_bytes_marker [OF assms(2-4)] str_bytes_consume [OF assms(1,2)] by (auto simp: decode_string_def Let_def)

lemma decode_name_value_bytes:
  assumes "cursor_ok c" and "chunk c = str_bytes n @ str_bytes v @ rest" and "str_fits n" and "str_fits v" and "d_buffer d = []"
  shows "\<exists>c'. decode_name_value d c = (Inr (n, v), d, c') \<and> cursor_ok c' \<and> chunk c' = rest"
proof -
  have c1: "chunk (moved (length (str_bytes n)) c) = str_bytes v @ rest" using assms(2) by simp
  obtain c2 where c2: "sm_consume (str_marker n) c =
    Some (n, c2)" "cursor_ok c2" "chunk c2 = str_bytes v @ rest"
    using str_bytes_consume [OF assms(1,2)] by blast
  show ?thesis
    using str_bytes_marker [OF assms(2,3,5)] str_bytes_marker [OF c1 assms(4,5)] c2(1) str_bytes_consume [OF c2(2,3)]
    by (auto simp: decode_name_value_def Let_def)
qed

definition cur_of :: "bytes \<Rightarrow> Cursor" where
  "cur_of bs = \<lparr>cur_buf = bs, cur_pos = 0\<rparr>"

lemma cur_of_simps [simp]: "chunk (cur_of bs) = bs" "cursor_ok (cur_of bs)" "cur_buf (cur_of bs) = bs"
  by (simp_all add: cur_of_def chunk_def cursor_ok_def)

lemma consume_cur_of: "cursor_ok c \<Longrightarrow> consume c = Some (cur_of (chunk c))"
  by (simp add: consume_def cur_take_def cursor_ok_def chunk_def cur_of_def)

lemma load_head:
  "k < 2 ^ 7 \<Longrightarrow> load (0x80 OR word_of_nat k) = Inr Indexed_Field"
  "k < 2 ^ 6 \<Longrightarrow> load (0x40 OR word_of_nat k) = Inr LiteralWithIndexing"
  "k < 2 ^ 4 \<Longrightarrow> load (0 OR word_of_nat k) = Inr LiteralWithoutIndexing"
  "k < 2 ^ 4 \<Longrightarrow> load (0x10 OR word_of_nat k) = Inr LiteralNeverIndexed"
  "k < 2 ^ 5 \<Longrightarrow> load (0x20 OR word_of_nat k) = Inr Size_Update"
proof -
  have m: "mask 7 = (0x7F :: u8)" "mask 6 = (0x3F :: u8)" "mask 5 = (0x1F :: u8)" "mask 4 = (0xF :: u8)"
    by (simp_all add: mask_eq_exp_minus_1)
  note h = head_bits [of k _ "0x80"] head_bits [of k _ "0x40"] head_bits [of k _ "0xF0"] head_bits [of k _ "0xE0"]
  show "k < 2 ^ 7 \<Longrightarrow> load (0x80 OR word_of_nat k) = Inr Indexed_Field"
    using h(1) [of 7 "0x80"] by (simp add: load_def m)
  show "k < 2 ^ 6 \<Longrightarrow> load (0x40 OR word_of_nat k) = Inr LiteralWithIndexing"
    using h(1) [of 6 "0x40"] h(2) [of 6 "0x40"] by (simp add: load_def m)
  show "k < 2 ^ 4 \<Longrightarrow> load (0 OR word_of_nat k) = Inr LiteralWithoutIndexing"
    using h(1) [of 4 0] h(2) [of 4 0] h(3) [of 4 0] by (simp add: load_def m)
  show "k < 2 ^ 4 \<Longrightarrow> load (0x10 OR word_of_nat k) = Inr LiteralNeverIndexed"
    using h(1) [of 4 "0x10"] h(2) [of 4 "0x10"] h(3) [of 4 "0x10"] by (simp add: load_def m)
  show "k < 2 ^ 5 \<Longrightarrow> load (0x20 OR word_of_nat k) = Inr Size_Update"
  proof -
    assume k: "k < 2 ^ 5"
    let ?x = "0x20 OR word_of_nat k :: u8"
    have e: "?x AND 0xE0 = 0x20" using h(4) [of 5 "0x20"] k by (simp add: m)
    moreover have "(?x AND 0xF0) AND 0xE0 = ?x AND 0xE0" by (simp only: and.assoc) simp
    ultimately have "?x AND 0xF0 \<noteq> 0" "?x AND 0xF0 \<noteq> 0x10" by (auto simp del: bit.conj_disj_distrib2)
    then show ?thesis using k e h(1) [of 5 "0x20"] h(2) [of 5 "0x20"] by (simp add: load_def m)
  qed
qed

text \<open>Each kind of block as the encoder writes it.\<close>

lemma decode_block_arm:
  assumes "load ty = Inr rep" and "decode_arm L rep cr d c = (Inr x, d', c')" and "cursor_ok c'"
  shows "decode_block L ty cr d c = (Inr x, d', cur_of (chunk c'))"
  using assms by (simp add: decode_block_def consume_cur_of)

lemma decode_loop_block:
  assumes "peek_u8 c = Some ty" and "decode_block L ty cr d c = (Inr (hs, cr'), d', c')"
  shows "decode_loop L cr d c = (case decode_loop L cr' d' c' of (r, d, c, hs') \<Rightarrow> (r, d, c, hs @ hs'))"
  using assms by (simp add: decode_loop.simps [of L cr d c])

lemma loop_indexed:
  assumes "idx < 2 ^ 28" and "dt_get idx (d_table d) = Inr h"
  shows "decode_loop L cr d (cur_of (encode_int idx 7 0x80 [] @ rest)) =
    (case decode_loop L False d (cur_of rest) of (r, d, c, hs) \<Rightarrow> (r, d, c, h # hs))"
proof -
  let ?c = "cur_of (encode_int idx 7 0x80 [] @ rest)"
  have "chunk ?c = encode_int idx 7 0x80 [] @ rest" by simp
  from decode_int_encoded [OF this] assms(1)
  have i: "decode_int 7 ?c = (Inr idx, moved (length (encode_int idx 7 0x80 [])) ?c)" by (simp add: mask_eq_exp_minus_1)
  obtain k xs where h: "encode_int idx 7 0x80 [] = (0x80 OR word_of_nat k) # xs" "k < 2 ^ 7" using encode_int_head by blast
  have "peek_u8 ?c = Some (0x80 OR word_of_nat k)" by (simp add: peek_u8_def h(1))
  moreover have "decode_arm L Indexed_Field cr d ?c = (Inr ([h], False), d, moved (length (encode_int idx 7 0x80 [])) ?c)"
    using assms(2) by (simp add: decode_arm_def decode_indexed_def i map_ok_def)
  then have "decode_block L (0x80 OR word_of_nat k) cr d ?c = (Inr ([h], False), d, cur_of rest)"
    using decode_block_arm [OF load_head(1) [OF h(2)]] by (simp add: cursor_ok_moved)
  ultimately show ?thesis using decode_loop_block by fastforce
qed

lemma literal_named:
  assumes "chunk c = encode_int idx p f [] @ str_bytes v @ rest" and "p = (if i then 6 else 4)" and "f AND mask p = 0"
    and "0 < idx" and "idx < 2 ^ 28" and "dt_get idx (d_table d) = Inr s" and "into_entry L (name s) v = Inr h"
    and "str_fits v" and "d_buffer d = []"
  shows "\<exists>c'. decode_literal L i d c = (Inr h, d, c') \<and> cursor_ok c' \<and> chunk c' = rest"
proof -
  have "decode_int p c = (Inr idx, moved (length (encode_int idx p f [])) c)"
    using decode_int_encoded [OF assms(1)] assms(2,3,5) by (auto split: if_splits)
  moreover have ok: "cursor_ok c" using assms(1) by (intro cursor_ok_chunk) simp
  then have "cursor_ok (moved (length (encode_int idx p f [])) c)" using assms(1) by (intro cursor_ok_moved) simp_all
  then obtain c' where "decode_string d (moved (length (encode_int idx p f [])) c) = (Inr v, d, c')" "cursor_ok c'" "chunk c' = rest"
    using decode_string_bytes [OF _ _ assms(8,9), of "moved (length (encode_int idx p f [])) c" rest] assms(1) by auto
  ultimately show ?thesis using assms(2,4,6,7) by (auto simp: decode_literal_def err_def split: if_splits)
qed

lemma literal_new:
  assumes "chunk c = f # str_bytes n @ str_bytes v @ rest" and "p = (if i then 6 else 4)" and "f AND mask p = 0"
    and "header_new L n v = Inr h" and "str_fits n" and "str_fits v" and "d_buffer d = []"
  shows "\<exists>c'. decode_literal L i d c = (Inr h, d, c') \<and> cursor_ok c' \<and> chunk c' = rest"
proof -
  have e: "encode_int 0 p f [] = [f]" using assms(2) by (simp add: encode_int_def encode_int_one_byte_def)
  have "decode_int p c = (Inr 0, moved 1 c)"
    using decode_int_encoded [of c 0 p f "str_bytes n @ str_bytes v @ rest", unfolded e] assms(1-3) by (simp split: if_splits)
  moreover have "cursor_ok (moved 1 c)" using assms(1) by (intro cursor_ok_moved cursor_ok_chunk) simp_all
  then obtain c' where "decode_name_value d (moved 1 c) = (Inr (n, v), d, c')" "cursor_ok c'" "chunk c' = rest"
    using decode_name_value_bytes [OF _ _ assms(5-7), of "moved 1 c" rest] assms(1) by auto
  ultimately show ?thesis using assms(2,4) by (auto simp: decode_literal_def err_def split: if_splits)
qed

text \<open>The bytes of a literal, with an indexed name or with a new one (index 0).\<close>

lemma loop_literal:
  assumes "\<And>c. chunk c = (f OR word_of_nat k) # xs @ rest \<Longrightarrow> \<exists>c'. decode_literal L i d c = (Inr h, d, c') \<and> cursor_ok c' \<and> chunk c' = rest"
    and "f = 0x40 \<and> i \<and> k < 2 ^ 6 \<or> (f = 0 \<or> f = 0x10) \<and> \<not> i \<and> k < 2 ^ 4"
  shows "decode_loop L cr d (cur_of ((f OR word_of_nat k) # xs @ rest)) =
    (case decode_loop L False (if i then d\<lparr>d_table := dt_insert h (d_table d)\<rparr> else d) (cur_of rest) of (r, d, c, hs) \<Rightarrow> (r, d, c, h # hs))"
proof -
  let ?c = "cur_of ((f OR word_of_nat k) # xs @ rest)" and ?d = "if i then d\<lparr>d_table := dt_insert h (d_table d)\<rparr> else d"
  obtain c' where c': "decode_literal L i d ?c = (Inr h, d, c')" "cursor_ok c'" "chunk c' = rest" using assms(1) [of ?c] by auto
  obtain rep where "load (f OR word_of_nat k) = Inr rep" "decode_arm L rep cr d ?c = (Inr ([h], False), ?d, c')"
    using assms(2)
  proof (elim disjE conjE)
    assume "f = 0x40" "i" "k < 2 ^ 6"
    then show thesis using that load_head(2) [of k] c' by (simp add: decode_arm_def)
  next
    assume "f = 0" "\<not> i" "k < 2 ^ 4"
    then show thesis using that load_head(3) [of k] c' by (simp add: decode_arm_def map_ok_def)
  next
    assume "f = 0x10" "\<not> i" "k < 2 ^ 4"
    then show thesis using that load_head(4) [of k] c' by (simp add: decode_arm_def map_ok_def)
  qed
  then have "decode_block L (f OR word_of_nat k) cr d ?c = (Inr ([h], False), ?d, cur_of rest)"
    using decode_block_arm c'(2,3) by metis
  moreover have "peek_u8 ?c = Some (f OR word_of_nat k)" by (simp add: peek_u8_def)
  ultimately show ?thesis using decode_loop_block by fastforce
qed

lemma loop_named:
  assumes "f = 0x40 \<and> i \<or> (f = 0 \<or> f = 0x10) \<and> \<not> i" and "0 < idx" and "idx < 2 ^ 28"
    and "dt_get idx (d_table d) = Inr s" and "into_entry L (name s) v = Inr h" and "str_fits v" and "d_buffer d = []"
  shows "decode_loop L cr d (cur_of (encode_int idx (if i then 6 else 4) f [] @ str_bytes v @ rest)) =
    (case decode_loop L False (if i then d\<lparr>d_table := dt_insert h (d_table d)\<rparr> else d) (cur_of rest) of (r, d, c, hs) \<Rightarrow> (r, d, c, h # hs))"
proof -
  obtain k xs where h: "encode_int idx (if i then 6 else 4) f [] = (f OR word_of_nat k) # xs" "k < 2 ^ (if i then 6 else 4)"
    using encode_int_head by blast
  have m: "f AND mask (if i then 6 else 4) = 0" using assms(1) by (auto simp: mask_eq_exp_minus_1)
  have "decode_loop L cr d (cur_of ((f OR word_of_nat k) # (xs @ str_bytes v) @ rest)) =
    (case decode_loop L False (if i then d\<lparr>d_table := dt_insert h (d_table d)\<rparr> else d) (cur_of rest) of (r, d, c, hs) \<Rightarrow> (r, d, c, h # hs))"
    by (rule loop_literal, rule literal_named [OF _ refl m assms(2-7)])
      (use h assms(1) in \<open>auto split: if_splits\<close>)
  then show ?thesis by (simp add: h(1))
qed

lemma loop_new:
  assumes "f = 0x40 \<and> i \<or> (f = 0 \<or> f = 0x10) \<and> \<not> i" and "header_new L n v = Inr h" and "str_fits n" and "str_fits v"
    and "d_buffer d = []"
  shows "decode_loop L cr d (cur_of (f # str_bytes n @ str_bytes v @ rest)) =
    (case decode_loop L False (if i then d\<lparr>d_table := dt_insert h (d_table d)\<rparr> else d) (cur_of rest) of (r, d, c, hs) \<Rightarrow> (r, d, c, h # hs))"
proof -
  have m: "f AND mask (if i then 6 else 4) = 0" using assms(1) by (auto simp: mask_eq_exp_minus_1)
  have "decode_loop L cr d (cur_of ((f OR word_of_nat 0) # (str_bytes n @ str_bytes v) @ rest)) =
    (case decode_loop L False (if i then d\<lparr>d_table := dt_insert h (d_table d)\<rparr> else d) (cur_of rest) of (r, d, c, hs) \<Rightarrow> (r, d, c, h # hs))"
    by (rule loop_literal, rule literal_new [OF _ refl m assms(2-5)]) (use assms(1) in auto)
  then show ?thesis by simp
qed

lemma loop_size_update:
  assumes "n < 2 ^ 28" and "n \<le> d_last_max_update d" and "dt_set_max_size n (d_table d) = Some t"
  shows "decode_loop L True d (cur_of (encode_int n 5 0x20 [] @ rest)) = decode_loop L True (d\<lparr>d_table := t\<rparr>) (cur_of rest)"
proof -
  let ?c = "cur_of (encode_int n 5 0x20 [] @ rest)"
  have "chunk ?c = encode_int n 5 0x20 [] @ rest" by simp
  from decode_int_encoded [OF this] assms(1)
  have i: "decode_int 5 ?c = (Inr n, moved (length (encode_int n 5 0x20 [])) ?c)" by (simp add: mask_eq_exp_minus_1)
  obtain k xs where h: "encode_int n 5 0x20 [] = (0x20 OR word_of_nat k) # xs" "k < 2 ^ 5" using encode_int_head by blast
  have "peek_u8 ?c = Some (0x20 OR word_of_nat k)" by (simp add: peek_u8_def h(1))
  moreover have "decode_arm L Size_Update True d ?c = (Inr ([], True), d\<lparr>d_table := t\<rparr>, moved (length (encode_int n 5 0x20 [])) ?c)"
    using assms(2,3) by (simp add: decode_arm_def process_size_update_def i map_ok_def)
  then have "decode_block L (0x20 OR word_of_nat k) True d ?c = (Inr ([], True), d\<lparr>d_table := t\<rparr>, cur_of rest)"
    using decode_block_arm [OF load_head(5) [OF h(2)]] by (simp add: cursor_ok_moved)
  ultimately show ?thesis using decode_loop_block by fastforce
qed

section \<open>Properties\<close>

lemma decode_block_limit:
  assumes "decode_block L ty cr d c = (r, d', c')" and "dt_ok (d_table d)"
  shows "d_last_max_update d' = d_last_max_update d \<and>
    (dt_max_size (d_table d') = dt_max_size (d_table d) \<or> dt_max_size (d_table d') \<le> d_last_max_update d)"
proof -
  have p: "d_last_max_update d1 = d_last_max_update d \<and> (dt_max_size (d_table d1) = dt_max_size (d_table d) \<or>
      dt_max_size (d_table d1) \<le> d_last_max_update d)" if "process_size_update d c = (r, d1, c1)" for r d1 c1
  proof -
    have mx: "dt_max_size t = n" if "dt_set_max_size n (d_table d) = Some t" for n t
      using that dt_set_max_size_spec [OF assms(2), of n] by auto
    obtain r0 c0 where "decode_int 5 c = (r0, c0)" by (cases "decode_int 5 c")
    then show ?thesis using that mx
      by (cases r0) (auto simp: process_size_update_def split: option.splits if_splits)
  qed
  have "d_last_max_update d1 = d_last_max_update d \<and> (dt_max_size (d_table d1) = dt_max_size (d_table d) \<or>
      dt_max_size (d_table d1) \<le> d_last_max_update d)" if "decode_arm L rep cr d c = (r, d1, c1)" for rep r d1 c1
    using that assms(2)
    by (cases rep) (auto simp: decode_arm_def dt_insert_spec(3) split: prod.splits sum.splits if_splits
        dest!: decode_literal_decoder p)
  then show ?thesis using assms(1)
    by (fastforce simp: decode_block_def split: sum.splits prod.splits option.splits)
qed

lemma decode_loop_safe:
  "cursor_ok c \<Longrightarrow> dt_ok (d_table d) \<Longrightarrow> dt_max_size (d_table d) \<le> m \<Longrightarrow> d_last_max_update d \<le> m \<Longrightarrow>
     decode_loop L cr d c = (r, d', c', hs) \<Longrightarrow>
     r \<noteq> Inl Panic \<and> dt_ok (d_table d') \<and> dt_max_size (d_table d') \<le> m \<and> (\<exists>n. chunk c' = drop n (chunk c))"
proof (induction L cr d c arbitrary: hs rule: decode_loop.induct)
  case (1 L cr d c)
  show ?case
  proof (cases "peek_u8 c")
    case None
    then show ?thesis using "1.prems" by (auto simp: decode_loop.simps [of L cr d c] intro: exI [of _ 0])
  next
    case (Some ty)
    obtain r1 d1 c1 where b: "decode_block L ty cr d c = (r1, d1, c1)" by (cases "decode_block L ty cr d c")
    note mv = decode_block_moves [OF "1.prems"(1,2) b] and li = decode_block_limit [OF b "1.prems"(2)]
    have m: "dt_max_size (d_table d1) \<le> m" "d_last_max_update d1 \<le> m" using li "1.prems"(3,4) by auto
    show ?thesis
    proof (cases r1)
      case (Inl e)
      then show ?thesis using "1.prems" Some b mv m by (auto simp: decode_loop.simps [of L cr d c])
    next
      case (Inr x)
      obtain hs0 cr' where x: "x = (hs0, cr')" by (cases x)
      obtain hs' where "decode_loop L cr' d1 c1 = (r, d', c', hs')"
        using "1.prems"(5) Some b Inr x by (auto simp: decode_loop.simps [of L cr d c] split: prod.splits)
      from "1.IH" [OF Some b [symmetric] Inr x [symmetric] refl _ _ m this] mv show ?thesis by (auto simp: drop_drop)
    qed
  qed
qed

text \<open>
  C9: The header decoder is safe on every input: it does not panic, the size it records for its dynamic table stays
  the sum of the sizes of the entries and within the limit, the limit never exceeds what the own settings allow, and
  what it leaves unread is the end of its input.
\<close>

theorem hpack_decoder_safe:
  assumes "dt_ok (d_table d)" and "cursor_ok c" and "hpack_decode L d c = (r, d', c', hs)"
    and "dt_max_size (d_table d) \<le> m" and "(case d_max_size_update d of Some n \<Rightarrow> n | None \<Rightarrow> d_last_max_update d) \<le> m"
  shows "r \<noteq> Inl Panic \<and> dt_size (d_table d') = entries_size (dt_entries (d_table d')) \<and> dt_size (d_table d') \<le> dt_max_size (d_table d') \<and>
    dt_max_size (d_table d') \<le> m \<and> (\<exists>n. chunk c' = drop n (chunk c))"
proof -
  define d0 where "d0 = (case d_max_size_update d of Some n \<Rightarrow> d\<lparr>d_max_size_update := None, d_last_max_update := n\<rparr> | None \<Rightarrow> d)"
  have "dt_ok (d_table d0)" "dt_max_size (d_table d0) \<le> m" "d_last_max_update d0 \<le> m"
    using assms(1,4,5) by (auto simp: d0_def split: option.splits)
  moreover have "decode_loop L True d0 c = (r, d', c', hs)" using assms(3) by (simp add: hpack_decode_def d0_def)
  ultimately show ?thesis using decode_loop_safe [OF assms(2)] unfolding dt_ok_def by blast
qed

text \<open>A library of conversions that accepts everything, for the witnesses.\<close>

definition plain_h2 :: h2_lib where
  "plain_h2 = \<lparr>hn_from_lowercase = Some, hv_from_bytes = (\<lambda>b. Some \<lparr>hv_bytes = b, hv_sensitive = False\<rparr>),
     method_from_bytes = Some, status_from_bytes = (\<lambda>_. None), status_as_str = (\<lambda>_. [0, 0, 0])\<rparr>"

theorem hpack_decoder_safe_witness:
  "case hpack_decode plain_h2 (decoder_new 64) (cur_of [0x40, 1, 0x61, 1, 0x62, 0xBE, 0x3F, 0xFF]) of (r, d, c, hs) \<Rightarrow>
     r \<noteq> Inl Panic \<and> dt_size (d_table d) = entries_size (dt_entries (d_table d)) \<and> dt_size (d_table d) \<le> dt_max_size (d_table d) \<and>
     dt_max_size (d_table d) \<le> 64 \<and> (\<exists>n. chunk c = drop n [0x40, 1, 0x61, 1, 0x62, 0xBE, 0x3F, 0xFF])"
proof -
  obtain r d c hs where e: "hpack_decode plain_h2 (decoder_new 64) (cur_of [0x40, 1, 0x61, 1, 0x62, 0xBE, 0x3F, 0xFF]) = (r, d, c, hs)"
    by (cases "hpack_decode plain_h2 (decoder_new 64) (cur_of [0x40, 1, 0x61, 1, 0x62, 0xBE, 0x3F, 0xFF])")
  have "dt_ok (d_table (decoder_new 64))" "dt_max_size (d_table (decoder_new 64)) \<le> 64"
    "(case d_max_size_update (decoder_new 64) of Some n \<Rightarrow> n | None \<Rightarrow> d_last_max_update (decoder_new 64)) \<le> 64"
    by (simp_all add: decoder_new_def dt_new_def dt_ok_def)
  from hpack_decoder_safe [OF this(1) _ e this(2,3)] show ?thesis unfolding e by simp
qed

end
