(* ===== verification/Hpack_Resume.thy ===== *)
theory Hpack_Resume
  imports Hpack_Decoder
begin

text \<open>
  A header block may arrive in pieces (a HEADERS frame and CONTINUATION frames): \<open>decode\<close> then stops with
  \<open>NeedMore\<close>, keeps the bytes of the incomplete field, and is called again with more. The lemmas follow each reader of
  \<open>decoder.rs\<close> through such a cut.
\<close>

section \<open>More input\<close>

definition extended :: "bytes \<Rightarrow> Cursor \<Rightarrow> Cursor" where
  "extended m c = c\<lparr>cur_buf := cur_buf c @ m\<rparr>"

lemma extended_simps [simp]:
  "cur_pos (extended m c) = cur_pos c" "cur_buf (extended m c) = cur_buf c @ m"
  "(extended m c)\<lparr>cur_pos := n\<rparr> = extended m (c\<lparr>cur_pos := n\<rparr>)" "moved n (extended m c) = extended m (moved n c)"
  by (simp_all add: extended_def moved_def)

lemma chunk_extended: "cursor_ok c \<Longrightarrow> chunk (extended m c) = chunk c @ m"
  by (simp add: chunk_def cursor_ok_def)

lemma extended_cur_of: "extended m (cur_of a) = cur_of (a @ m)"
  by (simp add: extended_def cur_of_def)

lemma decode_int_loop_extended:
  "cursor_ok c \<Longrightarrow> decode_int_loop ret bytes shift c = (r, c') \<Longrightarrow> r \<noteq> Inl (NeedMore IntegerUnderflow) \<Longrightarrow>
     decode_int_loop ret bytes shift (extended m c) = (r, extended m c')"
proof (induction ret bytes shift c rule: decode_int_loop.induct)
  case (1 ret bytes shift c)
  show ?case
  proof (cases "chunk c")
    case Nil
    then show ?thesis using "1.prems" by (simp add: decode_int_loop.simps [of ret])
  next
    case (Cons b bs)
    have g: "get_u8 c = (b, moved 1 c)" by (rule get_u8_chunk [OF Cons])
    have g': "get_u8 (extended m c) = (b, extended m (moved 1 c))"
      using get_u8_chunk [of "extended m c" b "bs @ m"] Cons "1.prems"(1) by (simp add: chunk_extended)
    have ok: "cursor_ok (moved 1 c)" using "1.prems"(1) Cons by (intro cursor_ok_moved) simp_all
    note IH = "1.IH" [OF _ g [symmetric] refl refl refl refl]
    show ?thesis using "1.prems" Cons g g' ok IH
      by (auto simp: decode_int_loop.simps [of ret] chunk_extended Let_def split: if_splits)
  qed
qed

lemma decode_int_extended:
  assumes "cursor_ok c" and "decode_int p c = (r, c')" and "r \<noteq> Inl (NeedMore IntegerUnderflow)"
  shows "decode_int p (extended m c) = (r, extended m c')"
proof (cases "chunk c")
  case Nil
  then show ?thesis using assms by (auto simp: decode_int_def split: if_splits)
next
  case (Cons b bs)
  have g: "get_u8 c = (b, moved 1 c)" by (rule get_u8_chunk [OF Cons])
  have g': "get_u8 (extended m c) = (b, extended m (moved 1 c))"
    using get_u8_chunk [of "extended m c" b "bs @ m"] Cons assms(1) by (simp add: chunk_extended)
  have ok: "cursor_ok (moved 1 c)" using assms(1) Cons by (intro cursor_ok_moved) simp_all
  show ?thesis using assms Cons g g' decode_int_loop_extended [OF ok, of _ _ _ r c' m]
    by (auto simp: decode_int_def chunk_extended Let_def split: if_splits)
qed

lemma decode_int_need_more:
  "decode_int p c = (Inl (NeedMore x), c') \<Longrightarrow> x = IntegerUnderflow"
proof -
  have "decode_int_loop ret bytes shift c = (Inl (NeedMore x), c') \<Longrightarrow> x = IntegerUnderflow" for ret bytes shift c
    by (induction ret bytes shift c rule: decode_int_loop.induct)
      (subst (asm) decode_int_loop.simps, auto simp: Let_def split: if_splits prod.splits)
  then show "decode_int p c = (Inl (NeedMore x), c') \<Longrightarrow> x = IntegerUnderflow"
    by (auto simp: decode_int_def Let_def split: if_splits prod.splits)
qed

text \<open>A reader either does the same on more input, or waits for it and has changed nothing.\<close>

definition waits :: "DecoderError fault + 'a \<Rightarrow> bool" where
  "waits r \<longleftrightarrow> (\<exists>x. r = Inl (Err (NeedMore x)))"

lemma waits_simps [simp]: "waits (Inl (Err (NeedMore x)))" "\<not> waits (Inr y)" "\<not> waits (Inl Panic)"
  by (simp_all add: waits_def)

lemma advance_extended:
  "cursor_ok c \<Longrightarrow> advance n c = Some c' \<Longrightarrow> advance n (extended m c) = Some (extended m c') \<and> cursor_ok c'"
  by (auto simp: advance_chunk chunk_extended cursor_ok_moved split: if_splits)

lemma cur_take_extended: "cur_take n c = Some (s, c') \<Longrightarrow> cur_take n (extended m c) = Some (s, extended m c')"
  by (auto simp: cur_take_def extended_def split: if_splits)

lemma sm_consume_extended:
  assumes "cursor_ok c" and "sm_consume mk c = Some (s, c')"
  shows "sm_consume mk (extended m c) = Some (s, extended m c')"
proof -
  obtain c1 where c1: "advance (sm_offset mk) c = Some c1" using assms(2) by (auto simp: sm_consume_def split: option.splits)
  note e1 = advance_extended [OF assms(1) c1, of m]
  show ?thesis
  proof (cases "sm_string mk")
    case None
    then show ?thesis using assms(2) c1 e1 cur_take_extended [of "sm_len mk" c1 s c' m] by (simp add: sm_consume_def)
  next
    case (Some x)
    then obtain c2 where "advance (sm_len mk) c1 = Some c2" "s = x" "c' = c2" using assms(2) c1 by (auto simp: sm_consume_def)
    then show ?thesis using Some e1 advance_extended [of c1 "sm_len mk" c2 m] by (simp add: sm_consume_def)
  qed
qed

lemma try_decode_string_buffer:
  "try_decode_string d c = (Inr mk, d', c') \<Longrightarrow> d_buffer d = [] \<Longrightarrow> d' = d"
  by (auto simp: try_decode_string_def Let_def huff_decode_def split: option.splits prod.splits sum.splits if_splits)

lemma try_decode_string_extended:
  assumes "cursor_ok c" and "try_decode_string d c = (r, d', c')"
  shows "try_decode_string d (extended m c) = (r, d', extended m c') \<or> waits r \<and> d' = d \<and> cur_buf c' = cur_buf c"
proof (cases "chunk c")
  case Nil
  then show ?thesis using assms(2) by (intro disjI2) (auto simp: try_decode_string_def peek_u8_def)
next
  case (Cons b bs)
  obtain r1 c1 where i: "decode_int 7 c = (r1, c1)" by (cases "decode_int 7 c")
  obtain k where k: "k \<le> length (chunk c)" "c1 = moved k c" using decode_int_moves [OF i] by blast
  have p: "peek_u8 c = Some b" "peek_u8 (extended m c) = Some b"
    using Cons assms(1) by (simp_all add: peek_u8_def chunk_extended)
  show ?thesis
  proof (cases "r1 = Inl (NeedMore IntegerUnderflow)")
    case True
    then show ?thesis using assms(2) i p k by (intro disjI2) (auto simp: try_decode_string_def)
  next
    case False
    have e: "decode_int 7 (extended m c) = (r1, extended m c1)" by (rule decode_int_extended [OF assms(1) i False])
    have c1: "chunk (extended m c1) = chunk c1 @ m" using cursor_ok_moved [OF assms(1) k(1)] k(2) by (simp only: chunk_extended)
    show ?thesis
    proof (cases r1)
      case (Inl er)
      then show ?thesis using assms(2) i e p by (simp add: try_decode_string_def)
    next
      case (Inr n)
      show ?thesis
      proof (cases "n \<le> length (chunk c1)")
        case True
        then have "take n (chunk (extended m c1)) = take n (chunk c1)" using c1 by simp
        then show ?thesis using assms(2) i e p Inr c1 True
          by (auto simp: try_decode_string_def Let_def remaining_chunk advance_chunk split: prod.splits sum.splits if_splits)
      next
        case False
        then show ?thesis using assms(2) i p Inr k(2) by (auto simp: try_decode_string_def remaining_chunk)
      qed
    qed
  qed
qed

lemma decode_string_extended:
  assumes "cursor_ok c" and "decode_string d c = (r, d', c')"
  shows "decode_string d (extended m c) = (r, d', extended m c') \<or> waits r \<and> d' = d \<and> cur_buf c' = cur_buf c"
proof -
  obtain r1 d1 c1 where t: "try_decode_string d c = (r1, d1, c1)" by (cases "try_decode_string d c")
  from try_decode_string_moves [OF t] obtain n where n: "n \<le> length (chunk c)" "c1 = moved n c"
    "\<And>mk. r1 = Inr mk \<Longrightarrow> n = sm_offset mk + sm_len mk" by blast
  show ?thesis
  proof (cases r1)
    case (Inl e)
    then show ?thesis using assms try_decode_string_extended [OF assms(1) t, of m] t by (auto simp: decode_string_def waits_def)
  next
    case (Inr mk)
    obtain s c2 where s: "sm_consume mk c = Some (s, c2)" using sm_consume_moves [OF assms(1), of mk] n(1) n(3) [OF Inr] by auto
    show ?thesis
      using assms(2) try_decode_string_extended [OF assms(1) t, of m] t Inr n(2) s sm_consume_extended [OF assms(1) s]
      by (auto simp: decode_string_def Let_def)
  qed
qed

lemma decode_name_value_extended:
  assumes "cursor_ok c" and "decode_name_value d c = (r, d', c')" and "d_buffer d = []"
  shows "decode_name_value d (extended m c) = (r, d', extended m c') \<or> waits r \<and> d' = d \<and> cur_buf c' = cur_buf c"
proof -
  obtain r1 d1 c1 where t1: "try_decode_string d c = (r1, d1, c1)" by (cases "try_decode_string d c")
  from try_decode_string_moves [OF t1] obtain n1 where n1: "n1 \<le> length (chunk c)" "c1 = moved n1 c"
    "\<And>mk. r1 = Inr mk \<Longrightarrow> n1 = sm_offset mk + sm_len mk" by blast
  show ?thesis
  proof (cases r1)
    case (Inl e)
    then show ?thesis using assms try_decode_string_extended [OF assms(1) t1, of m] t1
      by (auto simp: decode_name_value_def waits_def)
  next
    case m1: (Inr m1)
    have d1: "d1 = d" using try_decode_string_buffer t1 m1 assms(3) by blast
    have ok: "cursor_ok c1" using cursor_ok_moved [OF assms(1) n1(1)] n1(2) by simp
    have e1: "try_decode_string d (extended m c) = (Inr m1, d, extended m c1)"
      using try_decode_string_extended [OF assms(1) t1, of m] m1 d1 by auto
    obtain r2 d2 c2 where t2: "try_decode_string d c1 = (r2, d2, c2)" by (cases "try_decode_string d c1")
    from try_decode_string_moves [OF t2] obtain n2 where n2: "n2 \<le> length (chunk c1)" "c2 = moved n2 c1"
      "\<And>mk. r2 = Inr mk \<Longrightarrow> n2 = sm_offset mk + sm_len mk" by blast
    have bk: "c2\<lparr>cur_pos := cur_pos c\<rparr> = c" using n1(2) n2(2) by (simp add: moved_def)
    show ?thesis
    proof (cases r2)
      case (Inl e)
      then show ?thesis using assms try_decode_string_extended [OF ok t2, of m] t1 t2 m1 d1 e1 n1(2)
        by (auto simp: decode_name_value_def waits_def)
    next
      case m2: (Inr m2)
      obtain s c3 where c3: "sm_consume m1 c = Some (s, c3)" "cursor_ok c3" "chunk c3 = drop n1 (chunk c)"
        using sm_consume_moves [OF assms(1), of m1] n1(1) n1(3) [OF m1] by auto
      obtain v c4 where c4: "sm_consume m2 c3 = Some (v, c4)"
        using sm_consume_moves [OF c3(2), of m2] n2(1) n2(3) [OF m2] n1(2) c3(3) by auto
      show ?thesis
        using assms(2) try_decode_string_extended [OF ok t2, of m] t1 t2 m1 m2 d1 e1 bk c3(1) c4
          sm_consume_extended [OF assms(1) c3(1)] sm_consume_extended [OF c3(2) c4]
        by (auto simp: decode_name_value_def Let_def)
    qed
  qed
qed

lemma decode_literal_extended:
  assumes "cursor_ok c" and "decode_literal L i d c = (r, d', c')" and "d_buffer d = []"
  shows "decode_literal L i d (extended m c) = (r, d', extended m c') \<or> waits r \<and> d' = d \<and> cur_buf c' = cur_buf c"
proof -
  obtain r1 c1 where i: "decode_int (if i then 6 else 4) c = (r1, c1)" by (cases "decode_int (if i then 6 else 4) c")
  obtain k where k: "k \<le> length (chunk c)" "c1 = moved k c" using decode_int_moves [OF i] by blast
  have ok: "cursor_ok c1" using cursor_ok_moved [OF assms(1) k(1)] k(2) by simp
  show ?thesis
  proof (cases "r1 = Inl (NeedMore IntegerUnderflow)")
    case True
    then show ?thesis using assms(2) i k(2) by (intro disjI2) (auto simp: decode_literal_def)
  next
    case False
    have e: "decode_int (if i then 6 else 4) (extended m c) = (r1, extended m c1)" by (rule decode_int_extended [OF assms(1) i False])
    show ?thesis
    proof (cases r1)
      case (Inl er)
      then show ?thesis using assms(2) i e by (simp add: decode_literal_def)
    next
      case (Inr idx)
      obtain r2 d2 c2 where nv: "decode_name_value d c1 = (r2, d2, c2)" by (cases "decode_name_value d c1")
      obtain r3 d3 c3 where st: "decode_string d c1 = (r3, d3, c3)" by (cases "decode_string d c1")
      consider "idx = 0" | er where "idx \<noteq> 0" "dt_get idx (d_table d) = Inl er" | h where "idx \<noteq> 0" "dt_get idx (d_table d) = Inr h"
        by (cases "dt_get idx (d_table d)") blast+
      then show ?thesis
      proof cases
        case 1
        then show ?thesis using assms(2) i e Inr nv k(2) decode_name_value_extended [OF ok nv assms(3), of m]
          by (cases r2) (auto simp: decode_literal_def waits_def)
      next
        case 2
        then have "r = Inl er" "d' = d" "c' = c1" using assms(2) i Inr by (simp_all add: decode_literal_def)
        then show ?thesis using 2 e Inr by (simp add: decode_literal_def)
      next
        case 3
        then show ?thesis using assms(2) i e Inr st k(2) decode_string_extended [OF ok st, of m]
          by (cases r3) (auto simp: decode_literal_def waits_def)
      qed
    qed
  qed
qed

lemma decode_indexed_extended:
  assumes "cursor_ok c" and "decode_indexed d c = (r, c')"
  shows "decode_indexed d (extended m c) = (r, extended m c') \<or> waits r \<and> cur_buf c' = cur_buf c"
proof -
  obtain r1 c1 where i: "decode_int 7 c = (r1, c1)" by (cases "decode_int 7 c")
  obtain k where k: "c1 = moved k c" using decode_int_moves [OF i] by blast
  show ?thesis
    using assms(2) i k decode_int_extended [OF assms(1) i, of m]
    by (cases r1; cases "r1 = Inl (NeedMore IntegerUnderflow)") (auto simp: decode_indexed_def)
qed

lemma process_size_update_extended:
  assumes "cursor_ok c" and "process_size_update d c = (r, d', c')"
  shows "process_size_update d (extended m c) = (r, d', extended m c') \<or> waits r \<and> d' = d \<and> cur_buf c' = cur_buf c"
proof -
  obtain r1 c1 where i: "decode_int 5 c = (r1, c1)" by (cases "decode_int 5 c")
  obtain k where k: "c1 = moved k c" using decode_int_moves [OF i] by blast
  show ?thesis
    using assms(2) i k decode_int_extended [OF assms(1) i, of m]
    by (cases r1; cases "r1 = Inl (NeedMore IntegerUnderflow)")
      (auto simp: process_size_update_def split: if_splits option.splits)
qed

lemma decode_arm_extended:
  assumes "cursor_ok c" and "decode_arm L rep cr d c = (r, d', c')" and "d_buffer d = []"
  shows "decode_arm L rep cr d (extended m c) = (r, d', extended m c') \<or> waits r \<and> d' = d \<and> cur_buf c' = cur_buf c"
proof -
  obtain r1 c1 where i: "decode_indexed d c = (r1, c1)" by (cases "decode_indexed d c")
  obtain r2 d2 c2 where t: "decode_literal L True d c = (r2, d2, c2)" by (cases "decode_literal L True d c")
  obtain r3 d3 c3 where f: "decode_literal L False d c = (r3, d3, c3)" by (cases "decode_literal L False d c")
  obtain r4 d4 c4 where p: "process_size_update d c = (r4, d4, c4)" by (cases "process_size_update d c")
  note ext = decode_indexed_extended [OF assms(1) i, of m] decode_literal_extended [OF assms(1) t assms(3), of m]
    decode_literal_extended [OF assms(1) f assms(3), of m] process_size_update_extended [OF assms(1) p, of m]
  show ?thesis
  proof (cases rep)
    case Indexed_Field
    then show ?thesis using assms(2) i ext(1) by (cases r1) (auto simp: decode_arm_def map_ok_def waits_def)
  next
    case LiteralWithIndexing
    then show ?thesis using assms(2) t ext(2) by (cases r2) (auto simp: decode_arm_def waits_def)
  next
    case LiteralWithoutIndexing
    then show ?thesis using assms(2) f ext(3) by (cases r3) (auto simp: decode_arm_def map_ok_def waits_def)
  next
    case LiteralNeverIndexed
    then show ?thesis using assms(2) f ext(3) by (cases r3) (auto simp: decode_arm_def map_ok_def waits_def)
  next
    case Size_Update
    then show ?thesis using assms(2) p ext(4) by (cases r4) (auto simp: decode_arm_def map_ok_def waits_def split: if_splits)
  qed
qed

lemma decode_block_extended:
  assumes "cursor_ok c" and "decode_block L ty cr d c = (r, d', c')" and "d_buffer d = []" and "dt_ok (d_table d)"
  shows "decode_block L ty cr d (extended m c) = (r, d', extended m c') \<or> waits r \<and> d' = d \<and> cur_buf c' = cur_buf c"
proof (cases "load ty")
  case (Inr rep)
  obtain r1 d1 c1 where a: "decode_arm L rep cr d c = (r1, d1, c1)" by (cases "decode_arm L rep cr d c")
  have "cursor_ok c1" using decode_arm_moves [OF assms(1,4) a] by blast
  then have "consume c1 = Some (cur_of (chunk c1))" "consume (extended m c1) = Some (cur_of (chunk c1 @ m))"
    by (simp_all add: consume_cur_of chunk_extended) (simp add: consume_def cur_take_def cursor_ok_def cur_of_def chunk_def)
  then show ?thesis
    using assms(2) Inr a decode_arm_extended [OF assms(1) a assms(3), of m]
    by (cases r1) (auto simp: decode_block_def waits_def extended_cur_of)
qed (use assms(2) in \<open>simp add: decode_block_def\<close>)

section \<open>Header blocks in pieces\<close>

lemma decode_block_resize:
  assumes "decode_block L ty False d c = (Inr x, d', c')"
  shows "decode_block L ty cr d c = (Inr x, d', c')"
proof (cases "load ty")
  case (Inr rep)
  then show ?thesis using assms by (cases rep) (auto simp: decode_block_def decode_arm_def)
qed (use assms in \<open>simp add: decode_block_def\<close>)

lemma decode_loop_resize:
  "decode_loop L False d c = (Inr (), d', c', hs) \<Longrightarrow> decode_loop L True d c = (Inr (), d', c', hs)"
proof (cases "peek_u8 c")
  case None
  then show "decode_loop L False d c = (Inr (), d', c', hs) \<Longrightarrow> decode_loop L True d c = (Inr (), d', c', hs)"
    by (auto simp: decode_loop.simps [of L False] decode_loop.simps [of L True])
next
  case (Some ty)
  assume a: "decode_loop L False d c = (Inr (), d', c', hs)"
  then obtain x d1 c1 where "decode_block L ty False d c = (Inr x, d1, c1)"
    using Some by (auto simp: decode_loop.simps [of L False d c] split: sum.splits prod.splits)
  then show "decode_loop L True d c = (Inr (), d', c', hs)"
    using a Some decode_block_resize [of L ty d c x d1 c1 True] by (simp add: decode_loop.simps [of L _ d c])
qed

lemma decode_block_buffer:
  assumes "decode_block L ty cr d c = (Inr x, d', c')" and "d_buffer d = []"
  shows "d_buffer d' = []" "\<exists>bs. c' = cur_of bs"
proof -
  have st: "d1 = d" if "decode_string d c = (Inr s, d1, c1)" for s d1 c c1
    using that assms(2) by (auto simp: decode_string_def Let_def split: prod.splits sum.splits option.splits dest: try_decode_string_buffer)
  have nv: "d1 = d" if "decode_name_value d c = (Inr s, d1, c1)" for s d1 c c1
    using that assms(2)
    by (auto simp: decode_name_value_def Let_def split: prod.splits sum.splits option.splits dest!: try_decode_string_buffer)
  have lit: "d1 = d" if "decode_literal L i d c = (Inr h, d1, c1)" for i h d1 c1
    using that assms(2) by (auto simp: decode_literal_def split: prod.splits sum.splits if_splits dest!: nv st)
  obtain rep c1 where a: "decode_arm L rep cr d c = (Inr x, d', c1)" "consume c1 = Some c'"
    using assms(1) by (auto simp: decode_block_def split: sum.splits prod.splits option.splits)
  then show "\<exists>bs. c' = cur_of bs" by (auto simp: consume_def cur_take_def cur_of_def split: if_splits)
  have "d_buffer d1 = []" if "process_size_update d c = (Inr u, d1, c1)" for u d1 c1
    using that assms(2) by (auto simp: process_size_update_def split: prod.splits sum.splits option.splits if_splits)
  then show "d_buffer d' = []"
    using a(1) assms(2) by (cases rep) (auto simp: decode_arm_def map_ok_def split: prod.splits sum.splits if_splits dest!: lit)
qed

lemma decode_loop_pieces:
  assumes "decode_loop L cr d (cur_of (a @ b)) = (Inr (), d2, c2, hs)" and "d_buffer d = []" and "dt_ok (d_table d)"
  shows "\<exists>r d1 c1 hs1 hs2. decode_loop L cr d (cur_of a) = (r, d1, c1, hs1) \<and> (r = Inr () \<or> waits r) \<and>
    decode_loop L True d1 (cur_of (cur_buf c1 @ b)) = (Inr (), d2, c2, hs2) \<and> hs = hs1 @ hs2"
  using assms
proof (induction "length a" arbitrary: cr d a hs rule: less_induct)
  case less
  show ?case
  proof (cases a)
    case Nil
    then have "decode_loop L True d (cur_of b) = (Inr (), d2, c2, hs)"
      using less.prems(1) decode_loop_resize by (cases cr) simp_all
    then show ?thesis using Nil by (simp add: decode_loop.simps [of L cr d "cur_of []"] peek_u8_def)
  next
    case (Cons ty a')
    have pk: "peek_u8 (cur_of a) = Some ty" "peek_u8 (cur_of (a @ b)) = Some ty" using Cons by (simp_all add: peek_u8_def)
    obtain r1 d1 c1 where blk: "decode_block L ty cr d (cur_of a) = (r1, d1, c1)" by (cases "decode_block L ty cr d (cur_of a)")
    consider "decode_block L ty cr d (cur_of (a @ b)) = (r1, d1, extended b c1)" | "waits r1" "d1 = d" "cur_buf c1 = a"
      using decode_block_extended [OF _ blk less.prems(2,3), of b] by (auto simp: extended_cur_of)
    then show ?thesis
    proof cases
      case 1
      then obtain hs0 cr' where r1: "r1 = Inr (hs0, cr')"
        using less.prems(1) pk(2) by (cases r1) (auto simp: decode_loop.simps [of L cr d "cur_of (a @ b)"])
      have ok: "dt_ok (d_table d1)" using decode_block_moves [OF _ less.prems(3) blk] by simp
      have bu: "d_buffer d1 = []" using decode_block_buffer(1) blk r1 less.prems(2) by blast
      obtain a1 where c1: "c1 = cur_of a1" using decode_block_buffer(2) blk r1 less.prems(2) by blast
      have l: "length a1 < length a" using decode_block_progress blk r1 c1 Cons by fastforce
      obtain hs' where e: "decode_loop L cr' d1 (cur_of (a1 @ b)) = (Inr (), d2, c2, hs')" "hs = hs0 @ hs'"
        using less.prems(1) pk(2) 1 r1 c1
        by (auto simp: decode_loop.simps [of L cr d "cur_of (a @ b)"] extended_cur_of split: prod.splits)
      from less.hyps [OF l e(1) bu ok] show ?thesis
        using blk r1 c1 pk(1) e(2) by (fastforce simp: decode_loop.simps [of L cr d "cur_of a"])
    next
      case 2
      have "decode_loop L True d (cur_of (a @ b)) = (Inr (), d2, c2, hs)" using less.prems(1) decode_loop_resize by (cases cr) simp_all
      then show ?thesis using blk 2 pk(1) by (auto simp: decode_loop.simps [of L cr d "cur_of a"] waits_def)
    qed
  qed
qed

lemma decode_block_update: "decode_block L ty cr d c = (r, d', c') \<Longrightarrow> d_max_size_update d' = d_max_size_update d"
proof -
  have "d_max_size_update d1 = d_max_size_update d" if "process_size_update d c = (r, d1, c1)" for r d1 c1
    using that by (auto simp: process_size_update_def split: prod.splits sum.splits option.splits if_splits)
  then have "d_max_size_update d1 = d_max_size_update d" if "decode_arm L rep cr d c = (r, d1, c1)" for rep r d1 c1
    using that by (cases rep) (auto simp: decode_arm_def split: prod.splits sum.splits if_splits dest!: decode_literal_decoder)
  then show "decode_block L ty cr d c = (r, d', c') \<Longrightarrow> d_max_size_update d' = d_max_size_update d"
    by (fastforce simp: decode_block_def split: sum.splits prod.splits option.splits)
qed

lemma decode_loop_update: "decode_loop L cr d c = (r, d', c', hs) \<Longrightarrow> d_max_size_update d' = d_max_size_update d"
proof (induction L cr d c arbitrary: hs rule: decode_loop.induct)
  case (1 L cr d c)
  show ?case
  proof (cases "peek_u8 c")
    case None
    then show ?thesis using "1.prems" by (simp add: decode_loop.simps [of L cr d c])
  next
    case (Some ty)
    obtain r1 d1 c1 where b: "decode_block L ty cr d c = (r1, d1, c1)" by (cases "decode_block L ty cr d c")
    note u = decode_block_update [OF b]
    show ?thesis
    proof (cases r1)
      case (Inl e)
      then show ?thesis using "1.prems" Some b u by (simp add: decode_loop.simps [of L cr d c])
    next
      case (Inr x)
      obtain hs0 cr' where x: "x = (hs0, cr')" by (cases x)
      obtain hs' where "decode_loop L cr' d1 c1 = (r, d', c', hs')"
        using "1.prems" Some b Inr x by (auto simp: decode_loop.simps [of L cr d c] split: prod.splits)
      from "1.IH" [OF Some b [symmetric] Inr x [symmetric] refl this] u show ?thesis by simp
    qed
  qed
qed

text \<open>
  The other direction. A call of the decoder admits a change of the table size at its beginning, so a change in the
  middle of a block is refused when the block is decoded at once and admitted when it begins the second piece.
\<close>

definition resize_refused :: "DecoderError fault + unit \<Rightarrow> bool" where
  "resize_refused r \<longleftrightarrow> r = Inl (Err InvalidMaxDynamicSize)"

lemma decode_block_no_resize:
  assumes "decode_block L ty True d c = (Inr (hs, cr), d', c')"
  shows "decode_block L ty False d c = (Inr (hs, cr), d', c') \<or> (\<exists>d1 c1. decode_block L ty False d c = (Inl (Err InvalidMaxDynamicSize), d1, c1))"
proof (cases "load ty")
  case (Inr rep)
  then show ?thesis using assms by (cases rep) (auto simp: decode_block_def decode_arm_def)
qed (use assms in \<open>simp add: decode_block_def\<close>)

lemma decode_loop_no_resize:
  assumes "decode_loop L True d c = (Inr (), d', c', hs)"
  shows "decode_loop L cr d c = (Inr (), d', c', hs) \<or> resize_refused (fst (decode_loop L cr d c))"
proof (cases "cr \<or> peek_u8 c = None")
  case True
  then have "cr \<or> decode_loop L cr d c = (Inr (), d, c, [])" "cr \<or> decode_loop L True d c = (Inr (), d, c, [])"
    by (auto simp: decode_loop.simps [of L cr d c] decode_loop.simps [of L True d c])
  then show ?thesis using assms by (cases cr) auto
next
  case False
  then obtain ty where ty: "peek_u8 c = Some ty" "\<not> cr" by auto
  then obtain hs0 cr' d1 c1 where b: "decode_block L ty True d c = (Inr (hs0, cr'), d1, c1)"
    using assms by (auto simp: decode_loop.simps [of L True d c] split: sum.splits prod.splits)
  from decode_block_no_resize [OF b] show ?thesis
    using assms ty b by (auto simp: decode_loop.simps [of L _ d c] resize_refused_def)
qed

lemma decode_loop_joined:
  assumes "decode_loop L cr d (cur_of a) = (Inr (), d1, c1, hs1)"
    and "decode_loop L True d1 (cur_of (cur_buf c1 @ b)) = (Inr (), d2, c2, hs2)" and "d_buffer d = []" and "dt_ok (d_table d)"
  shows "decode_loop L cr d (cur_of (a @ b)) = (Inr (), d2, c2, hs1 @ hs2) \<or> resize_refused (fst (decode_loop L cr d (cur_of (a @ b))))"
  using assms
proof (induction "length a" arbitrary: cr d a hs1 rule: less_induct)
  case less
  show ?case
  proof (cases a)
    case Nil
    then show ?thesis using less.prems decode_loop_no_resize [of L d "cur_of b" d2 c2 hs2 cr]
      by (auto simp: decode_loop.simps [of L cr d "cur_of []"] peek_u8_def)
  next
    case (Cons ty a')
    have pk: "peek_u8 (cur_of a) = Some ty" "peek_u8 (cur_of (a @ b)) = Some ty" using Cons by (simp_all add: peek_u8_def)
    obtain r1 e1 k1 where blk: "decode_block L ty cr d (cur_of a) = (r1, e1, k1)" by (cases "decode_block L ty cr d (cur_of a)")
    show ?thesis
    proof (cases r1)
      case (Inl e)
      then show ?thesis using less.prems(1) blk pk(1) by (auto simp: decode_loop.simps [of L cr d "cur_of a"])
    next
      case (Inr x)
      obtain hs0 cr' where x: "x = (hs0, cr')" by (cases x)
      have ext: "decode_block L ty cr d (cur_of (a @ b)) = (r1, e1, extended b k1)"
        using decode_block_extended [OF _ blk less.prems(3,4), of b] Inr by (auto simp: extended_cur_of)
      have ok: "dt_ok (d_table e1)" using decode_block_moves [OF _ less.prems(4) blk] by simp
      have bu: "d_buffer e1 = []" using decode_block_buffer(1) blk Inr less.prems(3) by blast
      obtain a1 where k1: "k1 = cur_of a1" using decode_block_buffer(2) blk Inr less.prems(3) by blast
      have l: "length a1 < length a" using decode_block_progress blk Inr k1 Cons by fastforce
      obtain hs' where e: "decode_loop L cr' e1 (cur_of a1) = (Inr (), d1, c1, hs')" "hs1 = hs0 @ hs'"
        using less.prems(1) pk(1) blk Inr x k1 by (auto simp: decode_loop.simps [of L cr d "cur_of a"] split: prod.splits)
      from less.hyps [OF l e(1) less.prems(2) bu ok] show ?thesis
        using ext Inr x k1 pk(2) e(2)
        by (auto simp: decode_loop.simps [of L cr d "cur_of (a @ b)"] extended_cur_of resize_refused_def split: prod.splits)
    qed
  qed
qed

section \<open>Properties\<close>

text \<open>
  C8: A header block and the same block cut in two. If decoding the whole block succeeds, then for every cut decoding
  the beginning succeeds or stops with a request for more input, and decoding what it kept together with the rest yields
  the remaining headers and the same decoder: no header is lost, repeated or changed by the cut. Conversely, if the
  beginning ends with a complete field and both parts are decoded, the whole block is decoded to the same headers and
  decoder, or is refused with \<open>InvalidMaxDynamicSize\<close>. The second case is real: a change of the table size is admitted
  at the beginning of each call, so one in the middle of a block is refused in the whole block and admitted as the
  beginning of a second part. The witness shows it for an indexed field followed by a size update.
\<close>

theorem header_block_pieces:
  assumes "d_buffer d = []" and "dt_ok (d_table d)"
  shows "(\<forall>d2 c2 hs. hpack_decode L d (cur_of (a @ b)) = (Inr (), d2, c2, hs) \<longrightarrow>
      (\<exists>r d1 c1 hs1 hs2. hpack_decode L d (cur_of a) = (r, d1, c1, hs1) \<and> (r = Inr () \<or> (\<exists>x. r = Inl (Err (NeedMore x)))) \<and>
        hpack_decode L d1 (cur_of (cur_buf c1 @ b)) = (Inr (), d2, c2, hs2) \<and> hs = hs1 @ hs2)) \<and>
    (\<forall>d1 c1 hs1 d2 c2 hs2. hpack_decode L d (cur_of a) = (Inr (), d1, c1, hs1) \<longrightarrow>
      hpack_decode L d1 (cur_of (cur_buf c1 @ b)) = (Inr (), d2, c2, hs2) \<longrightarrow>
        hpack_decode L d (cur_of (a @ b)) = (Inr (), d2, c2, hs1 @ hs2) \<or>
        fst (hpack_decode L d (cur_of (a @ b))) = Inl (Err InvalidMaxDynamicSize))"
proof (intro conjI allI impI)
  define d0 where "d0 = (case d_max_size_update d of Some n \<Rightarrow> d\<lparr>d_max_size_update := None, d_last_max_update := n\<rparr> | None \<Rightarrow> d)"
  have d0: "d_max_size_update d0 = None" "d_buffer d0 = []" "dt_ok (d_table d0)"
    using assms by (auto simp: d0_def split: option.splits)
  have h: "hpack_decode L d c = decode_loop L True d0 c" for c by (simp add: hpack_decode_def d0_def)
  have h1: "hpack_decode L d1 c = decode_loop L True d1 c" if "decode_loop L True d0 (cur_of a) = (r, d1, c1, hs1)" for r d1 c1 hs1 c
    using decode_loop_update [OF that] d0(1) by (simp add: hpack_decode_def)
  fix d2 c2
  show "\<exists>r d1 c1 hs1 hs2. hpack_decode L d (cur_of a) = (r, d1, c1, hs1) \<and> (r = Inr () \<or> (\<exists>x. r = Inl (Err (NeedMore x)))) \<and>
      hpack_decode L d1 (cur_of (cur_buf c1 @ b)) = (Inr (), d2, c2, hs2) \<and> hs = hs1 @ hs2"
    if "hpack_decode L d (cur_of (a @ b)) = (Inr (), d2, c2, hs)" for hs
    using decode_loop_pieces [OF that [unfolded h] d0(2,3)] h h1 by (fastforce simp: waits_def)
  show "hpack_decode L d (cur_of (a @ b)) = (Inr (), d2, c2, hs1 @ hs2) \<or> fst (hpack_decode L d (cur_of (a @ b))) = Inl (Err InvalidMaxDynamicSize)"
    if f: "hpack_decode L d (cur_of a) = (Inr (), d1, c1, hs1)" and g: "hpack_decode L d1 (cur_of (cur_buf c1 @ b)) = (Inr (), d2, c2, hs2)"
    for d1 c1 hs1 hs2
    using decode_loop_joined [OF f [unfolded h] _ d0(2,3), of b d2 c2 hs2] g h1 [OF f [unfolded h]] h by (simp add: resize_refused_def)
qed

theorem header_block_pieces_witness:
  "(\<exists>r d1 c1 hs1 d2 c2 hs2. hpack_decode plain_h2 (decoder_new 4096) (cur_of [0x82, 4, 2, 0x2F]) = (r, d1, c1, hs1) \<and>
     (r = Inr () \<or> (\<exists>x. r = Inl (Err (NeedMore x)))) \<and>
     hpack_decode plain_h2 d1 (cur_of (cur_buf c1 @ [0x61])) = (Inr (), d2, c2, hs2) \<and>
     hs1 @ hs2 = [Method (ascii ''GET''), Path (ascii ''/a'')]) \<and>
   (\<exists>d1 c1 hs1 d2 c2 hs2. hpack_decode plain_h2 (decoder_new 4096) (cur_of [0x82]) = (Inr (), d1, c1, hs1) \<and>
     hpack_decode plain_h2 d1 (cur_of (cur_buf c1 @ [0x20])) = (Inr (), d2, c2, hs2) \<and>
     fst (hpack_decode plain_h2 (decoder_new 4096) (cur_of ([0x82] @ [0x20]))) = Inl (Err InvalidMaxDynamicSize))"
proof (intro conjI)
  have "case hpack_decode plain_h2 (decoder_new 4096) (cur_of ([0x82, 4, 2, 0x2F] @ [0x61])) of
      (r, d, c, hs) \<Rightarrow> r = Inr () \<and> hs = [Method (ascii ''GET''), Path (ascii ''/a'')]" by code_simp
  then obtain d2 c2 where e: "hpack_decode plain_h2 (decoder_new 4096) (cur_of ([0x82, 4, 2, 0x2F] @ [0x61])) =
      (Inr (), d2, c2, [Method (ascii ''GET''), Path (ascii ''/a'')])" by (auto split: prod.splits)
  have d: "d_buffer (decoder_new 4096) = []" "dt_ok (d_table (decoder_new 4096))"
    by (simp_all add: decoder_new_def dt_new_def dt_ok_def)
  from header_block_pieces [OF d, THEN conjunct1, rule_format, OF e]
  show "\<exists>r d1 c1 hs1 d2 c2 hs2. hpack_decode plain_h2 (decoder_new 4096) (cur_of [0x82, 4, 2, 0x2F]) = (r, d1, c1, hs1) \<and>
     (r = Inr () \<or> (\<exists>x. r = Inl (Err (NeedMore x)))) \<and>
     hpack_decode plain_h2 d1 (cur_of (cur_buf c1 @ [0x61])) = (Inr (), d2, c2, hs2) \<and>
     hs1 @ hs2 = [Method (ascii ''GET''), Path (ascii ''/a'')]" by metis
  have "case hpack_decode plain_h2 (decoder_new 4096) (cur_of [0x82]) of (r, d1, c1, hs1) \<Rightarrow> r = Inr () \<and>
      (case hpack_decode plain_h2 d1 (cur_of (cur_buf c1 @ [0x20])) of (r, d2, c2, hs2) \<Rightarrow> r = Inr ())" by code_simp
  then obtain d1 c1 hs1 d2 c2 hs2 where p: "hpack_decode plain_h2 (decoder_new 4096) (cur_of [0x82]) = (Inr (), d1, c1, hs1)"
    "hpack_decode plain_h2 d1 (cur_of (cur_buf c1 @ [0x20])) = (Inr (), d2, c2, hs2)" by (auto split: prod.splits)
  have "fst (hpack_decode plain_h2 (decoder_new 4096) (cur_of ([0x82] @ [0x20]))) \<noteq> Inr ()" by code_simp
  with header_block_pieces [OF d, THEN conjunct2, rule_format, OF p] p
  show "\<exists>d1 c1 hs1 d2 c2 hs2. hpack_decode plain_h2 (decoder_new 4096) (cur_of [0x82]) = (Inr (), d1, c1, hs1) \<and>
     hpack_decode plain_h2 d1 (cur_of (cur_buf c1 @ [0x20])) = (Inr (), d2, c2, hs2) \<and>
     fst (hpack_decode plain_h2 (decoder_new 4096) (cur_of ([0x82] @ [0x20]))) = Inl (Err InvalidMaxDynamicSize)"
    by (metis fst_conv)
qed

end
