(* ===== verification/H2_Frame.thy ===== *)
theory H2_Frame
  imports Prelude
begin

text \<open>
  The frames of HTTP/2 in \<open>http/src/h2/proto\<close>: \<open>head.rs\<close>, \<open>stream_id.rs\<close>, \<open>reason.rs\<close>, \<open>settings.rs\<close>,
  \<open>window_update.rs\<close>, \<open>go_away.rs\<close>, \<open>reset.rs\<close>, \<open>priority.rs\<close> and \<open>data.rs\<close>. The code has \<open>todo!()\<close> where a frame is
  malformed; that, like every other panic, is the value \<open>None\<close>.
\<close>

unbundle bit_operations_syntax

section \<open>Stream identifiers\<close>

definition STREAM_ID_MASK :: u32 where "STREAM_ID_MASK = push_bit 31 1"
definition MAX_STREAM_ID :: u32 where "MAX_STREAM_ID = drop_bit 1 (- 1)"

text \<open>\<open>unpack_octets_4!\<close> and \<open>u32::from_be_bytes\<close>; there are no four bytes in a shorter slice.\<close>

definition unpack_octets_4 :: "bytes \<Rightarrow> nat \<Rightarrow> u32 option" where
  "unpack_octets_4 buf offset =
     (if offset + 4 \<le> length buf then Some (word_of_nat (from_be (take 4 (drop offset buf)))) else None)"

definition put_u32 :: "u32 \<Rightarrow> bytes" where
  "put_u32 v = to_be 4 (unat v)"

definition stream_id_parse :: "bytes \<Rightarrow> (u32 \<times> bool) option" where
  "stream_id_parse buf =
     map_option (\<lambda>unpacked. (unpacked AND NOT STREAM_ID_MASK, unpacked AND STREAM_ID_MASK = STREAM_ID_MASK)) (unpack_octets_4 buf 0)"

definition is_client_initiated :: "u32 \<Rightarrow> bool" where
  "is_client_initiated i \<longleftrightarrow> i \<noteq> 0 \<and> i mod 2 = 1"

definition is_server_initiated :: "u32 \<Rightarrow> bool" where
  "is_server_initiated i \<longleftrightarrow> i \<noteq> 0 \<and> i mod 2 = 0"

text \<open>\<open>None\<close> is the overflow that the function reports; the addition itself wraps for no identifier of 31 bits.\<close>

definition next_id :: "u32 \<Rightarrow> u32 option" where
  "next_id i = (let nxt = i + 2 in if nxt > MAX_STREAM_ID then None else Some nxt)"

definition stream_id_from :: "u32 \<Rightarrow> u32 option" where
  "stream_id_from src = (if src AND STREAM_ID_MASK = 0 then Some src else None)"

section \<open>Frame heads\<close>

datatype Kind =
    Kind_Data | Kind_Headers | Kind_Priority | Kind_Reset | Kind_Settings | Kind_PushPromise | Kind_Ping | Kind_GoAway
  | Kind_WindowUpdate | Kind_Continuation | Kind_Unknown

definition kind_new :: "u8 \<Rightarrow> Kind" where
  "kind_new b =
     (if b = 0 then Kind_Data else if b = 1 then Kind_Headers else if b = 2 then Kind_Priority else if b = 3 then Kind_Reset
      else if b = 4 then Kind_Settings else if b = 5 then Kind_PushPromise else if b = 6 then Kind_Ping
      else if b = 7 then Kind_GoAway else if b = 8 then Kind_WindowUpdate else if b = 9 then Kind_Continuation else Kind_Unknown)"

fun kind_u8 :: "Kind \<Rightarrow> u8" where
  "kind_u8 Kind_Data = 0"
| "kind_u8 Kind_Headers = 1"
| "kind_u8 Kind_Priority = 2"
| "kind_u8 Kind_Reset = 3"
| "kind_u8 Kind_Settings = 4"
| "kind_u8 Kind_PushPromise = 5"
| "kind_u8 Kind_Ping = 6"
| "kind_u8 Kind_GoAway = 7"
| "kind_u8 Kind_WindowUpdate = 8"
| "kind_u8 Kind_Continuation = 9"
| "kind_u8 Kind_Unknown = 10"

record Head =
  head_kind :: Kind
  head_flag :: u8
  head_stream_id :: u32

definition HEADER_LEN :: nat where "HEADER_LEN = 9"

definition head_new :: "Kind \<Rightarrow> u8 \<Rightarrow> u32 \<Rightarrow> Head" where
  "head_new k f i = \<lparr>head_kind = k, head_flag = f, head_stream_id = i\<rparr>"

text \<open>The head without its length, which the reader has taken off before.\<close>

definition head_parse :: "bytes \<Rightarrow> Head option" where
  "head_parse header =
     (if length header \<ge> 6 then
        map_option (\<lambda>(i, _). \<lparr>head_kind = kind_new (header ! 0), head_flag = header ! 1, head_stream_id = i\<rparr>)
          (stream_id_parse (drop 2 header))
      else None)"

definition head_encode :: "Head \<Rightarrow> nat \<Rightarrow> bytes \<Rightarrow> bytes" where
  "head_encode h payload_len dst =
     dst @ to_be 3 payload_len @ [kind_u8 (head_kind h), head_flag h] @ put_u32 (head_stream_id h)"

section \<open>Error codes\<close>

definition NO_ERROR :: u32 where "NO_ERROR = 0"
definition CANCEL :: u32 where "CANCEL = 8"

fun lookup_text :: "string list \<Rightarrow> string \<Rightarrow> nat \<Rightarrow> string" where
  "lookup_text ts other i = (if i < length ts then ts ! i else other)"

definition reason_description :: "u32 \<Rightarrow> string" where
  "reason_description r = lookup_text
     [''not a result of an error'', ''unspecific protocol error detected'', ''unexpected internal error encountered'',
      ''flow-control protocol violated'', ''settings ACK not received in timely manner'',
      ''received frame when stream half-closed'', ''frame with invalid size'',
      ''refused stream before processing any application logic'', ''stream no longer needed'',
      ''unable to maintain the header compression context'',
      ''connection established in response to a CONNECT request was reset or abnormally closed'',
      ''detected excessive load generating behavior'', ''security properties do not meet minimum requirements'',
      ''endpoint requires HTTP/1.1''] ''unknown reason'' (unat r)"

section \<open>Settings\<close>

definition ACK :: u8 where "ACK = 1"
definition DEFAULT_SETTINGS_HEADER_TABLE_SIZE :: nat where "DEFAULT_SETTINGS_HEADER_TABLE_SIZE = 4096"
definition DEFAULT_INITIAL_WINDOW_SIZE :: nat where "DEFAULT_INITIAL_WINDOW_SIZE = 65535"
definition DEFAULT_MAX_FRAME_SIZE :: u32 where "DEFAULT_MAX_FRAME_SIZE = 16384"
definition MAX_INITIAL_WINDOW_SIZE :: nat where "MAX_INITIAL_WINDOW_SIZE = push_bit 31 1 - 1"
definition MAX_MAX_FRAME_SIZE :: u32 where "MAX_MAX_FRAME_SIZE = push_bit 24 1 - 1"
definition DEFAULT_SETTINGS_MAX_HEADER_LIST_SIZE :: nat where "DEFAULT_SETTINGS_MAX_HEADER_LIST_SIZE = push_bit 20 16"

record Settings =
  st_flags :: u8
  st_header_table_size :: "u32 option"
  st_enable_push :: "u32 option"
  st_max_concurrent_streams :: "u32 option"
  st_initial_window_size :: "u32 option"
  st_max_frame_size :: "u32 option"
  st_max_header_list_size :: "u32 option"
  st_enable_connect_protocol :: "u32 option"

datatype Setting =
    HeaderTableSize u32
  | EnablePush u32
  | MaxConcurrentStreams u32
  | InitialWindowSize u32
  | MaxFrameSize u32
  | MaxHeaderListSize u32
  | EnableConnectProtocol u32

definition settings_default :: Settings where
  "settings_default = \<lparr>st_flags = 0, st_header_table_size = None, st_enable_push = None, st_max_concurrent_streams = None,
     st_initial_window_size = None, st_max_frame_size = None, st_max_header_list_size = None, st_enable_connect_protocol = None\<rparr>"

definition settings_ack :: Settings where
  "settings_ack = settings_default\<lparr>st_flags := ACK\<rparr>"

definition is_ack :: "Settings \<Rightarrow> bool" where
  "is_ack s \<longleftrightarrow> st_flags s AND ACK = ACK"

definition set_max_frame_size :: "u32 option \<Rightarrow> Settings \<Rightarrow> Settings option" where
  "set_max_frame_size sz s =
     (if (case sz of Some v \<Rightarrow> DEFAULT_MAX_FRAME_SIZE \<le> v \<and> v \<le> MAX_MAX_FRAME_SIZE | None \<Rightarrow> True)
      then Some (s\<lparr>st_max_frame_size := sz\<rparr>) else None)"

definition set_enable_push :: "bool \<Rightarrow> Settings \<Rightarrow> Settings" where
  "set_enable_push enable s = s\<lparr>st_enable_push := Some (if enable then 1 else 0)\<rparr>"

definition is_push_enabled :: "Settings \<Rightarrow> bool option" where
  "is_push_enabled s = map_option (\<lambda>v. v \<noteq> 0) (st_enable_push s)"

definition setting_from_id :: "nat \<Rightarrow> u32 \<Rightarrow> Setting option" where
  "setting_from_id i v =
     (if i = 1 then Some (HeaderTableSize v) else if i = 2 then Some (EnablePush v)
      else if i = 3 then Some (MaxConcurrentStreams v) else if i = 4 then Some (InitialWindowSize v)
      else if i = 5 then Some (MaxFrameSize v) else if i = 6 then Some (MaxHeaderListSize v)
      else if i = 8 then Some (EnableConnectProtocol v) else None)"

definition setting_load :: "bytes \<Rightarrow> Setting option option" where
  "setting_load raw =
     (if 2 \<le> length raw then map_option (setting_from_id (from_be (take 2 raw))) (unpack_octets_4 raw 2) else None)"

fun setting_parts :: "Setting \<Rightarrow> nat \<times> u32" where
  "setting_parts (HeaderTableSize v) = (1, v)"
| "setting_parts (EnablePush v) = (2, v)"
| "setting_parts (MaxConcurrentStreams v) = (3, v)"
| "setting_parts (InitialWindowSize v) = (4, v)"
| "setting_parts (MaxFrameSize v) = (5, v)"
| "setting_parts (MaxHeaderListSize v) = (6, v)"
| "setting_parts (EnableConnectProtocol v) = (8, v)"

definition setting_encode :: "Setting \<Rightarrow> bytes \<Rightarrow> bytes" where
  "setting_encode s dst = (case setting_parts s of (kind, v) \<Rightarrow> dst @ to_be 2 kind @ put_u32 v)"

text \<open>What one entry does to the settings collected so far.\<close>

fun settings_apply :: "Setting option \<Rightarrow> Settings \<Rightarrow> Settings option" where
  "settings_apply (Some (HeaderTableSize v)) s = Some (s\<lparr>st_header_table_size := Some v\<rparr>)"
| "settings_apply (Some (EnablePush v)) s = (if v = 0 \<or> v = 1 then Some (s\<lparr>st_enable_push := Some v\<rparr>) else None)"
| "settings_apply (Some (MaxConcurrentStreams v)) s = Some (s\<lparr>st_max_concurrent_streams := Some v\<rparr>)"
| "settings_apply (Some (InitialWindowSize v)) s =
     (if unat v > MAX_INITIAL_WINDOW_SIZE then None else Some (s\<lparr>st_initial_window_size := Some v\<rparr>))"
| "settings_apply (Some (MaxFrameSize v)) s =
     (if \<not> (DEFAULT_MAX_FRAME_SIZE \<le> v \<and> v \<le> MAX_MAX_FRAME_SIZE) then None else Some (s\<lparr>st_max_frame_size := Some v\<rparr>))"
| "settings_apply (Some (MaxHeaderListSize v)) s = Some (s\<lparr>st_max_header_list_size := Some v\<rparr>)"
| "settings_apply (Some (EnableConnectProtocol v)) s =
     (if v = 0 \<or> v = 1 then Some (s\<lparr>st_enable_connect_protocol := Some v\<rparr>) else None)"
| "settings_apply None s = Some s"

text \<open>The loop over \<open>payload.chunks(6)\<close>.\<close>

function settings_loop :: "bytes \<Rightarrow> Settings \<Rightarrow> Settings option" where
  "settings_loop payload s =
     (if payload = [] then Some s
      else
        (case setting_load (take 6 payload) of
           None \<Rightarrow> None
         | Some st \<Rightarrow> (case settings_apply st s of None \<Rightarrow> None | Some s \<Rightarrow> settings_loop (drop 6 payload) s)))"
  by pat_completeness auto
termination
  by (relation "measure (\<lambda>(p, _). length p)") auto

declare settings_loop.simps [simp del]

definition settings_load :: "Head \<Rightarrow> bytes \<Rightarrow> Settings option" where
  "settings_load head payload =
     (if head_stream_id head \<noteq> 0 then None
      else if head_flag head AND ACK = ACK then (if payload \<noteq> [] then None else Some settings_ack)
      else if length payload mod 6 \<noteq> 0 then None
      else settings_loop payload settings_default)"

definition settings_for_each :: "Settings \<Rightarrow> Setting list" where
  "settings_for_each s =
     (let opt = (\<lambda>c v. case v of Some x \<Rightarrow> [c x] | None \<Rightarrow> []) in
      opt HeaderTableSize (st_header_table_size s) @ opt EnablePush (st_enable_push s) @
      opt MaxConcurrentStreams (st_max_concurrent_streams s) @ opt InitialWindowSize (st_initial_window_size s) @
      opt MaxFrameSize (st_max_frame_size s) @ opt MaxHeaderListSize (st_max_header_list_size s) @
      opt EnableConnectProtocol (st_enable_connect_protocol s))"

definition settings_payload_len :: "Settings \<Rightarrow> nat" where
  "settings_payload_len s = 6 * length (settings_for_each s)"

definition settings_encode :: "Settings \<Rightarrow> bytes \<Rightarrow> bytes" where
  "settings_encode s dst =
     fold setting_encode (settings_for_each s) (head_encode (head_new Kind_Settings (st_flags s) 0) (settings_payload_len s) dst)"

section \<open>The other frames\<close>

record WindowUpdate =
  wu_stream_id :: u32
  wu_size_increment :: u32

definition SIZE_INCREMENT_MASK :: u32 where "SIZE_INCREMENT_MASK = push_bit 31 1"

definition window_update_load :: "Head \<Rightarrow> bytes \<Rightarrow> WindowUpdate option" where
  "window_update_load head payload =
     (if length payload \<noteq> 4 then None
      else
        (case unpack_octets_4 payload 0 of
           None \<Rightarrow> None
         | Some v \<Rightarrow>
             let size_increment = v AND NOT SIZE_INCREMENT_MASK in
             if size_increment = 0 then None
             else Some \<lparr>wu_stream_id = head_stream_id head, wu_size_increment = size_increment\<rparr>))"

definition window_update_encode :: "WindowUpdate \<Rightarrow> bytes \<Rightarrow> bytes" where
  "window_update_encode w dst = head_encode (head_new Kind_WindowUpdate 0 (wu_stream_id w)) 4 dst @ put_u32 (wu_size_increment w)"

record GoAway =
  ga_last_stream_id :: u32
  ga_error_code :: u32
  ga_debug_data :: bytes

definition go_away_load :: "bytes \<Rightarrow> GoAway option" where
  "go_away_load payload =
     (if length payload < 8 then None
      else
        (case (stream_id_parse (take 4 payload), unpack_octets_4 payload 4) of
           (Some (i, _), Some e) \<Rightarrow> Some \<lparr>ga_last_stream_id = i, ga_error_code = e, ga_debug_data = drop 8 payload\<rparr>
         | _ \<Rightarrow> None))"

definition go_away_encode :: "GoAway \<Rightarrow> bytes \<Rightarrow> bytes" where
  "go_away_encode g dst =
     head_encode (head_new Kind_GoAway 0 0) (8 + length (ga_debug_data g)) dst @ put_u32 (ga_last_stream_id g) @
     put_u32 (ga_error_code g) @ ga_debug_data g"

record Reset =
  rs_stream_id :: u32
  rs_error_code :: u32

definition reset_load :: "Head \<Rightarrow> bytes \<Rightarrow> Reset option" where
  "reset_load head payload =
     map_option (\<lambda>e. \<lparr>rs_stream_id = head_stream_id head, rs_error_code = e\<rparr>) (unpack_octets_4 payload 0)"

definition reset_encode :: "Reset \<Rightarrow> bytes \<Rightarrow> bytes" where
  "reset_encode r dst = head_encode (head_new Kind_Reset 0 (rs_stream_id r)) 4 dst @ put_u32 (rs_error_code r)"

record StreamDependency =
  sd_dependency_id :: u32
  sd_weight :: u8
  sd_is_exclusive :: bool

definition stream_dependency_load :: "bytes \<Rightarrow> StreamDependency option" where
  "stream_dependency_load src =
     (if length src \<noteq> 5 then None
      else map_option (\<lambda>(i, ex). \<lparr>sd_dependency_id = i, sd_weight = src ! 4, sd_is_exclusive = ex\<rparr>) (stream_id_parse (take 4 src)))"

record Priority =
  pr_stream_id :: u32
  pr_dependency :: StreamDependency

definition priority_load :: "Head \<Rightarrow> bytes \<Rightarrow> Priority option" where
  "priority_load head payload =
     (case stream_dependency_load payload of
        None \<Rightarrow> None
      | Some d \<Rightarrow>
          if sd_dependency_id d = head_stream_id head then None
          else Some \<lparr>pr_stream_id = head_stream_id head, pr_dependency = d\<rparr>)"

record Data =
  da_stream_id :: u32
  da_data :: bytes
  da_flags :: u8
  da_pad_len :: "u8 option"

definition END_STREAM :: u8 where "END_STREAM = 1"
definition PADDED :: u8 where "PADDED = 8"
definition DATA_FLAGS :: u8 where "DATA_FLAGS = END_STREAM OR PADDED"

definition data_new :: "u32 \<Rightarrow> bytes \<Rightarrow> Data option" where
  "data_new i payload =
     (if i = 0 then None else Some \<lparr>da_stream_id = i, da_data = payload, da_flags = 0, da_pad_len = None\<rparr>)"

definition data_is_end_stream :: "Data \<Rightarrow> bool" where
  "data_is_end_stream d \<longleftrightarrow> da_flags d AND END_STREAM = END_STREAM"

definition data_set_end_stream :: "bool \<Rightarrow> Data \<Rightarrow> Data" where
  "data_set_end_stream v d = d\<lparr>da_flags := if v then da_flags d OR END_STREAM else da_flags d AND NOT END_STREAM\<rparr>"

text \<open>Padding is not taken off; the code for it is commented out.\<close>

definition data_load :: "Head \<Rightarrow> bytes \<Rightarrow> Data option" where
  "data_load head payload =
     (if head_stream_id head = 0 then None
      else Some \<lparr>da_stream_id = head_stream_id head, da_data = payload, da_flags = head_flag head AND DATA_FLAGS, da_pad_len = None\<rparr>)"

definition encode_chunk :: "Data \<Rightarrow> bytes \<Rightarrow> bytes" where
  "encode_chunk d dst = head_encode (head_new Kind_Data (da_flags d) (da_stream_id d)) (length (da_data d)) dst @ da_data d"

section \<open>Cutting frames\<close>

text \<open>
  The start of the loop of \<open>try_decode\<close>: \<open>next_frame_len\<close> is the length of the rest of the frame once its first three
  bytes are read, and 0 before. The result is the frame without its length field, if it is complete.
\<close>

definition take_frame :: "nat \<Rightarrow> bytes \<Rightarrow> bytes option \<times> nat \<times> bytes" where
  "take_frame next_frame_len buf =
     (if next_frame_len = 0 \<and> length buf < 3 then (None, 0, buf)
      else
        let (n, buf) = (if next_frame_len = 0 then (from_be (take 3 buf) + 6, drop 3 buf) else (next_frame_len, buf)) in
        if length buf < n then (None, n, buf) else (Some (take n buf), 0, drop n buf))"

section \<open>Numbers\<close>

lemma length_put_u32 [simp]: "length (put_u32 v) = 4"
  by (simp add: put_u32_def)

lemma unpack_put:
  assumes "length a = n"
  shows "unpack_octets_4 (a @ put_u32 v @ r) n = Some v"
proof -
  have "unat v < 256 ^ 4" using unsigned_less [of v, where 'a = nat] by simp
  then have "from_be (to_be 4 (unat v)) = unat v" by (rule from_be_to_be_id)
  then show ?thesis using assms by (simp add: unpack_octets_4_def put_u32_def)
qed

definition sid_ok :: "u32 \<Rightarrow> bool" where
  "sid_ok i \<longleftrightarrow> i AND STREAM_ID_MASK = 0"

lemma and_not_mask_id: "v AND m = 0 \<Longrightarrow> v AND NOT m = (v :: u32)"
proof (rule bit_eqI)
  fix n assume a: "v AND m = 0"
  have "\<not> bit (v AND m) n" unfolding a by simp
  then show "bit (v AND NOT m) n = bit v n" by (auto simp: bit_simps dest: bit_imp_le_length)
qed

lemma stream_id_parse_put: "sid_ok i \<Longrightarrow> stream_id_parse (put_u32 i @ r) = Some (i, False)"
proof -
  have "STREAM_ID_MASK \<noteq> 0" by (simp add: STREAM_ID_MASK_def)
  then show "sid_ok i \<Longrightarrow> ?thesis"
    using unpack_put [of "[]" 0 i r] by (simp add: stream_id_parse_def sid_ok_def and_not_mask_id)
qed

lemma stream_id_parse_ok: "stream_id_parse b = Some (i, f) \<Longrightarrow> sid_ok i"
  by (auto simp: stream_id_parse_def sid_ok_def and.assoc)

lemma kind_new_u8 [simp]: "kind_new (kind_u8 k) = k"
  by (cases k) (simp_all add: kind_new_def)

lemma head_parse_encode:
  assumes "sid_ok (head_stream_id h)"
  shows "head_parse ([kind_u8 (head_kind h), head_flag h] @ put_u32 (head_stream_id h) @ r) = Some h"
  using stream_id_parse_put [OF assms, of r] by (simp add: head_parse_def)

lemma take_frame_cut:
  assumes "n < 2 ^ 24" and "length raw = n + 6"
  shows "take_frame 0 (to_be 3 n @ raw @ rest) = (Some raw, 0, rest)"
proof -
  have "from_be (to_be 3 n) = n" using assms(1) by (intro from_be_to_be_id) simp
  then show ?thesis using assms(2) by (simp add: take_frame_def)
qed

text \<open>A frame with a payload of at most \<open>2^24 - 1\<close> bytes is cut out of the stream.\<close>

lemma take_frame_encode:
  assumes "length payload < 2 ^ 24" and "sid_ok (head_stream_id h)"
  shows "\<exists>raw. take_frame 0 (head_encode h (length payload) [] @ payload @ rest) = (Some raw, 0, rest) \<and>
    head_parse raw = Some h \<and> drop 6 raw = payload"
proof -
  let ?raw = "[kind_u8 (head_kind h), head_flag h] @ put_u32 (head_stream_id h) @ payload"
  have "head_encode h (length payload) [] @ payload @ rest = to_be 3 (length payload) @ ?raw @ rest" by (simp add: head_encode_def)
  then have "take_frame 0 (head_encode h (length payload) [] @ payload @ rest) = (Some ?raw, 0, rest)"
    by (simp only:) (rule take_frame_cut, use assms(1) in simp_all)
  then show ?thesis using head_parse_encode [OF assms(2), of payload] by auto
qed

section \<open>Settings read back\<close>

lemma setting_load_parts: "setting_parts s = (k, v) \<Longrightarrow> setting_load (to_be 2 k @ put_u32 v) = Some (Some s)"
proof -
  assume p: "setting_parts s = (k, v)"
  then have k: "k < 256 ^ 2" "setting_from_id k v = Some s" by (cases s; auto simp: setting_from_id_def)+
  have "from_be (to_be 2 k) = k" using k(1) by (rule from_be_to_be_id)
  then show ?thesis using k(2) unpack_put [of "to_be 2 k" 2 v "[]"] by (simp add: setting_load_def)
qed

lemma setting_encode_bytes: "\<exists>b. (\<forall>dst. setting_encode s dst = dst @ b) \<and> length b = 6 \<and> setting_load b = Some (Some s)"
  using setting_load_parts [of s "fst (setting_parts s)" "snd (setting_parts s)"]
  by (intro exI [of _ "to_be 2 (fst (setting_parts s)) @ put_u32 (snd (setting_parts s))"]) (simp add: setting_encode_def split_beta)

lemma settings_loop_encoded:
  "\<exists>p. (\<forall>dst. fold setting_encode ss dst = dst @ p) \<and> length p = 6 * length ss \<and>
     (\<forall>s. settings_loop p s = fold (\<lambda>st r. Option.bind r (settings_apply (Some st))) ss (Some s))"
proof (induction ss)
  case Nil
  then show ?case by (simp add: settings_loop.simps)
next
  case (Cons st ss)
  obtain b where b: "\<forall>dst. setting_encode st dst = dst @ b" "length b = 6" "setting_load b = Some (Some st)"
    using setting_encode_bytes by blast
  obtain p where p: "\<forall>dst. fold setting_encode ss dst = dst @ p" "length p = 6 * length ss"
      "\<forall>s. settings_loop p s = fold (\<lambda>st r. Option.bind r (settings_apply (Some st))) ss (Some s)"
    using Cons by blast
  have n: "fold (\<lambda>st r. Option.bind r (settings_apply (Some st))) ss None = None" by (induction ss) simp_all
  have "b @ p \<noteq> []" "take 6 (b @ p) = b" "drop 6 (b @ p) = p" using b(2) by auto
  then have "settings_loop (b @ p) s = (case settings_apply (Some st) s of None \<Rightarrow> None | Some s \<Rightarrow> settings_loop p s)" for s
    unfolding settings_loop.simps [of "b @ p"] using b(3) by (simp only: if_False option.case)
  then have "settings_loop (b @ p) s = fold (\<lambda>st r. Option.bind r (settings_apply (Some st))) (st # ss) (Some s)" for s
    using p(3) n by (simp split: option.splits)
  then show ?case using b p by (intro exI [of _ "b @ p"]) simp
qed

definition settings_ok :: "Settings \<Rightarrow> bool" where
  "settings_ok s \<longleftrightarrow> s = settings_ack \<or>
     st_flags s = 0 \<and> (case st_enable_push s of Some v \<Rightarrow> v = 0 \<or> v = 1 | None \<Rightarrow> True) \<and>
     (case st_initial_window_size s of Some v \<Rightarrow> unat v \<le> MAX_INITIAL_WINDOW_SIZE | None \<Rightarrow> True) \<and>
     (case st_max_frame_size s of Some v \<Rightarrow> DEFAULT_MAX_FRAME_SIZE \<le> v \<and> v \<le> MAX_MAX_FRAME_SIZE | None \<Rightarrow> True) \<and>
     (case st_enable_connect_protocol s of Some v \<Rightarrow> v = 0 \<or> v = 1 | None \<Rightarrow> True)"

lemma settings_ok_loop:
  assumes "settings_ok s" and "s \<noteq> settings_ack"
  shows "fold (\<lambda>st r. Option.bind r (settings_apply (Some st))) (settings_for_each s) (Some settings_default) = Some s"
proof -
  obtain f h e c i m l x where s: "s = \<lparr>st_flags = f, st_header_table_size = h, st_enable_push = e, st_max_concurrent_streams = c,
     st_initial_window_size = i, st_max_frame_size = m, st_max_header_list_size = l, st_enable_connect_protocol = x\<rparr>" by (cases s)
  show ?thesis using assms unfolding s settings_ok_def
    by (cases h; cases e; cases c; cases i; cases m; cases l; cases x) (simp_all add: settings_for_each_def settings_default_def)
qed

lemma settings_roundtrip:
  assumes "settings_ok s"
  shows "\<exists>p. (\<forall>dst. settings_encode s dst = head_encode (head_new Kind_Settings (st_flags s) 0) (length p) dst @ p) \<and> length p < 2 ^ 24 \<and>
    settings_load (head_new Kind_Settings (st_flags s) 0) p = Some s"
proof -
  obtain p where p: "\<forall>dst. fold setting_encode (settings_for_each s) dst = dst @ p" "length p = 6 * length (settings_for_each s)"
      "\<forall>s0. settings_loop p s0 = fold (\<lambda>st r. Option.bind r (settings_apply (Some st))) (settings_for_each s) (Some s0)"
    using settings_loop_encoded by blast
  have "length (settings_for_each s) \<le> 7" by (simp add: settings_for_each_def split: option.splits)
  moreover have "settings_load (head_new Kind_Settings (st_flags s) 0) p = Some s"
  proof (cases "s = settings_ack")
    case True
    then have "settings_for_each s = []" by (simp add: settings_for_each_def settings_ack_def settings_default_def)
    then show ?thesis using True p(2) by (simp add: settings_load_def head_new_def settings_ack_def settings_default_def)
  next
    case False
    then have "st_flags s = 0" using assms by (simp add: settings_ok_def)
    then show ?thesis using settings_ok_loop [OF assms False] p(2,3) by (simp add: settings_load_def head_new_def ACK_def)
  qed
  ultimately show ?thesis using p(1,2) by (intro exI [of _ p]) (simp add: settings_encode_def settings_payload_len_def)
qed

section \<open>Streams of frames\<close>

text \<open>The frames that both ends of a connection write and read with the code above.\<close>

datatype h2_frame =
    Settings_Frame Settings
  | WindowUpdate_Frame WindowUpdate
  | GoAway_Frame GoAway
  | Reset_Frame Reset
  | Data_Frame Data

fun frame_encode :: "h2_frame \<Rightarrow> bytes \<Rightarrow> bytes" where
  "frame_encode (Settings_Frame s) dst = settings_encode s dst"
| "frame_encode (WindowUpdate_Frame w) dst = window_update_encode w dst"
| "frame_encode (GoAway_Frame g) dst = go_away_encode g dst"
| "frame_encode (Reset_Frame r) dst = reset_encode r dst"
| "frame_encode (Data_Frame d) dst = encode_chunk d dst"

text \<open>
  The loader of a frame by its kind, as the branches of \<open>try_decode\<close> call them for SETTINGS, WINDOW_UPDATE, GOAWAY and DATA;
  \<open>Reset::load\<close> is added here, the connection itself ignores RST_STREAM frames.
\<close>

definition frame_load :: "Head \<Rightarrow> bytes \<Rightarrow> h2_frame option" where
  "frame_load head payload =
     (case head_kind head of
        Kind_Settings \<Rightarrow> map_option Settings_Frame (settings_load head payload)
      | Kind_WindowUpdate \<Rightarrow> map_option WindowUpdate_Frame (window_update_load head payload)
      | Kind_GoAway \<Rightarrow> map_option GoAway_Frame (go_away_load payload)
      | Kind_Reset \<Rightarrow> map_option Reset_Frame (reset_load head payload)
      | Kind_Data \<Rightarrow> map_option Data_Frame (data_load head payload)
      | _ \<Rightarrow> None)"

definition frame_read :: "bytes \<Rightarrow> (h2_frame \<times> bytes) option" where
  "frame_read bs =
     (case take_frame 0 bs of
        (Some raw, _, rest) \<Rightarrow>
          Option.bind (head_parse raw) (\<lambda>head. map_option (\<lambda>f. (f, rest)) (frame_load head (drop 6 raw)))
      | _ \<Rightarrow> None)"

fun frame_valid :: "h2_frame \<Rightarrow> bool" where
  "frame_valid (Settings_Frame s) \<longleftrightarrow> settings_ok s"
| "frame_valid (WindowUpdate_Frame w) \<longleftrightarrow> sid_ok (wu_stream_id w) \<and> wu_size_increment w \<noteq> 0 \<and> sid_ok (wu_size_increment w)"
| "frame_valid (GoAway_Frame g) \<longleftrightarrow> sid_ok (ga_last_stream_id g) \<and> length (ga_debug_data g) + 8 < 2 ^ 24"
| "frame_valid (Reset_Frame r) \<longleftrightarrow> sid_ok (rs_stream_id r)"
| "frame_valid (Data_Frame d) \<longleftrightarrow> da_stream_id d \<noteq> 0 \<and> sid_ok (da_stream_id d) \<and> length (da_data d) < 2 ^ 24 \<and>
     da_flags d AND DATA_FLAGS = da_flags d \<and> da_pad_len d = None"

lemma frame_encode_parts:
  assumes "frame_valid f"
  shows "\<exists>head payload. (\<forall>dst. frame_encode f dst = head_encode head (length payload) dst @ payload) \<and> length payload < 2 ^ 24 \<and>
    sid_ok (head_stream_id head) \<and> frame_load head payload = Some f"
proof (cases f)
  case (Settings_Frame s)
  then have ok: "settings_ok s" using assms by simp
  let ?h = "head_new Kind_Settings (st_flags s) 0"
  obtain p where p: "\<forall>dst. settings_encode s dst = head_encode ?h (length p) dst @ p" "length p < 2 ^ 24" "settings_load ?h p = Some s"
    using settings_roundtrip [OF ok] by blast
  then show ?thesis using p Settings_Frame
    by (intro exI [of _ ?h] exI [of _ p]) (simp add: sid_ok_def frame_load_def head_new_def)
next
  case (WindowUpdate_Frame w)
  then show ?thesis using assms unpack_put [of "[]" 0 "wu_size_increment w" "[]"]
    by (intro exI [of _ "head_new Kind_WindowUpdate 0 (wu_stream_id w)"] exI [of _ "put_u32 (wu_size_increment w)"])
      (simp add: window_update_encode_def frame_load_def head_new_def window_update_load_def sid_ok_def and_not_mask_id
        SIZE_INCREMENT_MASK_def [folded STREAM_ID_MASK_def])
next
  case (GoAway_Frame g)
  then show ?thesis using assms stream_id_parse_put [of "ga_last_stream_id g" "[]"]
      unpack_put [of "put_u32 (ga_last_stream_id g)" 4 "ga_error_code g" "ga_debug_data g"]
    by (intro exI [of _ "head_new Kind_GoAway 0 0"] exI [of _ "put_u32 (ga_last_stream_id g) @ put_u32 (ga_error_code g) @ ga_debug_data g"])
      (simp add: go_away_encode_def frame_load_def head_new_def go_away_load_def sid_ok_def add.commute)
next
  case (Reset_Frame r)
  then show ?thesis using assms unpack_put [of "[]" 0 "rs_error_code r" "[]"]
    by (intro exI [of _ "head_new Kind_Reset 0 (rs_stream_id r)"] exI [of _ "put_u32 (rs_error_code r)"])
      (simp add: reset_encode_def frame_load_def head_new_def reset_load_def)
next
  case (Data_Frame d)
  then show ?thesis using assms
    by (intro exI [of _ "head_new Kind_Data (da_flags d) (da_stream_id d)"] exI [of _ "da_data d"])
      (simp add: encode_chunk_def frame_load_def head_new_def data_load_def)
qed

lemma frame_read_encode: "frame_valid f \<Longrightarrow> frame_read (frame_encode f [] @ rest) = Some (f, rest)"
proof -
  assume "frame_valid f"
  then obtain head p where p: "\<forall>dst. frame_encode f dst = head_encode head (length p) dst @ p" "length p < 2 ^ 24"
      "sid_ok (head_stream_id head)" "frame_load head p = Some f"
    using frame_encode_parts by blast
  then show ?thesis using take_frame_encode [OF p(2,3), of rest] by (auto simp: frame_read_def)
qed

lemma frame_encode_nonempty: "frame_valid f \<Longrightarrow> frame_encode f [] \<noteq> []"
  using frame_encode_parts [of f] by (auto simp: head_encode_def)

interpretation h2_frames: frame_codec frame_valid "\<lambda>_ f. frame_encode f []" frame_read
  by unfold_locales (simp_all add: frame_read_encode frame_encode_nonempty)

section \<open>What the loaders accept\<close>

definition in_ranges :: "Settings \<Rightarrow> bool" where
  "in_ranges s \<longleftrightarrow> st_flags s = 0 \<and> (case st_enable_push s of Some v \<Rightarrow> v = 0 \<or> v = 1 | None \<Rightarrow> True) \<and>
     (case st_initial_window_size s of Some v \<Rightarrow> unat v \<le> MAX_INITIAL_WINDOW_SIZE | None \<Rightarrow> True) \<and>
     (case st_max_frame_size s of Some v \<Rightarrow> DEFAULT_MAX_FRAME_SIZE \<le> v \<and> v \<le> MAX_MAX_FRAME_SIZE | None \<Rightarrow> True) \<and>
     (case st_enable_connect_protocol s of Some v \<Rightarrow> v = 0 \<or> v = 1 | None \<Rightarrow> True)"

lemma settings_apply_ranges: "settings_apply st s = Some s' \<Longrightarrow> in_ranges s \<Longrightarrow> in_ranges s'"
  by (cases "(st, s)" rule: settings_apply.cases) (auto simp: in_ranges_def split: if_splits)

lemma settings_loop_ranges: "settings_loop p s = Some s' \<Longrightarrow> in_ranges s \<Longrightarrow> in_ranges s'"
proof (induction p s rule: settings_loop.induct)
  case (1 p s)
  then show ?case by (subst (asm) settings_loop.simps) (auto split: if_splits option.splits dest: settings_apply_ranges)
qed

lemma settings_load_ok: "settings_load h p = Some s \<Longrightarrow> settings_ok s"
  using settings_loop_ranges [of p settings_default s]
  by (auto simp: settings_load_def settings_ok_def in_ranges_def settings_default_def split: if_splits)

lemma size_mask: "SIZE_INCREMENT_MASK = STREAM_ID_MASK"
  by (simp add: SIZE_INCREMENT_MASK_def STREAM_ID_MASK_def)

lemma sid_ok_and: "sid_ok (v AND NOT STREAM_ID_MASK)"
  by (simp add: sid_ok_def and.assoc)

text \<open>
  C14: What the frame loaders accept is well formed: stream identifiers have 31 bits, a window increment is between 1 and
  \<open>2^31 - 1\<close>, every setting is in the range the protocol gives it, data is for a stream and has only the flags of data
  frames. So it is a frame that can be sent on and is read back as it is.
\<close>

theorem accepted_frames_well_formed:
  assumes "head_parse raw = Some head" and "frame_load head (drop 6 raw) = Some f" and "length raw < 2 ^ 24 + 6"
  shows "frame_valid f \<and> frame_read (frame_encode f [] @ rest) = Some (f, rest)"
proof -
  have "sid_ok (head_stream_id head)"
    using assms(1) stream_id_parse_ok by (fastforce simp: head_parse_def split: if_splits)
  moreover have "da AND DATA_FLAGS AND DATA_FLAGS = da AND DATA_FLAGS" for da by (simp add: and.assoc)
  ultimately have "frame_valid f" using assms(2,3)
    by (auto simp: frame_load_def data_load_def reset_load_def window_update_load_def go_away_load_def Let_def
        sid_ok_and size_mask
        split: Kind.splits option.splits if_splits prod.splits dest: settings_load_ok stream_id_parse_ok)
  then show ?thesis using frame_read_encode by simp
qed

theorem accepted_frames_well_formed_witness:
  "\<exists>head f. head_parse [8, 0, 0x80, 0, 0, 1, 0x80, 0, 0, 5] = Some head \<and> frame_load head [0x80, 0, 0, 5] = Some f \<and> frame_valid f"
proof -
  let ?raw = "[8, 0, 0x80, 0, 0, 1, 0x80, 0, 0, 5] :: bytes"
  have h: "head_parse ?raw = Some \<lparr>head_kind = Kind_WindowUpdate, head_flag = 0, head_stream_id = 1\<rparr>"
    by (simp add: head_parse_def stream_id_parse_def unpack_octets_4_def from_be_def kind_new_def STREAM_ID_MASK_def)
  have f: "frame_load \<lparr>head_kind = Kind_WindowUpdate, head_flag = 0, head_stream_id = 1\<rparr> (drop 6 ?raw) =
      Some (WindowUpdate_Frame \<lparr>wu_stream_id = 1, wu_size_increment = 5\<rparr>)"
    by (simp add: frame_load_def window_update_load_def unpack_octets_4_def from_be_def SIZE_INCREMENT_MASK_def)
  have "length ?raw < 2 ^ 24 + 6" by simp
  from accepted_frames_well_formed [OF h f this] h f show ?thesis by auto
qed

text \<open>
  C12: A sequence of valid frames, written one after another, is read back as that sequence, each frame cut out of the
  stream by its length field and loaded to the value it was written from.
\<close>

theorem frame_sequence_roundtrip:
  assumes "list_all frame_valid fs"
  shows "h2_frames.decode_many (length fs) (fold frame_encode fs [] @ rest) = (fs, rest)"
proof -
  have e: "frame_encode f dst = dst @ frame_encode f []" if "frame_valid f" for f dst
    using frame_encode_parts [OF that] by (auto simp: head_encode_def)
  have "fold frame_encode fs dst = dst @ h2_frames.enc_all (map (Pair ()) fs)" for dst
    using assms
  proof (induction fs arbitrary: dst)
    case (Cons f fs)
    then show ?case using e [of f dst] by simp
  qed simp
  then show ?thesis using h2_frames.decode_many_enc_all [of "map (Pair ()) fs" rest] assms by (auto simp: list_all_iff o_def)
qed

theorem frame_sequence_roundtrip_witness:
  "h2_frames.decode_many 2 (fold frame_encode [Settings_Frame settings_ack, Data_Frame \<lparr>da_stream_id = 1, da_data = [7], da_flags = 1, da_pad_len = None\<rparr>] [] @ [9]) =
     ([Settings_Frame settings_ack, Data_Frame \<lparr>da_stream_id = 1, da_data = [7], da_flags = 1, da_pad_len = None\<rparr>], [9])"
proof -
  have "list_all frame_valid [Settings_Frame settings_ack, Data_Frame \<lparr>da_stream_id = 1, da_data = [7], da_flags = 1, da_pad_len = None\<rparr>]"
    by (simp add: settings_ok_def sid_ok_def STREAM_ID_MASK_def DATA_FLAGS_def END_STREAM_def PADDED_def)
  from frame_sequence_roundtrip [OF this, of "[9]"] show ?thesis
    by (simp add: numeral_2_eq_2 del: h2_frames.decode_many.simps frame_encode.simps)
qed

end
