(* ===== verification/Robin_Hood.thy ===== *)
theory Robin_Hood
  imports Prelude "HOL-Library.Multiset"
begin

text \<open>
  The index of the encoder's header table in \<open>http/src/h2/proto/hpack/table.rs\<close>: an array of positions probed
  linearly in Robin-Hood order. This theory has the operations on the array alone; the macro \<open>probe_loop!\<close>, which
  goes round the array, is recursion with the number of turns as fuel, and no result means that the loop would not
  end, or that an \<open>unwrap\<close> fails.
\<close>

unbundle bit_operations_syntax

section \<open>Positions\<close>

record Pos =
  pos_index :: "64 word"
  pos_hash :: nat

type_synonym indices = "Pos option list"

definition wrapping_sub :: "nat \<Rightarrow> nat \<Rightarrow> nat" where
  "wrapping_sub a b = (a + 2 ^ 64 - b) mod 2 ^ 64"

definition desired_pos :: "nat \<Rightarrow> nat \<Rightarrow> nat" where
  "desired_pos m hash = hash AND m"

definition probe_distance :: "nat \<Rightarrow> nat \<Rightarrow> nat \<Rightarrow> nat" where
  "probe_distance m hash current = wrapping_sub current (desired_pos m hash) AND m"

text \<open>\<open>probe_loop!\<close>: a position beyond the end starts again at 0.\<close>

definition wrap :: "nat \<Rightarrow> nat \<Rightarrow> nat" where
  "wrap len probe = (if probe < len then probe else 0)"

section \<open>Operations\<close>

text \<open>The search of \<open>evict\<close> for the position of a slot.\<close>

fun find_pos :: "nat \<Rightarrow> indices \<Rightarrow> 64 word \<Rightarrow> nat \<Rightarrow> nat option" where
  "find_pos 0 ind pos_idx probe = None"
| "find_pos (Suc n) ind pos_idx probe =
     (let probe = wrap (length ind) probe in
      (case ind ! probe of
         None \<Rightarrow> None
       | Some pos \<Rightarrow> if pos_index pos = pos_idx then Some probe else find_pos n ind pos_idx (probe + 1)))"

fun remove_phase_two :: "nat \<Rightarrow> nat \<Rightarrow> indices \<Rightarrow> nat \<Rightarrow> nat \<Rightarrow> indices option" where
  "remove_phase_two 0 m ind last_probe probe = None"
| "remove_phase_two (Suc n) m ind last_probe probe =
     (let probe = wrap (length ind) probe in
      (case ind ! probe of
         Some pos \<Rightarrow>
           if probe_distance m (pos_hash pos) probe > 0
           then remove_phase_two n m (ind[probe := None, last_probe := ind ! probe]) probe (probe + 1)
           else Some ind
       | None \<Rightarrow> Some ind))"

text \<open>\<open>index_vacant\<close>: after evictions the entry may move back; the entry displaced by it moves forward, and so on.\<close>

fun step_back :: "nat \<Rightarrow> indices \<Rightarrow> nat \<Rightarrow> nat \<Rightarrow> nat \<times> nat" where
  "step_back m ind 0 probe = (0, probe)"
| "step_back m ind (Suc dist) probe =
     (let bk = wrapping_sub probe 1 AND m in
      (case ind ! bk of
         Some pos \<Rightarrow> if probe_distance m (pos_hash pos) bk < dist then step_back m ind dist bk else (Suc dist, probe)
       | None \<Rightarrow> step_back m ind dist bk))"

fun shift_forward_from :: "nat \<Rightarrow> indices \<Rightarrow> Pos \<Rightarrow> nat \<Rightarrow> indices option" where
  "shift_forward_from 0 ind prev probe = None"
| "shift_forward_from (Suc n) ind prev probe =
     (let probe = wrap (length ind) probe in
      (case ind ! probe of
         Some p \<Rightarrow> shift_forward_from n (ind[probe := Some prev]) p (probe + 1)
       | None \<Rightarrow> Some (ind[probe := Some prev])))"

definition place :: "indices \<Rightarrow> Pos \<Rightarrow> nat \<Rightarrow> indices option" where
  "place ind pos probe =
     (if probe < length ind then
        (case ind ! probe of
           None \<Rightarrow> Some (ind[probe := Some pos])
         | Some prev \<Rightarrow> shift_forward_from (length ind) (ind[probe := Some pos]) prev (probe + 1))
      else None)"

fun reinsert :: "nat \<Rightarrow> indices \<Rightarrow> Pos \<Rightarrow> nat \<Rightarrow> indices option" where
  "reinsert 0 ind pos probe = None"
| "reinsert (Suc n) ind pos probe =
     (let probe = wrap (length ind) probe in
      if ind ! probe = None then Some (ind[probe := Some pos]) else reinsert n ind pos (probe + 1))"

definition reinsert_entry_in_order :: "nat \<Rightarrow> Pos option \<Rightarrow> indices \<Rightarrow> indices option" where
  "reinsert_entry_in_order m pos ind =
     (case pos of Some pos \<Rightarrow> reinsert (length ind) ind pos (desired_pos m (pos_hash pos)) | None \<Rightarrow> Some ind)"

fun first_ideal :: "nat \<Rightarrow> nat \<Rightarrow> indices \<Rightarrow> nat" where
  "first_ideal m i [] = 0"
| "first_ideal m i (None # ps) = first_ideal m (i + 1) ps"
| "first_ideal m i (Some pos # ps) = (if 0 = probe_distance m (pos_hash pos) i then i else first_ideal m (i + 1) ps)"

fun reinsert_all :: "nat \<Rightarrow> indices \<Rightarrow> indices \<Rightarrow> indices option" where
  "reinsert_all m [] ind = Some ind"
| "reinsert_all m (pos # ps) ind =
     (case reinsert_entry_in_order m pos ind of None \<Rightarrow> None | Some ind \<Rightarrow> reinsert_all m ps ind)"

definition grow_indices :: "nat \<Rightarrow> indices \<Rightarrow> nat \<Rightarrow> indices option" where
  "grow_indices m ind new_raw_cap =
     (let f = first_ideal m 0 ind in
      reinsert_all (new_raw_cap - 1) (drop f ind @ take f ind) (replicate new_raw_cap None))"

section \<open>Distances\<close>

definition dd :: "nat \<Rightarrow> nat \<Rightarrow> nat \<Rightarrow> nat" where
  "dd cap h p = (if h mod cap \<le> p then p - h mod cap else p + cap - h mod cap)"

lemma and_mask_mod: "(x :: nat) AND (2 ^ k - 1) = x mod 2 ^ k"
  unfolding take_bit_eq_mod [symmetric] take_bit_eq_mask mask_eq_exp_minus_1 ..

lemma desired_pos_mod: "desired_pos (2 ^ k - 1) h = h mod 2 ^ k"
  unfolding desired_pos_def by (rule and_mask_mod)

lemma wrapping_sub_mod:
  assumes "k \<le> 64" and "b \<le> 2 ^ k"
  shows "wrapping_sub a b AND (2 ^ k - 1) = (a + 2 ^ k - b) mod 2 ^ k"
proof -
  obtain q where q: "(2 :: nat) ^ 64 = 2 ^ k * q" using assms(1) by (meson dvdE le_imp_power_dvd)
  have q1: "1 \<le> q" using q by (cases q) simp_all
  have "wrapping_sub a b AND (2 ^ k - 1) = (a + 2 ^ 64 - b) mod 2 ^ 64 mod 2 ^ k" unfolding wrapping_sub_def by (rule and_mask_mod)
  also have "\<dots> = (a + 2 ^ 64 - b) mod 2 ^ k" using assms(1) by (intro mod_mod_cancel le_imp_power_dvd)
  also have "a + 2 ^ 64 - b = (a + 2 ^ k - b) + 2 ^ k * (q - 1)"
  proof -
    have "2 ^ k * (q - 1) + 2 ^ k = (2 :: nat) ^ 64" using q q1 by (metis add.commute le_add_diff_inverse mult.right_neutral distrib_left)
    then show ?thesis using assms(2) by linarith
  qed
  finally show ?thesis by simp
qed

lemma dd_less: "p < cap \<Longrightarrow> dd cap h p < cap"
  by (auto simp: dd_def)

lemma probe_distance_dd:
  assumes "k \<le> 64" and "p < 2 ^ k"
  shows "probe_distance (2 ^ k - 1) h p = dd (2 ^ k) h p"
proof -
  have r: "h mod 2 ^ k < 2 ^ k" by simp
  have "probe_distance (2 ^ k - 1) h p = (p + 2 ^ k - h mod 2 ^ k) mod 2 ^ k"
    unfolding probe_distance_def desired_pos_mod using assms(1) by (intro wrapping_sub_mod) (simp_all add: less_imp_le)
  also have "\<dots> = dd (2 ^ k) h p"
  proof (cases "h mod 2 ^ k \<le> p")
    case True
    then have e: "p + 2 ^ k - h mod 2 ^ k = (p - h mod 2 ^ k) + 2 ^ k" using r by linarith
    show ?thesis unfolding e mod_add_self2 using True assms(2) by (simp add: dd_def less_imp_diff_less)
  next
    case False
    then have "p + 2 ^ k - h mod 2 ^ k < 2 ^ k" using r by linarith
    then show ?thesis using False by (simp add: dd_def)
  qed
  finally show ?thesis .
qed

text \<open>Neighbours on the ring of \<open>cap\<close> positions.\<close>

definition prv :: "nat \<Rightarrow> nat \<Rightarrow> nat" where
  "prv cap p = (if p = 0 then cap - 1 else p - 1)"

definition back_by :: "nat \<Rightarrow> nat \<Rightarrow> nat \<Rightarrow> nat" where
  "back_by cap p k = (if k \<le> p then p - k else p + cap - k)"

lemma ring_simps:
  "p < cap \<Longrightarrow> prv cap p < cap" "p < cap \<Longrightarrow> wrap cap (Suc p) < cap"
  "p < cap \<Longrightarrow> prv cap (wrap cap (Suc p)) = p" "p < cap \<Longrightarrow> wrap cap (Suc (prv cap p)) = p"
  "p < cap \<Longrightarrow> k < cap \<Longrightarrow> back_by cap p k < cap" "p < cap \<Longrightarrow> back_by cap p 0 = p"
  "p < cap \<Longrightarrow> Suc k < cap \<Longrightarrow> back_by cap p (Suc k) = prv cap (back_by cap p k)"
  by (auto simp: prv_def wrap_def back_by_def)

lemma dd_next: "p < cap \<Longrightarrow> dd cap h (wrap cap (Suc p)) = (if dd cap h p + 1 = cap then 0 else dd cap h p + 1)"
proof -
  assume p: "p < cap"
  obtain r where r: "h mod cap = r" "r < cap" using p by simp
  then show ?thesis using p unfolding dd_def wrap_def r(1) by auto
qed

lemma dd_prv: "p < cap \<Longrightarrow> 0 < dd cap h p \<Longrightarrow> dd cap h (prv cap p) = dd cap h p - 1"
proof -
  assume p: "p < cap" "0 < dd cap h p"
  obtain r where r: "h mod cap = r" "r < cap" using p by simp
  then show ?thesis using p unfolding dd_def prv_def r(1) by (auto split: if_splits)
qed

lemma back_by_dd: "p < cap \<Longrightarrow> back_by cap p (dd cap h p) = h mod cap"
proof -
  assume p: "p < cap"
  obtain r where r: "h mod cap = r" "r < cap" using p by simp
  then show ?thesis using p unfolding dd_def back_by_def r(1) by auto
qed

section \<open>Robin-Hood order\<close>

abbreviation away :: "indices \<Rightarrow> Pos \<Rightarrow> nat \<Rightarrow> nat" where
  "away ind x p \<equiv> dd (length ind) (pos_hash x) p"

text \<open>An entry away from its desired position has a neighbour before it that is at most one step closer to its own.\<close>

definition rh_at :: "indices \<Rightarrow> nat \<Rightarrow> bool" where
  "rh_at ind p \<longleftrightarrow> (\<forall>x. ind ! p = Some x \<longrightarrow> 0 < away ind x p \<longrightarrow>
     (\<exists>y. ind ! prv (length ind) p = Some y \<and> away ind x p \<le> away ind y (prv (length ind) p) + 1))"

definition rh :: "indices \<Rightarrow> bool" where
  "rh ind \<longleftrightarrow> (\<forall>p<length ind. rh_at ind p)"

lemma rhD:
  "rh ind \<Longrightarrow> p < length ind \<Longrightarrow> ind ! p = Some x \<Longrightarrow> 0 < away ind x p \<Longrightarrow>
     \<exists>y. ind ! prv (length ind) p = Some y \<and> away ind x p \<le> away ind y (prv (length ind) p) + 1"
  by (simp add: rh_def rh_at_def)

lemma rh_run:
  assumes "rh ind" and "p < length ind" and "ind ! p = Some x"
  shows "k \<le> away ind x p \<Longrightarrow>
    \<exists>y. ind ! back_by (length ind) p k = Some y \<and> away ind x p \<le> away ind y (back_by (length ind) p k) + k"
proof (induction k)
  case 0
  then show ?case using assms by (simp add: ring_simps)
next
  case (Suc k)
  let ?b = "back_by (length ind) p"
  from Suc obtain y where y: "ind ! ?b k = Some y" "away ind x p \<le> away ind y (?b k) + k" by auto
  have l: "away ind x p < length ind" by (rule dd_less [OF assms(2)])
  have b: "?b k < length ind" using Suc.prems l assms(2) by (simp add: ring_simps)
  have "0 < away ind y (?b k)" using y(2) Suc.prems by simp
  from rhD [OF assms(1) b y(1) this] y(2) show ?case using Suc.prems l assms(2) by (auto simp: ring_simps)
qed

lemma rh_room:
  assumes "rh ind" and "None \<in> set ind" and "p < length ind" and "ind ! p = Some x"
  shows "away ind x p + 1 < length ind"
proof -
  obtain q where q: "q < length ind" "ind ! q = None" using assms(2) by (metis in_set_conv_nth)
  define k where "k = (if q \<le> p then p - q else p + length ind - q)"
  have k: "back_by (length ind) p k = q" "k < length ind" using q(1) assms(3,4) q(2) by (auto simp: k_def back_by_def)
  have "away ind x p < k" using rh_run [OF assms(1,3,4), of k] k(1) q(2) by (cases "k \<le> away ind x p") auto
  then show ?thesis using k(2) by simp
qed

lemma find_pos_run:
  assumes "rh ind" and "p < length ind" and "ind ! p = Some x"
    and "\<forall>q y. q < length ind \<longrightarrow> ind ! q = Some y \<longrightarrow> pos_index y = pos_index x \<longrightarrow> q = p"
  shows "k \<le> away ind x p \<Longrightarrow> k < n \<Longrightarrow> wrap (length ind) b = back_by (length ind) p k \<Longrightarrow>
    find_pos n ind (pos_index x) b = Some p"
proof (induction k arbitrary: n b)
  case 0
  then show ?case using assms(2,3) by (cases n) (simp_all add: ring_simps)
next
  case (Suc k)
  obtain n' where n: "n = Suc n'" using Suc.prems(2) by (cases n) auto
  let ?b = "back_by (length ind) p (Suc k)"
  have l: "away ind x p < length ind" by (rule dd_less [OF assms(2)])
  have b: "?b < length ind" "back_by (length ind) p k < length ind" using Suc.prems(1) l assms(2) by (simp_all add: ring_simps)
  have nx: "wrap (length ind) (?b + 1) = back_by (length ind) p k"
    using Suc.prems(1) l b(2) assms(2) ring_simps(4) [OF b(2)] by (simp add: ring_simps)
  from rh_run [OF assms(1-3) Suc.prems(1)] obtain y where y: "ind ! ?b = Some y" by blast
  show ?case
  proof (cases "pos_index y = pos_index x")
    case True
    then have "?b = p" using assms(4) b(1) y by blast
    then show ?thesis using y n Suc.prems(3) True by simp
  next
    case False
    then show ?thesis using Suc.IH [of n' "?b + 1"] Suc.prems n nx y by simp
  qed
qed

lemma find_pos_ok:
  assumes "rh ind" and "p < length ind" and "ind ! p = Some x"
    and "\<forall>q y. q < length ind \<longrightarrow> ind ! q = Some y \<longrightarrow> pos_index y = pos_index x \<longrightarrow> q = p"
  shows "find_pos (length ind) ind (pos_index x) (pos_hash x mod length ind) = Some p"
proof -
  have "pos_hash x mod length ind < length ind" using assms(2) by (intro mod_less_divisor) linarith
  then have "wrap (length ind) (pos_hash x mod length ind) = back_by (length ind) p (away ind x p)"
    using back_by_dd [OF assms(2)] by (simp add: wrap_def)
  then show ?thesis by (rule find_pos_run [OF assms le_refl dd_less [OF assms(2)]])
qed

section \<open>Removing\<close>

text \<open>What a removal does to each position: empty ones stay empty and no entry gets further away.\<close>

definition closer :: "nat \<Rightarrow> indices \<Rightarrow> indices \<Rightarrow> bool" where
  "closer cap old new \<longleftrightarrow> length old = cap \<and> length new = cap \<and>
     (\<forall>q<cap. \<forall>y. new ! q = Some y \<longrightarrow> (\<exists>x. old ! q = Some x \<and> dd cap (pos_hash y) q \<le> dd cap (pos_hash x) q))"

lemma closer_trans: "closer cap a b \<Longrightarrow> closer cap b c \<Longrightarrow> closer cap a c"
  unfolding closer_def by (meson order_trans)

lemma mset_move:
  assumes "i < length xs" and "j < length xs" and "xs ! i = a" and "xs ! j = b"
  shows "mset (xs[i := b, j := a]) = mset xs"
proof (cases "i = j")
  case True
  then show ?thesis using assms by auto
next
  case False
  then show ?thesis using mset_swap [OF assms(1,2)] assms(3,4) by (simp add: list_update_swap)
qed

text \<open>The state of the loop: \<open>last\<close> is free, everything else is in order except perhaps the entry after it, which may
  take the free place.\<close>

definition gap :: "indices \<Rightarrow> nat \<Rightarrow> bool" where
  "gap ind l \<longleftrightarrow> l < length ind \<and> ind ! l = None \<and> (\<forall>p<length ind. p \<noteq> wrap (length ind) (l + 1) \<longrightarrow> rh_at ind p) \<and>
     (\<forall>x. ind ! wrap (length ind) (l + 1) = Some x \<longrightarrow> 1 < away ind x (wrap (length ind) (l + 1)) \<longrightarrow>
       (\<exists>y. ind ! prv (length ind) l = Some y \<and> away ind x (wrap (length ind) (l + 1)) \<le> away ind y (prv (length ind) l) + 2))"

lemma gap_closed:
  assumes "gap ind l" and "\<And>x. ind ! wrap (length ind) (l + 1) = Some x \<Longrightarrow> away ind x (wrap (length ind) (l + 1)) = 0"
  shows "rh ind"
  using assms unfolding rh_def gap_def by (metis less_not_refl rh_at_def)

lemma gap_move:
  assumes "gap ind l" and "2 < length ind" and "ind ! wrap (length ind) (l + 1) = Some x" and "0 < away ind x (wrap (length ind) (l + 1))"
  shows "gap (ind[wrap (length ind) (l + 1) := None, l := Some x]) (wrap (length ind) (l + 1))"
proof -
  let ?c = "length ind" and ?q = "wrap (length ind) (l + 1)" and ?r = "wrap (length ind) (wrap (length ind) (l + 1) + 1)"
  let ?i = "ind[?q := None, l := Some x]"
  have l: "l < ?c" "ind ! l = None" using assms(1) by (auto simp: gap_def)
  have q: "?q < ?c" "?r < ?c" "prv ?c ?q = l" "prv ?c ?r = ?q" using l(1) by (simp_all add: ring_simps)
  have ne: "?q \<noteq> l" "?r \<noteq> ?q" "?r \<noteq> l" "prv ?c l \<noteq> l" "prv ?c l \<noteq> ?q"
    using l(1) assms(2) by (auto simp: wrap_def prv_def)
  have dl: "away ind x l = away ind x ?q - 1" using dd_prv [OF q(1) assms(4)] q(3) by simp
  have "rh_at ?i p" if p: "p < ?c" "p \<noteq> ?r" for p
  proof (cases "p = l \<or> p = ?q")
    case True
    then show ?thesis
    proof
      assume "p = l"
      then show ?thesis using assms l q ne dl by (auto simp: rh_at_def gap_def)
    next
      assume "p = ?q"
      then show ?thesis using l q ne by (auto simp: rh_at_def)
    qed
  next
    case False
    then have "rh_at ind p" using assms(1) p by (auto simp: gap_def)
    moreover have "prv ?c p \<noteq> ?q" using p False l(1) assms(2) by (auto simp: wrap_def prv_def split: if_splits)
    moreover have "prv ?c p \<noteq> l" using p False l(1) assms(2) by (auto simp: wrap_def prv_def split: if_splits)
    ultimately show ?thesis using False by (auto simp: rh_at_def)
  qed
  moreover have "\<exists>y. ?i ! prv ?c ?q = Some y \<and> away ind z ?r \<le> away ind y (prv ?c ?q) + 2"
    if z: "ind ! ?r = Some z" "1 < away ind z ?r" for z
  proof -
    have "rh_at ind ?r" using assms(1) q ne by (simp add: gap_def)
    then have "away ind z ?r \<le> away ind x ?q + 1" using z q(4) assms(3) by (auto simp: rh_at_def)
    then show ?thesis using l q ne dl by simp
  qed
  ultimately show ?thesis using l q ne by (auto simp: gap_def)
qed

definition fwd_by :: "nat \<Rightarrow> nat \<Rightarrow> nat \<Rightarrow> nat" where
  "fwd_by cap p j = (if p + j < cap then p + j else p + j - cap)"

lemma fwd_by_simps:
  "p < cap \<Longrightarrow> j < cap \<Longrightarrow> fwd_by cap p j < cap" "p < cap \<Longrightarrow> fwd_by cap p 0 = p"
  "p < cap \<Longrightarrow> Suc j < cap \<Longrightarrow> fwd_by cap (wrap cap (Suc p)) j = fwd_by cap p (Suc j)"
  "p < cap \<Longrightarrow> 0 < j \<Longrightarrow> j < cap \<Longrightarrow> fwd_by cap p j \<noteq> p"
  by (auto simp: fwd_by_def wrap_def)

lemma fwd_by_wrap: "p < cap \<Longrightarrow> fwd_by cap p 1 = wrap cap (Suc p)"
  by (auto simp: fwd_by_def wrap_def)

lemma fwd_by_exists: "p < cap \<Longrightarrow> q < cap \<Longrightarrow> \<exists>j<cap. fwd_by cap p j = q"
  by (rule exI [of _ "if p \<le> q then q - p else q + cap - p"]) (auto simp: fwd_by_def)

lemma remove_phase_two_ok:
  assumes "length ind = 2 ^ k" and "k \<le> 64" and "2 < length ind"
  shows "gap ind l \<Longrightarrow> 0 < j \<Longrightarrow> j < length ind \<Longrightarrow> j \<le> n \<Longrightarrow> ind ! fwd_by (length ind) l j = None \<Longrightarrow>
    closer (length ind) ind0 ind \<Longrightarrow> ind0 ! l = Some x0 \<Longrightarrow>
    (\<And>x. ind ! wrap (length ind) (Suc l) = Some x \<Longrightarrow> away ind x (wrap (length ind) (Suc l)) \<le> away ind x0 l + 1) \<Longrightarrow>
    \<exists>ind'. remove_phase_two n (2 ^ k - 1) ind l (Suc l) = Some ind' \<and> rh ind' \<and> mset ind' = mset ind \<and> closer (length ind) ind0 ind'"
  using assms
proof (induction n arbitrary: ind l j x0)
  case (Suc n)
  let ?c = "length ind" and ?q = "wrap (length ind) (Suc l)"
  note gp = Suc.prems(1) and cl = Suc.prems(6) and len = Suc.prems(9-11)
  have l: "l < ?c" "ind ! l = None" using gp by (auto simp: gap_def)
  have q: "?q < ?c" using l(1) by (simp add: ring_simps)
  have pd: "probe_distance (2 ^ k - 1) (pos_hash x) ?q = away ind x ?q" for x
    using probe_distance_dd [OF len(2)] q len(1) by simp
  show ?case
  proof (cases "\<exists>x. ind ! ?q = Some x \<and> 0 < away ind x ?q")
    case False
    then have "rh ind" using gap_closed [OF gp] by auto
    then show ?thesis using False cl pd by (cases "ind ! ?q") (auto simp: Let_def)
  next
    case True
    then obtain x where x: "ind ! ?q = Some x" "0 < away ind x ?q" by blast
    let ?i = "ind[?q := None, l := Some x]"
    have ne: "?q \<noteq> l" using l(1) len(3) by (auto simp: wrap_def)
    have g': "gap ?i ?q" using gap_move [OF gp len(3)] x by simp
    have j1: "j \<noteq> 1" using Suc.prems(5) x(1) fwd_by_wrap [OF l(1)] by auto
    then obtain j' where j: "j = Suc j'" "0 < j'" using Suc.prems(2) by (cases j) auto
    have fw: "fwd_by ?c ?q j' = fwd_by ?c l j" "fwd_by ?c l j \<noteq> l" "fwd_by ?c l j \<noteq> ?q" "fwd_by ?c l j < ?c"
      using fwd_by_simps(3) [OF l(1), of j'] fwd_by_simps(4) [OF l(1), of j] fwd_by_simps(4) [OF q, of j'] fwd_by_simps(1) [OF l(1)]
        j Suc.prems(3) by auto
    have dl: "away ind x l = away ind x ?q - 1" using dd_prv [OF q x(2)] l(1) by (simp add: ring_simps)
    have cl': "closer ?c ind0 ?i"
      using cl Suc.prems(7) Suc.prems(8) [OF x(1)] dl x(2) l(1) q ne by (auto simp: closer_def nth_list_update)
    obtain x1 where x1: "ind0 ! ?q = Some x1" "away ind x ?q \<le> away ind x1 ?q" using cl x(1) q by (auto simp: closer_def)
    have "wrap ?c (Suc ?q) \<noteq> ?q" "wrap ?c (Suc ?q) < ?c" using l(1) len(3) by (auto simp: wrap_def)
    then have r: "rh_at ind (wrap ?c (Suc ?q))" using gp by (simp add: gap_def)
    have nx: "away ind z (wrap ?c (Suc ?q)) \<le> away ind x1 ?q + 1" if "?i ! wrap ?c (Suc ?q) = Some z" for z
    proof -
      have "wrap ?c (Suc ?q) \<noteq> ?q" "wrap ?c (Suc ?q) \<noteq> l" using l(1) len(3) by (auto simp: wrap_def)
      then have "ind ! wrap ?c (Suc ?q) = Some z" using that by simp
      then show ?thesis using r x(1) x1(2) q by (cases "away ind z (wrap ?c (Suc ?q)) = 0") (auto simp: rh_at_def ring_simps)
    qed
    have "\<exists>ind'. remove_phase_two n (2 ^ k - 1) ?i ?q (Suc ?q) = Some ind' \<and> rh ind' \<and> mset ind' = mset ?i \<and> closer (length ?i) ind0 ind'"
      using g' j fw Suc.prems(3,4,5) cl' x1(1) nx len by (intro Suc.IH [of ?i ?q j' x1]) simp_all
    moreover have "mset ?i = mset ind" using mset_move [of ?q ind l "Some x" None] q l x(1) by simp
    ultimately show ?thesis using x pd by (auto simp: Let_def)
  qed
qed simp

lemma remove_ok:
  assumes "length ind = 2 ^ k" and "k \<le> 64" and "2 < length ind" and "rh ind" and "None \<in> set ind"
    and "p < length ind" and "ind ! p = Some x0"
  shows "\<exists>ind'. remove_phase_two (length ind) (2 ^ k - 1) (ind[p := None]) p (Suc p) = Some ind' \<and> rh ind' \<and>
    mset ind' = mset (ind[p := None]) \<and> closer (length ind) ind ind'"
proof -
  let ?c = "length ind" and ?i = "ind[p := None]" and ?q = "wrap (length ind) (Suc p)"
  have q: "?q < ?c" "?q \<noteq> p" "prv ?c ?q = p" "prv ?c p \<noteq> p"
    using assms(3,6) by (auto simp: ring_simps) (auto simp: wrap_def prv_def split: if_splits)
  have at: "rh_at ind r" if "r < ?c" for r using assms(4) that by (simp add: rh_def)
  have nx: "away ind x ?q \<le> away ind x0 p + 1" if "ind ! ?q = Some x" for x
    using at [OF q(1)] that assms(7) q(3) by (cases "away ind x ?q = 0") (auto simp: rh_at_def)
  have "rh_at ?i r" if "r < ?c" "r \<noteq> ?q" for r
  proof (cases "r = p")
    case False
    then have "prv ?c r \<noteq> p" using that assms(6) ring_simps(4) [of r ?c] by auto
    then show ?thesis using at [OF that(1)] False by (auto simp: rh_at_def)
  qed (use assms(6) in \<open>simp add: rh_at_def\<close>)
  moreover have "\<exists>y. ind ! prv ?c p = Some y \<and> away ind x ?q \<le> away ind y (prv ?c p) + 2"
    if "ind ! ?q = Some x" "1 < away ind x ?q" for x
    using at [OF assms(6)] nx [OF that(1)] that(2) assms(7) by (fastforce simp: rh_at_def)
  ultimately have g: "gap ?i p" using q assms(6) by (auto simp: gap_def)
  obtain r where r: "r < ?c" "ind ! r = None" using assms(5) by (metis in_set_conv_nth)
  obtain j where j: "j < ?c" "fwd_by ?c p j = r" using fwd_by_exists [OF assms(6) r(1)] by blast
  have "0 < j" using j(2) r(2) assms(6,7) by (cases j) (auto simp: fwd_by_simps)
  moreover have "closer ?c ind ?i" using assms(6) by (auto simp: closer_def nth_list_update)
  moreover have "?i ! r = None" using r assms(6) by (simp add: nth_list_update)
  ultimately show ?thesis
    using remove_phase_two_ok [of ?i k p j ?c ind x0] g j assms(1,2,3,7) q nx by auto
qed

section \<open>Placing\<close>

definition fits :: "indices \<Rightarrow> Pos \<Rightarrow> nat \<Rightarrow> bool" where
  "fits ind x q \<longleftrightarrow> q < length ind \<and>
     (0 < away ind x q \<longrightarrow> (\<exists>y. ind ! prv (length ind) q = Some y \<and> away ind x q \<le> away ind y (prv (length ind) q) + 1)) \<and>
     (\<forall>y. ind ! q = Some y \<longrightarrow> away ind y q \<le> away ind x q)"

lemma fits_rh:
  assumes "rh ind" and "fits ind x q" and "2 < length ind"
  shows "rh (ind[q := Some x])"
proof -
  let ?c = "length ind"
  have q: "q < ?c" "prv ?c q \<noteq> q" using assms(2,3) by (auto simp: fits_def prv_def)
  have "rh_at (ind[q := Some x]) p" if p: "p < ?c" for p
  proof (cases "p = q")
    case True
    then show ?thesis using assms(2) q by (auto simp: rh_at_def fits_def)
  next
    case False
    have at: "rh_at ind p" using assms(1) p by (simp add: rh_def)
    show ?thesis
    proof (cases "prv ?c p = q")
      case True
      have "away ind z p \<le> away ind x q + 1" if z: "ind ! p = Some z" "0 < away ind z p" for z
      proof -
        obtain y where "ind ! q = Some y" "away ind z p \<le> away ind y q + 1" using at z True by (auto simp: rh_at_def)
        then show ?thesis using assms(2) by (auto simp: fits_def)
      qed
      then show ?thesis using True False q by (auto simp: rh_at_def)
    next
      case no: False
      then show ?thesis using at False by (auto simp: rh_at_def)
    qed
  qed
  then show ?thesis by (simp add: rh_def)
qed

lemma fits_next:
  assumes "rh ind" and "fits ind x q" and "2 < length ind" and "None \<in> set ind" and "ind ! q = Some y"
  shows "fits (ind[q := Some x]) y (wrap (length ind) (Suc q))"
proof -
  let ?c = "length ind" and ?r = "wrap (length ind) (Suc q)"
  have q: "q < ?c" "away ind y q \<le> away ind x q" using assms(2,5) by (auto simp: fits_def)
  have r: "?r < ?c" "prv ?c ?r = q" "?r \<noteq> q" using q(1) assms(3) by (auto simp: ring_simps) (auto simp: wrap_def split: if_splits)
  have "away ind y q + 1 < ?c" by (rule rh_room [OF assms(1,4) q(1) assms(5)])
  then have d: "away ind y ?r = away ind y q + 1" using dd_next [OF q(1)] by simp
  have "away ind z ?r \<le> away ind y q + 1" if "ind ! ?r = Some z" for z
    using rhD [OF assms(1) r(1) that] r(2) assms(5) by (cases "away ind z ?r = 0") auto
  then show ?thesis using q r d by (auto simp: fits_def)
qed

lemma mset_replace:
  assumes "i < length xs" and "xs ! i = a"
  shows "add_mset a (mset (xs[i := b])) = add_mset b (mset xs)"
proof -
  have "a \<in># mset xs" using assms nth_mem by fastforce
  then show ?thesis using assms by (simp add: mset_update add_mset_commute)
qed

lemma shift_forward_from_ok:
  "rh ind \<Longrightarrow> fits ind x (wrap (length ind) q) \<Longrightarrow> 2 < length ind \<Longrightarrow>
     ind ! fwd_by (length ind) (wrap (length ind) q) j = None \<Longrightarrow> j < length ind \<Longrightarrow> j < n \<Longrightarrow>
     \<exists>ind'. shift_forward_from n ind x q = Some ind' \<and> rh ind' \<and> length ind' = length ind \<and>
       add_mset None (mset ind') = add_mset (Some x) (mset ind)"
proof (induction n arbitrary: ind x q j)
  case (Suc n)
  let ?c = "length ind" and ?q = "wrap (length ind) q"
  have q: "?q < ?c" using Suc.prems(2) by (simp add: fits_def)
  have no: "None \<in> set ind" using Suc.prems(4) fwd_by_simps(1) [OF q Suc.prems(5)] by (metis nth_mem)
  have r: "rh (ind[?q := Some x])" by (rule fits_rh [OF Suc.prems(1-3)])
  show ?case
  proof (cases "ind ! ?q")
    case None
    then show ?thesis using r q mset_replace [OF q None] by auto
  next
    case (Some y)
    then obtain j' where j: "j = Suc j'" using Suc.prems(4) q by (cases j) (auto simp: fwd_by_simps)
    let ?r = "wrap ?c (Suc ?q)"
    have f: "fwd_by ?c ?r j' = fwd_by ?c ?q j" "fwd_by ?c ?q j \<noteq> ?q"
      using fwd_by_simps(3) [OF q, of j'] fwd_by_simps(4) [OF q, of j] j Suc.prems(5) by auto
    have w: "wrap ?c (?q + 1) = ?r" by simp
    obtain ind' where "shift_forward_from n (ind[?q := Some x]) y (?q + 1) = Some ind'" "rh ind'" "length ind' = ?c"
      "add_mset None (mset ind') = add_mset (Some y) (mset (ind[?q := Some x]))"
      using Suc.IH [of "ind[?q := Some x]" y "?q + 1" j'] r fits_next [OF Suc.prems(1-3) no Some] Suc.prems(3-6) f j by auto
    then show ?thesis using Some mset_replace [OF q Some] by auto
  qed
qed simp

lemma place_ok:
  assumes "rh ind" and "fits ind x q" and "2 < length ind" and "None \<in> set ind"
  shows "\<exists>ind'. place ind x q = Some ind' \<and> rh ind' \<and> length ind' = length ind \<and> add_mset None (mset ind') = add_mset (Some x) (mset ind)"
proof (cases "ind ! q")
  case None
  then show ?thesis using assms fits_rh mset_replace [OF _ None] by (auto simp: place_def fits_def)
next
  case (Some y)
  let ?c = "length ind" and ?r = "wrap (length ind) (Suc q)"
  have q: "q < ?c" using assms(2) by (simp add: fits_def)
  obtain s where s: "s < ?c" "ind ! s = None" using assms(4) by (metis in_set_conv_nth)
  have "?r < ?c" using q by (simp add: ring_simps)
  then obtain j where j: "j < ?c" "fwd_by ?c ?r j = s" using fwd_by_exists s(1) by blast
  have "s \<noteq> q" using s(2) Some by auto
  then have "\<exists>ind'. shift_forward_from ?c (ind[q := Some x]) y (Suc q) = Some ind' \<and> rh ind' \<and> length ind' = length (ind[q := Some x]) \<and>
       add_mset None (mset ind') = add_mset (Some y) (mset (ind[q := Some x]))"
    using fits_rh [OF assms(1-3)] fits_next [OF assms Some] assms(3) j s by (intro shift_forward_from_ok [of _ _ _ j]) simp_all
  then show ?thesis using Some q mset_replace [OF q Some, of "Some x"] by (auto simp: place_def)
qed

lemma step_back_ok:
  assumes "length ind = 2 ^ k" and "k \<le> 64"
  shows "probe < length ind \<Longrightarrow> dd (length ind) (pos_hash x) probe = dist \<Longrightarrow>
    (\<And>y. ind ! probe = Some y \<Longrightarrow> away ind y probe \<le> dist) \<Longrightarrow> fits ind x (snd (step_back (2 ^ k - 1) ind dist probe))"
proof (induction dist arbitrary: probe)
  case 0
  then show ?case by (auto simp: fits_def)
next
  case (Suc dist)
  let ?b = "prv (length ind) probe"
  have p: "?b < length ind" using Suc.prems(1) by (simp add: ring_simps)
  have "wrapping_sub probe 1 AND (2 ^ k - 1) = (probe + 2 ^ k - 1) mod 2 ^ k" using assms(2) by (intro wrapping_sub_mod) simp_all
  also have "\<dots> = ?b"
  proof (cases probe)
    case (Suc q)
    then have "probe + 2 ^ k - 1 = q + 2 ^ k" by simp
    then show ?thesis using Suc Suc.prems(1) assms(1) by (simp only: mod_add_self2) (simp add: prv_def)
  qed (simp add: prv_def assms(1))
  finally have b: "wrapping_sub probe 1 AND (2 ^ k - 1) = ?b" .
  have d: "dd (length ind) (pos_hash x) ?b = dist" using dd_prv [OF Suc.prems(1)] Suc.prems(2) by simp
  have pd: "probe_distance (2 ^ k - 1) (pos_hash y) ?b = away ind y ?b" for y
    using probe_distance_dd [OF assms(2)] p assms(1) by simp
  show ?case
  proof (cases "\<exists>y. ind ! ?b = Some y \<and> \<not> away ind y ?b < dist")
    case True
    then show ?thesis using Suc.prems b pd by (auto simp: fits_def Let_def simp del: One_nat_def)
  next
    case False
    then have "step_back (2 ^ k - 1) ind (Suc dist) probe = step_back (2 ^ k - 1) ind dist ?b"
      using b pd by (auto simp: Let_def split: option.splits simp del: One_nat_def)
    then show ?thesis using Suc.IH [OF p d] False by fastforce
  qed
qed

section \<open>Growing\<close>

definition live :: "indices \<Rightarrow> Pos option multiset" where
  "live ind = filter_mset (\<lambda>x. x \<noteq> None) (mset ind)"

lemma live_place: "add_mset None (mset ind') = add_mset (Some x) (mset ind) \<Longrightarrow> live ind' = add_mset (Some x) (live ind)"
  unfolding live_def by (metis (mono_tags, lifting) filter_mset_add_mset option.distinct(1))

lemma reinsert_run:
  "p < length ind \<Longrightarrow> d < length ind \<Longrightarrow> d < n \<Longrightarrow> (\<forall>i<d. ind ! fwd_by (length ind) p i \<noteq> None) \<Longrightarrow>
     ind ! fwd_by (length ind) p d = None \<Longrightarrow> wrap (length ind) b = p \<Longrightarrow>
     reinsert n ind x b = Some (ind[fwd_by (length ind) p d := Some x])"
proof (induction d arbitrary: p n b)
  case 0
  then show ?case by (cases n) (auto simp: fwd_by_simps)
next
  case (Suc d)
  then obtain n' where n: "n = Suc n'" by (cases n) auto
  let ?q = "wrap (length ind) (Suc p)"
  have "ind ! p \<noteq> None" using Suc.prems(1,4) by (auto simp: fwd_by_simps dest: spec [of _ 0])
  moreover have f: "fwd_by (length ind) ?q i = fwd_by (length ind) p (Suc i)" if "i \<le> d" for i
    using that Suc.prems(1,2) by (intro fwd_by_simps) simp_all
  then have "reinsert n' ind x (p + 1) = Some (ind[fwd_by (length ind) ?q d := Some x])"
    using Suc.prems n by (intro Suc.IH) (simp_all add: ring_simps)
  ultimately show ?case using n Suc.prems(6) f by auto
qed

lemma dd_fwd: "d < cap \<Longrightarrow> dd cap h (fwd_by cap (h mod cap) d) = d"
proof -
  assume d: "d < cap"
  obtain r where r: "h mod cap = r" "r < cap" using d by simp
  then show ?thesis using d unfolding dd_def fwd_by_def r(1) by auto
qed

lemma fwd_by_add: "p < cap \<Longrightarrow> a + b < cap \<Longrightarrow> fwd_by cap (fwd_by cap p a) b = fwd_by cap p (a + b)"
  by (auto simp: fwd_by_def)

lemma prv_fwd: "p < cap \<Longrightarrow> Suc j < cap \<Longrightarrow> prv cap (fwd_by cap p (Suc j)) = fwd_by cap p j"
  by (auto simp: fwd_by_def prv_def)

lemma back_fwd: "a \<le> j \<Longrightarrow> j < cap \<Longrightarrow> p < cap \<Longrightarrow> back_by cap (fwd_by cap p j) a = fwd_by cap p (j - a)"
  by (auto simp: back_by_def fwd_by_def)

text \<open>The entries of the old array in the order of \<open>grow\<close>, from an ideally placed one on: the distance is at most the
  offset, and the desired offsets ascend.\<close>

definition desired_off :: "indices \<Rightarrow> nat \<Rightarrow> nat \<Rightarrow> nat" where
  "desired_off ind f j = (case ind ! fwd_by (length ind) f j of Some x \<Rightarrow> j - away ind x (fwd_by (length ind) f j) | None \<Rightarrow> j)"

lemma off_step:
  assumes "rh ind" and "f < length ind" and "Suc j < length ind" and "ind ! fwd_by (length ind) f (Suc j) = Some x"
    and "0 < away ind x (fwd_by (length ind) f (Suc j))"
  shows "\<exists>y. ind ! fwd_by (length ind) f j = Some y \<and>
    away ind x (fwd_by (length ind) f (Suc j)) \<le> away ind y (fwd_by (length ind) f j) + 1"
  using rhD [OF assms(1) _ assms(4,5)] prv_fwd [OF assms(2,3)] assms(2,3) by (simp add: fwd_by_simps)

lemma off_dist:
  assumes "rh ind" and "f < length ind" and "\<And>x. ind ! f = Some x \<Longrightarrow> away ind x f = 0"
  shows "j < length ind \<Longrightarrow> ind ! fwd_by (length ind) f j = Some x \<Longrightarrow> away ind x (fwd_by (length ind) f j) \<le> j"
proof (induction j arbitrary: x)
  case 0
  then show ?case using assms(2,3) by (simp add: fwd_by_simps)
next
  case (Suc j)
  show ?case
  proof (cases "away ind x (fwd_by (length ind) f (Suc j)) = 0")
    case False
    then obtain y where "ind ! fwd_by (length ind) f j = Some y"
      "away ind x (fwd_by (length ind) f (Suc j)) \<le> away ind y (fwd_by (length ind) f j) + 1"
      using off_step [OF assms(1,2) Suc.prems] by blast
    then show ?thesis using Suc.IH [of y] Suc.prems(1) by simp
  qed simp
qed

lemma desired_off_mono:
  assumes "rh ind" and "f < length ind" and "\<And>x. ind ! f = Some x \<Longrightarrow> away ind x f = 0"
  shows "i \<le> j \<Longrightarrow> j < length ind \<Longrightarrow> ind ! fwd_by (length ind) f i \<noteq> None \<Longrightarrow> ind ! fwd_by (length ind) f j \<noteq> None \<Longrightarrow>
    desired_off ind f i \<le> desired_off ind f j"
proof (induction j)
  case (Suc j)
  obtain x where x: "ind ! fwd_by (length ind) f (Suc j) = Some x" using Suc.prems(4) by blast
  show ?case
  proof (cases "i = Suc j \<or> away ind x (fwd_by (length ind) f (Suc j)) = 0")
    case True
    then show ?thesis using x Suc.prems(1) by (auto simp: desired_off_def split: option.splits)
  next
    case False
    then obtain y where y: "ind ! fwd_by (length ind) f j = Some y"
      "away ind x (fwd_by (length ind) f (Suc j)) \<le> away ind y (fwd_by (length ind) f j) + 1"
      using off_step [OF assms(1,2) Suc.prems(2) x] by blast
    have "desired_off ind f i \<le> desired_off ind f j" using Suc False y(1) by simp
    also have "\<dots> \<le> desired_off ind f (Suc j)" using x y by (simp add: desired_off_def)
    finally show ?thesis .
  qed
qed simp

lemma new_desired:
  assumes "f < cap" and "d < cap" and "h mod cap = fwd_by cap f d"
  shows "\<exists>c<2. h mod (2 * cap) = fwd_by (2 * cap) f (c * cap + d)"
proof -
  have "h mod (2 * cap) = h mod cap + cap * (h div cap mod 2)" using mod_mult2_eq [of h cap 2] by (simp add: mult.commute)
  moreover have "h div cap mod 2 = 0 \<or> h div cap mod 2 = 1" by auto
  ultimately have "h mod (2 * cap) = fwd_by cap f d \<or> h mod (2 * cap) = fwd_by cap f d + cap" using assms(3) by auto
  then have "h mod (2 * cap) = fwd_by (2 * cap) f d \<or> h mod (2 * cap) = fwd_by (2 * cap) f (cap + d)"
    using assms(1,2) by (auto simp: fwd_by_def)
  then show ?thesis by (auto intro: exI [of _ 0] exI [of _ 1])
qed

text \<open>The new array while the first \<open>j\<close> entries have been moved: it has two halves for the entries with the two values
  of the new bit of the hash, each filled from the left.\<close>

definition moving :: "indices \<Rightarrow> nat \<Rightarrow> nat \<Rightarrow> indices \<Rightarrow> bool" where
  "moving ind f j A \<longleftrightarrow> length A = 2 * length ind \<and> rh A \<and>
     (\<forall>c<2. \<forall>u<length ind. \<forall>x. A ! fwd_by (2 * length ind) f (c * length ind + u) = Some x \<longrightarrow>
        u < j \<and> away A x (fwd_by (2 * length ind) f (c * length ind + u)) \<le> u \<and>
        (\<forall>i. j \<le> i \<longrightarrow> i < length ind \<longrightarrow> ind ! fwd_by (length ind) f i \<noteq> None \<longrightarrow>
           u - away A x (fwd_by (2 * length ind) f (c * length ind + u)) \<le> desired_off ind f i))"

lemma movingD:
  assumes "moving ind f j A" and "c < 2" and "u < length ind" and "A ! fwd_by (2 * length ind) f (c * length ind + u) = Some x"
  shows "u < j \<and> away A x (fwd_by (2 * length ind) f (c * length ind + u)) \<le> u \<and>
    (\<forall>i. j \<le> i \<longrightarrow> i < length ind \<longrightarrow> ind ! fwd_by (length ind) f i \<noteq> None \<longrightarrow>
       u - away A x (fwd_by (2 * length ind) f (c * length ind + u)) \<le> desired_off ind f i)"
  using assms unfolding moving_def by blast

lemma moving_skip: "moving ind f j A \<Longrightarrow> moving ind f (Suc j) A"
  unfolding moving_def by (metis Suc_leD less_Suc_eq)

lemma half_inj:
  assumes "f < cap" and "c < 2" and "c' < 2" and "u < cap" and "u' < cap"
    and "fwd_by (2 * cap) f (c * cap + u) = fwd_by (2 * cap) f (c' * cap + u')"
  shows "c = c' \<and> u = u'"
proof -
  have "c = 0 \<or> c = 1" "c' = 0 \<or> c' = 1" using assms(2,3) by auto
  then show ?thesis using assms(1,4-6) by (auto simp: fwd_by_def split: if_splits)
qed

lemma half_less:
  assumes "f < cap" and "c < 2" and "u < cap"
  shows "fwd_by (2 * cap) f (c * cap + u) < 2 * cap"
proof -
  have "c = 0 \<or> c = 1" using assms(2) by auto
  then show ?thesis using assms(1,3) by (auto simp: fwd_by_def)
qed

lemma moving_put:
  assumes mv: "moving ind f j A" and rh: "rh ind" and f: "f < length ind" and ideal: "\<And>x. ind ! f = Some x \<Longrightarrow> away ind x f = 0"
    and j: "j < length ind" and x: "ind ! fwd_by (length ind) f j = Some x" and cap: "2 < length ind"
  shows "\<exists>A'. reinsert (length A) A x (pos_hash x mod length A) = Some A' \<and> moving ind f (Suc j) A' \<and> live A' = add_mset (Some x) (live A)"
proof -
  let ?n = "length ind" and ?F = "fwd_by (2 * length ind) f" and ?p = "fwd_by (length ind) f j"
  have len: "length A = 2 * ?n" using mv by (simp add: moving_def)
  define d where "d = desired_off ind f j"
  have a: "away ind x ?p \<le> j" by (rule off_dist [OF rh f ideal j x])
  have d: "d = j - away ind x ?p" "d \<le> j" using x by (simp_all add: d_def desired_off_def)
  have "pos_hash x mod ?n = fwd_by ?n f d"
  proof -
    have "pos_hash x mod ?n = back_by ?n ?p (away ind x ?p)" using back_by_dd [of ?p ?n] f j by (simp add: fwd_by_simps)
    then show ?thesis using back_fwd [OF a j f] d(1) by simp
  qed
  moreover have dn: "d < ?n" using d(2) j by simp
  ultimately obtain c where c: "c < 2" "pos_hash x mod (2 * ?n) = ?F (c * ?n + d)" using new_desired [OF f] by blast
  have cn: "c * ?n + u < 2 * ?n" if "u < ?n" for u
  proof -
    have "c = 0 \<or> c = 1" using c(1) by auto
    then show ?thesis using that by auto
  qed
  define e where "e = (LEAST e. d \<le> e \<and> A ! ?F (c * ?n + e) = None)"
  have "d \<le> j \<and> A ! ?F (c * ?n + j) = None"
    using movingD [OF mv c(1) j] d(2) by (cases "A ! ?F (c * ?n + j)") auto
  then have e: "d \<le> e" "A ! ?F (c * ?n + e) = None" "e \<le> j"
    unfolding e_def by (metis (mono_tags, lifting) LeastI_ex, metis (mono_tags, lifting) LeastI_ex, blast intro: Least_le)
  have below: "A ! ?F (c * ?n + i) \<noteq> None" if "d \<le> i" "i < e" for i
    using that not_less_Least [of i "\<lambda>e. d \<le> e \<and> A ! ?F (c * ?n + e) = None"] unfolding e_def by auto
  let ?P = "?F (c * ?n + e)"
  have P: "?P < length A" "fwd_by (length A) (?F (c * ?n + d)) (e - d) = ?P"
    using len f e j cn [of e] fwd_by_add [of f "2 * ?n" "c * ?n + d" "e - d"] fwd_by_simps(1) [of f "2 * ?n" "c * ?n + e"]
    by simp_all
  have re: "reinsert (length A) A x (pos_hash x mod length A) = Some (A[?P := Some x])"
  proof -
    have "A ! fwd_by (length A) (?F (c * ?n + d)) i \<noteq> None" if "i < e - d" for i
      using below [of "d + i"] that fwd_by_add [of f "2 * ?n" "c * ?n + d" i] len f e j cn [of "d + i"] by (simp add: add.assoc)
    then show ?thesis
      using reinsert_run [of "?F (c * ?n + d)" A "e - d" "length A"] P e c(2) len f j cn [OF dn] fwd_by_simps(1) [of f "2 * ?n" "c * ?n + d"]
      by (simp add: wrap_def)
  qed
  have dx: "away A x ?P = e - d" using dd_fwd [of "e - d" "length A" "pos_hash x"] c(2) P(2) len e j by simp
  have fit: "fits A x ?P"
  proof -
    have "\<exists>y. A ! prv (length A) ?P = Some y \<and> e - d \<le> away A y (prv (length A) ?P) + 1" if "d < e"
    proof -
      obtain e' where e': "e = Suc e'" "d \<le> e'" using \<open>d < e\<close> by (cases e) auto
      have pv: "prv (length A) ?P = ?F (c * ?n + e')" using prv_fwd [of f "2 * ?n" "c * ?n + e'"] len f e e' j cn [of e] by simp
      obtain y where y: "A ! ?F (c * ?n + e') = Some y" using below [of e'] e' by auto
      have "e' < ?n" using e' e(3) j by simp
      from movingD [OF mv c(1) this y] have "e' - away A y (?F (c * ?n + e')) \<le> desired_off ind f j" using j x by blast
      then show ?thesis using y pv e' by (simp add: d_def)
    qed
    then show ?thesis using P e(2) dx by (auto simp: fits_def)
  qed
  have "moving ind f (Suc j) (A[?P := Some x])"
    unfolding moving_def
  proof (intro conjI allI impI)
    show "rh (A[?P := Some x])" using fits_rh [OF _ fit] mv len cap by (simp add: moving_def)
    fix c' u y assume cu: "c' < 2" "u < ?n" and y: "A[?P := Some x] ! ?F (c' * ?n + u) = Some y"
    have *: "(c' = c \<and> u = e \<and> y = x) \<or> (A ! ?F (c' * ?n + u) = Some y)"
      using half_inj [OF f cu(1) c(1) cu(2), of e] e(3) j y P(1) by (cases "?F (c' * ?n + u) = ?P") auto
    show "u < Suc j" "away (A[?P := Some x]) y (?F (c' * ?n + u)) \<le> u" using * movingD [OF mv cu] e dx by auto
    fix i assume i: "Suc j \<le> i" "i < ?n" "ind ! fwd_by ?n f i \<noteq> None"
    have "d \<le> desired_off ind f i" using desired_off_mono [OF rh f ideal, of j i] i x by (simp add: d_def)
    then show "u - away (A[?P := Some x]) y (?F (c' * ?n + u)) \<le> desired_off ind f i"
      using * movingD [OF mv cu] e dx i by auto
  qed (simp add: len)
  moreover have "live (A[?P := Some x]) = add_mset (Some x) (live A)" by (intro live_place mset_replace P e)
  ultimately show ?thesis using re by blast
qed

lemma reinsert_all_ok:
  assumes rh: "rh ind" and f: "f < length ind" and ideal: "\<And>x. ind ! f = Some x \<Longrightarrow> away ind x f = 0"
    and cap: "2 < length ind" "length ind = 2 ^ k" and ps: "ps = map (\<lambda>j. ind ! fwd_by (length ind) f j) [0..<length ind]"
  shows "moving ind f j A \<Longrightarrow> j \<le> length ind \<Longrightarrow> live A = live (take j ps) \<Longrightarrow>
    \<exists>A'. reinsert_all (2 * 2 ^ k - 1) (drop j ps) A = Some A' \<and> rh A' \<and> length A' = 2 * length ind \<and> live A' = live ps"
proof (induction "length ind - j" arbitrary: j A)
  case 0
  then show ?case using ps by (simp add: moving_def)
next
  case (Suc n)
  have j: "j < length ind" using Suc.hyps(2) by simp
  have lp: "length ps = length ind" using ps by simp
  have dr: "drop j ps = ps ! j # drop (Suc j) ps" "take (Suc j) ps = take j ps @ [ps ! j]"
    using j lp by (simp_all add: Cons_nth_drop_Suc take_Suc_conv_app_nth)
  have len: "length A = 2 * 2 ^ k" using Suc.prems(1) cap(2) by (simp add: moving_def)
  have dp: "desired_pos (2 * 2 ^ k - 1) h = h mod length A" for h using desired_pos_mod [of "Suc k" h] len by simp
  show ?case
  proof (cases "ps ! j")
    case None
    then have "live A = live (take (Suc j) ps)" using Suc.prems(3) dr(2) by (simp add: live_def)
    then show ?thesis
      using Suc.hyps(1) [of "Suc j" A] Suc.hyps(2) moving_skip [OF Suc.prems(1)] j dr(1) None
      by (simp add: reinsert_entry_in_order_def)
  next
    case (Some x)
    then have x: "ind ! fwd_by (length ind) f j = Some x" using ps j by simp
    obtain A' where A': "reinsert (length A) A x (pos_hash x mod length A) = Some A'" "moving ind f (Suc j) A'"
      "live A' = add_mset (Some x) (live A)" using moving_put [OF Suc.prems(1) rh f ideal j x cap(1)] by blast
    have "live A' = live (take (Suc j) ps)" using A'(3) Suc.prems(3) dr(2) Some by (simp add: live_def)
    then show ?thesis
      using Suc.hyps(1) [of "Suc j" A'] Suc.hyps(2) A' j dr(1) Some dp by (simp add: reinsert_entry_in_order_def)
  qed
qed

lemma first_ideal_ok:
  assumes "length ind = 2 ^ k" and "k \<le> 64"
  shows "i \<le> length ind \<Longrightarrow> (\<exists>p x. i \<le> p \<and> p < length ind \<and> ind ! p = Some x \<and> away ind x p = 0 \<and>
        first_ideal (2 ^ k - 1) i (drop i ind) = p) \<or>
      (\<forall>p x. i \<le> p \<longrightarrow> p < length ind \<longrightarrow> ind ! p = Some x \<longrightarrow> 0 < away ind x p) \<and> first_ideal (2 ^ k - 1) i (drop i ind) = 0"
proof (induction "length ind - i" arbitrary: i)
  case (Suc n)
  have i: "i < length ind" using Suc.hyps(2) by simp
  have d: "drop i ind = ind ! i # drop (Suc i) ind" using i by (simp add: Cons_nth_drop_Suc)
  have pd: "probe_distance (2 ^ k - 1) h i = dd (length ind) h i" for h using probe_distance_dd [OF assms(2)] i assms(1) by simp
  have IH: "(\<exists>p x. Suc i \<le> p \<and> p < length ind \<and> ind ! p = Some x \<and> away ind x p = 0 \<and>
        first_ideal (2 ^ k - 1) (Suc i) (drop (Suc i) ind) = p) \<or>
      (\<forall>p x. Suc i \<le> p \<longrightarrow> p < length ind \<longrightarrow> ind ! p = Some x \<longrightarrow> 0 < away ind x p) \<and>
        first_ideal (2 ^ k - 1) (Suc i) (drop (Suc i) ind) = 0"
    using Suc.hyps i by (intro Suc.hyps(1)) simp_all
  show ?case
  proof (cases "\<exists>x. ind ! i = Some x \<and> away ind x i = 0")
    case True
    then show ?thesis using i d pd by auto
  next
    case False
    then have "first_ideal (2 ^ k - 1) i (drop i ind) = first_ideal (2 ^ k - 1) (Suc i) (drop (Suc i) ind)"
      using d pd by (cases "ind ! i") auto
    note e = this
    from IH show ?thesis
    proof
      assume "\<exists>p x. Suc i \<le> p \<and> p < length ind \<and> ind ! p = Some x \<and> away ind x p = 0 \<and>
        first_ideal (2 ^ k - 1) (Suc i) (drop (Suc i) ind) = p"
      then show ?thesis unfolding e using Suc_leD by blast
    next
      assume a: "(\<forall>p x. Suc i \<le> p \<longrightarrow> p < length ind \<longrightarrow> ind ! p = Some x \<longrightarrow> 0 < away ind x p) \<and>
        first_ideal (2 ^ k - 1) (Suc i) (drop (Suc i) ind) = 0"
      have "0 < away ind x p" if "i \<le> p" "p < length ind" "ind ! p = Some x" for p x
        using that a False by (cases "p = i") auto
      then show ?thesis unfolding e using a by blast
    qed
  qed
qed simp

lemma all_away_empty:
  assumes "rh ind" and "None \<in> set ind" and "\<forall>p x. p < length ind \<longrightarrow> ind ! p = Some x \<longrightarrow> 0 < away ind x p"
    and "p < length ind"
  shows "ind ! p = None"
proof (rule ccontr)
  assume some: "ind ! p \<noteq> None"
  have run: "k < length ind \<Longrightarrow> ind ! back_by (length ind) p k \<noteq> None" for k
  proof (induction k)
    case 0
    then show ?case using some assms(4) by (simp add: ring_simps)
  next
    case (Suc k)
    then obtain x where x: "ind ! back_by (length ind) p k = Some x" by auto
    have b: "back_by (length ind) p k < length ind" using Suc.prems assms(4) by (simp add: ring_simps)
    from rhD [OF assms(1) b x] assms(3) b x show ?case using Suc.prems assms(4) by (auto simp: ring_simps)
  qed
  obtain q where q: "q < length ind" "ind ! q = None" using assms(2) by (metis in_set_conv_nth)
  define k where "k = (if q \<le> p then p - q else p + length ind - q)"
  have "back_by (length ind) p k = q" "k < length ind" using q(1) assms(4) by (auto simp: k_def back_by_def)
  then show False using run [of k] q(2) by simp
qed

lemma grow_ok:
  assumes "rh ind" and "None \<in> set ind" and "2 < length ind" and "length ind = 2 ^ k" and "k \<le> 64"
  shows "\<exists>ind'. grow_indices (2 ^ k - 1) ind (2 * 2 ^ k) = Some ind' \<and> rh ind' \<and> length ind' = 2 * length ind \<and> live ind' = live ind"
proof -
  define f where "f = first_ideal (2 ^ k - 1) 0 ind"
  have f: "f < length ind \<and> (\<forall>x. ind ! f = Some x \<longrightarrow> away ind x f = 0)"
  proof -
    have "0 < length ind" using assms(3) by linarith
    then show ?thesis using first_ideal_ok [OF assms(4,5), of 0] all_away_empty [OF assms(1,2)] unfolding f_def
      by (metis bot_nat_0.extremum drop_0 option.distinct(1) option.inject)
  qed
  define ps where "ps = map (\<lambda>j. ind ! fwd_by (length ind) f j) [0..<length ind]"
  have r: "drop f ind @ take f ind = ps"
    using f by (intro nth_equalityI) (auto simp: ps_def nth_append fwd_by_def add.commute)
  have z: "moving ind f 0 (replicate (2 * 2 ^ k) None)"
    using assms(4) f half_less by (auto simp: moving_def rh_def rh_at_def)
  have "live ps = live ind" unfolding r [symmetric] live_def mset_append
    by (metis append_take_drop_id mset_append union_commute)
  moreover have "grow_indices (2 ^ k - 1) ind (2 * 2 ^ k) = reinsert_all (2 * 2 ^ k - 1) (drop 0 ps) (replicate (2 * 2 ^ k) None)"
    unfolding grow_indices_def Let_def f_def [symmetric] r drop_0 ..
  ultimately show ?thesis
    using reinsert_all_ok [OF assms(1) _ _ assms(3,4) ps_def z] f by (simp add: live_def)
qed

end
