(* ===== verification/Hpack_Table.thy ===== *)
theory Hpack_Table
  imports Robin_Hood Hpack_Header
begin

text \<open>
  \<open>http/src/h2/proto/hpack/table.rs\<close>: the dynamic table of the encoder. Its entries are the slots, newest first; the
  array of \<open>Robin_Hood\<close> finds the oldest slot with a name, and each slot points to the next newer one with its name.
  Slots are referred to by their number of insertion, which wraps around. The hasher \<open>FnvHasher\<close> on names is the
  parameter \<open>H\<close>. No result means that the code would panic or not return.
\<close>

unbundle bit_operations_syntax

section \<open>State\<close>

record Slot =
  slot_hash :: nat
  slot_header :: header
  slot_next :: "64 word option"

record EncTable =
  et_mask :: nat
  et_indices :: indices
  et_slots :: "Slot list"
  et_inserted :: "64 word"
  et_size :: nat
  et_max_size :: nat

datatype Index =
    Indexed nat header
  | Index_Name nat header
  | Inserted nat
  | InsertedValue nat nat
  | NotIndexed header

definition DYN_OFFSET :: nat where "DYN_OFFSET = 62"

definition usable_capacity :: "nat \<Rightarrow> nat" where
  "usable_capacity cap = cap - cap div 4"

definition to_raw_capacity :: "nat \<Rightarrow> nat" where
  "to_raw_capacity n = n + n div 3"

function next_power_of_two_from :: "nat \<Rightarrow> nat \<Rightarrow> nat" where
  "next_power_of_two_from n p = (if n \<le> p \<or> p = 0 then p else next_power_of_two_from n (2 * p))"
  by pat_completeness auto
termination
  by (relation "measure (\<lambda>(n, p). n - p)") auto

declare next_power_of_two_from.simps [simp del]

definition et_new :: "nat \<Rightarrow> nat \<Rightarrow> EncTable" where
  "et_new n capacity =
     (if capacity = 0 then
        \<lparr>et_mask = 0, et_indices = [], et_slots = [], et_inserted = 0, et_size = 0, et_max_size = n\<rparr>
      else
        let capacity = max (next_power_of_two_from (to_raw_capacity capacity) 1) 8 in
        \<lparr>et_mask = capacity - 1, et_indices = replicate capacity None, et_slots = [], et_inserted = 0, et_size = 0, et_max_size = n\<rparr>)"

definition et_capacity :: "EncTable \<Rightarrow> nat" where
  "et_capacity t = usable_capacity (length (et_indices t))"

definition hash_header :: "(Name \<Rightarrow> nat) \<Rightarrow> header \<Rightarrow> nat" where
  "hash_header H h = H (name h) AND (2 ^ 16 - 1)"

definition index_new :: "(nat \<times> bool) option \<Rightarrow> header \<Rightarrow> Index" where
  "index_new v e = (case v of None \<Rightarrow> NotIndexed e | Some (n, True) \<Rightarrow> Indexed n e | Some (n, False) \<Rightarrow> Index_Name n e)"

text \<open>The index into the slots for a number of insertion.\<close>

definition real_idx :: "EncTable \<Rightarrow> 64 word \<Rightarrow> nat" where
  "real_idx t index = unat (index + et_inserted t)"

definition slot_at :: "EncTable \<Rightarrow> nat \<Rightarrow> Slot option" where
  "slot_at t i = (if i < length (et_slots t) then Some (et_slots t ! i) else None)"

fun resolve :: "EncTable \<Rightarrow> Index \<Rightarrow> header option" where
  "resolve t (Indexed _ h) = Some h"
| "resolve t (Index_Name _ h) = Some h"
| "resolve t (Inserted idx) = map_option slot_header (slot_at t idx)"
| "resolve t (InsertedValue _ idx) = map_option slot_header (slot_at t idx)"
| "resolve t (NotIndexed h) = Some h"

fun resolve_idx :: "Index \<Rightarrow> nat option" where
  "resolve_idx (Indexed idx _) = Some idx"
| "resolve_idx (Index_Name idx _) = Some idx"
| "resolve_idx (Inserted idx) = Some (idx + DYN_OFFSET)"
| "resolve_idx (InsertedValue _ slot_idx) = Some (slot_idx + DYN_OFFSET)"
| "resolve_idx (NotIndexed _) = None"

section \<open>Eviction\<close>

definition evict :: "64 word option \<Rightarrow> EncTable \<Rightarrow> EncTable option" where
  "evict prev_idx t =
     (if et_slots t = [] then None
      else
        let pos_idx = word_of_nat (length (et_slots t) - 1) - et_inserted t;
            slot = last (et_slots t);
            t = t\<lparr>et_slots := butlast (et_slots t), et_size := et_size t - header_len (slot_header slot)\<rparr>;
            ind = et_indices t in
        (case find_pos (length ind) ind pos_idx (desired_pos (et_mask t) (slot_hash slot)) of
           None \<Rightarrow> None
         | Some probe \<Rightarrow>
             (case ind ! probe of
                None \<Rightarrow> None
              | Some pos \<Rightarrow>
                  (case slot_next slot of
                     Some idx \<Rightarrow> Some (t\<lparr>et_indices := ind[probe := Some (pos\<lparr>pos_index := idx\<rparr>)]\<rparr>)
                   | None \<Rightarrow>
                       if Some (pos_index pos) = prev_idx
                       then Some (t\<lparr>et_indices := ind[probe := Some (pos\<lparr>pos_index := 0 - (et_inserted t + 1)\<rparr>)]\<rparr>)
                       else map_option (\<lambda>i. t\<lparr>et_indices := i\<rparr>)
                         (remove_phase_two (length ind) (et_mask t) (ind[probe := None]) probe (probe + 1))))))"

lemma evict_slots: "evict prev t = Some t' \<Longrightarrow> et_slots t \<noteq> [] \<and> et_slots t' = butlast (et_slots t)"
  by (auto simp: evict_def Let_def split: if_splits option.splits)

text \<open>Whether anything was evicted, and the table.\<close>

function converge :: "64 word option \<Rightarrow> EncTable \<Rightarrow> (bool \<times> EncTable) option" where
  "converge prev_idx t =
     (if et_size t > et_max_size t then
        (case evict prev_idx t of None \<Rightarrow> None | Some t \<Rightarrow> map_option (\<lambda>(_, t). (True, t)) (converge prev_idx t))
      else Some (False, t))"
  by pat_completeness auto
termination
  by (relation "measure (\<lambda>(_, t). length (et_slots t))") (auto dest!: evict_slots)

declare converge.simps [simp del]

definition update_size :: "nat \<Rightarrow> 64 word option \<Rightarrow> EncTable \<Rightarrow> (bool \<times> EncTable) option" where
  "update_size n prev_idx t = converge prev_idx (t\<lparr>et_size := et_size t + n\<rparr>)"

definition resize :: "nat \<Rightarrow> EncTable \<Rightarrow> EncTable option" where
  "resize n t =
     (let t = t\<lparr>et_max_size := n\<rparr> in
      if n = 0 then
        Some (t\<lparr>et_size := 0, et_indices := map (\<lambda>_. None) (et_indices t), et_slots := [], et_inserted := 0\<rparr>)
      else map_option snd (converge None t))"

section \<open>Insertion\<close>

definition et_insert :: "header \<Rightarrow> nat \<Rightarrow> EncTable \<Rightarrow> EncTable" where
  "et_insert h hash t =
     t\<lparr>et_inserted := et_inserted t + 1, et_slots := \<lparr>slot_hash = hash, slot_header = h, slot_next = None\<rparr> # et_slots t\<rparr>"

definition grow :: "nat \<Rightarrow> EncTable \<Rightarrow> EncTable option" where
  "grow new_raw_cap t =
     map_option (\<lambda>i. t\<lparr>et_indices := i, et_mask := new_raw_cap - 1\<rparr>) (grow_indices (et_mask t) (et_indices t) new_raw_cap)"

definition reserve_one :: "EncTable \<Rightarrow> EncTable option" where
  "reserve_one t =
     (let n = length (et_slots t) in
      if n = et_capacity t then
        if n = 0 then Some (t\<lparr>et_mask := 8 - 1, et_indices := replicate 8 None\<rparr>)
        else grow (2 * length (et_indices t)) t
      else Some t)"

definition index_vacant ::
    "header \<Rightarrow> nat \<Rightarrow> nat \<Rightarrow> nat \<Rightarrow> (nat \<times> bool) option \<Rightarrow> EncTable \<Rightarrow> (Index \<times> EncTable) option" where
  "index_vacant h hash dist probe statik t =
     (if is_sensitive h then Some (index_new statik h, t)
      else
        (case update_size (header_len h) None t of
           None \<Rightarrow> None
         | Some (evicted, t) \<Rightarrow>
             let probe = (if evicted then snd (step_back (et_mask t) (et_indices t) dist probe) else probe);
                 t = et_insert h hash t;
                 pos_idx = 0 - et_inserted t in
             (case place (et_indices t) \<lparr>pos_index = pos_idx, pos_hash = hash\<rparr> probe of
                None \<Rightarrow> None
              | Some ind \<Rightarrow>
                  Some (case statik of Some (n, _) \<Rightarrow> InsertedValue n 0 | None \<Rightarrow> Inserted 0, t\<lparr>et_indices := ind\<rparr>))))"

text \<open>The walk along the slots with the name: a slot with the value, or the newest slot.\<close>

fun chain :: "nat \<Rightarrow> EncTable \<Rightarrow> header \<Rightarrow> 64 word \<Rightarrow> (nat + 64 word) option" where
  "chain 0 t h index = None"
| "chain (Suc n) t h index =
     (case slot_at t (real_idx t index) of
        None \<Rightarrow> None
      | Some s \<Rightarrow>
          if value_eq (slot_header s) h then Some (Inl (real_idx t index))
          else (case slot_next s of Some nxt \<Rightarrow> chain n t h nxt | None \<Rightarrow> Some (Inr index)))"

text \<open>The new slot is linked behind the newest one, unless that has been evicted.\<close>

definition et_link :: "header \<Rightarrow> nat \<Rightarrow> 64 word \<Rightarrow> EncTable \<Rightarrow> EncTable" where
  "et_link h hash index t =
     (let t = et_insert h hash t; i = real_idx t index in
      if i < length (et_slots t)
      then t\<lparr>et_slots := (et_slots t)[i := (et_slots t ! i)\<lparr>slot_next := Some (0 - et_inserted t)\<rparr>]\<rparr>
      else t)"

definition index_occupied :: "header \<Rightarrow> nat \<Rightarrow> 64 word \<Rightarrow> nat option \<Rightarrow> EncTable \<Rightarrow> (Index \<times> EncTable) option" where
  "index_occupied h hash index statik t =
     (case chain (length (et_slots t)) t h index of
        None \<Rightarrow> None
      | Some (Inl i) \<Rightarrow> Some (Indexed (i + DYN_OFFSET) h, t)
      | Some (Inr index) \<Rightarrow>
          let i = real_idx t index in
          if is_sensitive h then Some (Index_Name (i + DYN_OFFSET) h, t)
          else
            (case update_size (header_len h) (Some index) t of
               None \<Rightarrow> None
             | Some (_, t) \<Rightarrow>
                 Some (InsertedValue (case statik of Some n \<Rightarrow> n | None \<Rightarrow> i + DYN_OFFSET) 0, et_link h hash index t)))"

text \<open>The search of \<open>index_dynamic\<close>: where the name is or would be.\<close>

datatype found = Vacant nat nat | Occupied "64 word"

fun search :: "nat \<Rightarrow> EncTable \<Rightarrow> Name \<Rightarrow> nat \<Rightarrow> nat \<Rightarrow> nat \<Rightarrow> found option" where
  "search 0 t nm hash probe dist = None"
| "search (Suc n) t nm hash probe dist =
     (let probe = wrap (length (et_indices t)) probe in
      (case et_indices t ! probe of
         Some pos \<Rightarrow>
           if probe_distance (et_mask t) (pos_hash pos) probe < dist then Some (Vacant dist probe)
           else if pos_hash pos = hash then
             (case slot_at t (real_idx t (pos_index pos)) of
                None \<Rightarrow> None
              | Some s \<Rightarrow>
                  if name (slot_header s) = nm then Some (Occupied (pos_index pos)) else search n t nm hash (probe + 1) (dist + 1))
           else search n t nm hash (probe + 1) (dist + 1)
       | None \<Rightarrow> Some (Vacant dist probe)))"

definition index_dynamic ::
    "(Name \<Rightarrow> nat) \<Rightarrow> header \<Rightarrow> (nat \<times> bool) option \<Rightarrow> EncTable \<Rightarrow> (Index \<times> EncTable) option" where
  "index_dynamic H h statik t =
     (case (if header_len h + et_size t < et_max_size t \<or> \<not> is_sensitive h then reserve_one t else Some t) of
        None \<Rightarrow> None
      | Some t \<Rightarrow>
          if et_indices t = [] then Some (index_new statik h, t)
          else
            let hash = hash_header H h in
            (case search (length (et_indices t)) t (name h) hash (desired_pos (et_mask t) hash) 0 of
               None \<Rightarrow> None
             | Some (Vacant dist probe) \<Rightarrow> index_vacant h hash dist probe statik t
             | Some (Occupied index) \<Rightarrow> index_occupied h hash index (map_option fst statik) t))"

definition et_index :: "(Name \<Rightarrow> nat) \<Rightarrow> header \<Rightarrow> EncTable \<Rightarrow> (Index \<times> EncTable) option" where
  "et_index H h t =
     (let statik = index_static h in
      if skip_value_index h then Some (index_new statik h, t)
      else
        (case statik of
           Some (n, True) \<Rightarrow> Some (Indexed n h, t)
         | _ \<Rightarrow>
             if header_len h * 4 > et_max_size t * 3 then Some (index_new statik h, t)
             else index_dynamic H h statik t))"

section \<open>Links\<close>

text \<open>
  Every slot is referred to exactly once, by a position of the array or by an older slot with its name. The positions
  and the slots carry the hashes of the names.
\<close>

definition nexts :: "Slot list \<Rightarrow> 64 word list" where
  "nexts ss = List.map_filter slot_next ss"

definition linked :: "(Name \<Rightarrow> nat) \<Rightarrow> 64 word \<Rightarrow> Slot list \<Rightarrow> Pos multiset \<Rightarrow> bool" where
  "linked H ins ss L \<longleftrightarrow>
     (\<forall>p\<in>#L. unat (pos_index p + ins) < length ss \<and> pos_hash p = slot_hash (ss ! unat (pos_index p + ins))) \<and>
     (\<forall>i<length ss. \<forall>w. slot_next (ss ! i) = Some w \<longrightarrow>
        unat (w + ins) < i \<and> name (slot_header (ss ! unat (w + ins))) = name (slot_header (ss ! i))) \<and>
     (\<forall>s\<in>set ss. slot_hash s = hash_header H (slot_header s)) \<and>
     image_mset (\<lambda>p. unat (pos_index p + ins)) L + mset (map (\<lambda>w. unat (w + ins)) (nexts ss)) = mset [0..<length ss]"

lemma nexts_simps:
  "nexts [] = []"
  "nexts (s # ss) = (case slot_next s of None \<Rightarrow> nexts ss | Some w \<Rightarrow> w # nexts ss)"
  "nexts (xs @ ys) = nexts xs @ nexts ys"
  by (auto simp: nexts_def map_filter_def split: option.splits)

lemma set_nexts: "w \<in> set (nexts ss) \<longleftrightarrow> (\<exists>i<length ss. slot_next (ss ! i) = Some w)"
proof -
  have "w \<in> set (nexts ss) \<longleftrightarrow> Some w \<in> slot_next ` set ss"
    by (induction ss) (auto simp: nexts_simps split: option.splits)
  then show ?thesis by (metis image_iff in_set_conv_nth)
qed

lemma linked_next:
  "linked H ins ss L \<Longrightarrow> i < length ss \<Longrightarrow> slot_next (ss ! i) = Some w \<Longrightarrow>
     unat (w + ins) < i \<and> name (slot_header (ss ! unat (w + ins))) = name (slot_header (ss ! i))"
  by (simp add: linked_def)

lemma linked_pos:
  "linked H ins ss L \<Longrightarrow> p \<in># L \<Longrightarrow>
     unat (pos_index p + ins) < length ss \<and> pos_hash p = slot_hash (ss ! unat (pos_index p + ins))"
  by (simp add: linked_def)

lemma linked_once:
  "linked H ins ss L \<Longrightarrow>
     image_mset (\<lambda>p. unat (pos_index p + ins)) L + mset (map (\<lambda>w. unat (w + ins)) (nexts ss)) = mset [0..<length ss]"
  by (simp add: linked_def)

lemma linked_hash: "linked H ins ss L \<Longrightarrow> s \<in> set ss \<Longrightarrow> slot_hash s = hash_header H (slot_header s)"
  by (simp add: linked_def)

lemma linked_size: "linked H ins ss L \<Longrightarrow> size L \<le> length ss"
  by (drule linked_once, drule arg_cong [where f = size]) simp

text \<open>The oldest slot has a position, the only one with its number.\<close>

lemma linked_last:
  assumes "linked H ins ss L" and "ss \<noteq> []" and "length ss < 2 ^ 64"
  shows "\<exists>p L'. L = add_mset p L' \<and> pos_index p = word_of_nat (length ss - 1) - ins \<and> pos_hash p = slot_hash (last ss) \<and>
    (\<forall>q\<in>#L'. pos_index q \<noteq> pos_index p) \<and> (\<forall>q\<in>#L'. unat (pos_index q + ins) \<noteq> length ss - 1)"
proof -
  let ?n = "length ss - 1" and ?r = "\<lambda>p. unat (pos_index p + ins)"
  have no: "?n \<notin> set (map (\<lambda>w. unat (w + ins)) (nexts ss))"
  proof
    assume "?n \<in> set (map (\<lambda>w. unat (w + ins)) (nexts ss))"
    then obtain w i where "?n = unat (w + ins)" "i < length ss" "slot_next (ss ! i) = Some w" by (auto simp: set_nexts)
    then show False using linked_next [OF assms(1), of i w] by linarith
  qed
  moreover have "?n \<in># mset [0..<length ss]" using assms(2) by simp
  ultimately have "?n \<in># image_mset ?r L" unfolding linked_once [OF assms(1), symmetric] by simp
  then obtain p where p: "p \<in># L" "?r p = ?n" by auto
  then obtain L' where L: "L = add_mset p L'" by (meson mset_add)
  have "add_mset ?n (image_mset ?r L' + mset (map (\<lambda>w. unat (w + ins)) (nexts ss))) = mset [0..<length ss]"
    using linked_once [OF assms(1)] p(2) by (simp add: L)
  also have "\<dots> = add_mset ?n (mset [0..<?n])"
    using assms(2) upt_Suc_append [of 0 ?n] by simp
  finally have "?n \<notin># image_mset ?r L'" by (metis add_mset_add_mset_same_iff atLeastLessThan_iff less_irrefl set_mset_mset set_upt union_iff)
  then have u: "\<forall>q\<in>#L'. ?r q \<noteq> ?n" unfolding set_image_mset image_iff by metis
  have "pos_index p = word_of_nat ?n - ins" unfolding p(2) [symmetric] by simp
  moreover have "pos_hash p = slot_hash (last ss)" using linked_pos [OF assms(1) p(1)] p(2) assms(2) by (simp add: last_conv_nth)
  moreover have "\<forall>q\<in>#L'. pos_index q \<noteq> pos_index p" using u p(2) by metis
  ultimately show ?thesis using L u by blast
qed

text \<open>Without the oldest slot, its position goes to the next slot with the name, or away.\<close>

lemma linked_butlast:
  assumes "linked H ins ss (add_mset p L)" and "ss \<noteq> []" and "unat (pos_index p + ins) = length ss - 1"
    and "\<forall>q\<in>#L. unat (pos_index q + ins) \<noteq> length ss - 1"
  shows "slot_next (last ss) = None \<Longrightarrow> linked H ins (butlast ss) L"
    and "slot_next (last ss) = Some w \<Longrightarrow> linked H ins (butlast ss) (add_mset (p\<lparr>pos_index := w\<rparr>) L)"
proof -
  obtain xs s where ss: "ss = xs @ [s]" using assms(2) by (metis append_butlast_last_id)
  let ?r = "\<lambda>p. unat (pos_index p + ins)" and ?u = "\<lambda>w. unat (w + ins)"
  have once: "image_mset ?r L + mset (map ?u (nexts (xs @ [s]))) = mset [0..<length xs]"
    using linked_once [OF assms(1)] assms(3) by (simp add: ss)
  have pos: "\<forall>q\<in>#L. ?r q < length xs \<and> pos_hash q = slot_hash (xs ! ?r q)"
  proof
    fix q assume "q \<in># L"
    then show "?r q < length xs \<and> pos_hash q = slot_hash (xs ! ?r q)"
      using linked_pos [OF assms(1), of q] assms(4) by (auto simp: ss nth_append)
  qed
  have nxt: "\<forall>i<length xs. \<forall>w. slot_next (xs ! i) = Some w \<longrightarrow> ?u w < i \<and> name (slot_header (xs ! ?u w)) = name (slot_header (xs ! i))"
  proof (intro allI impI)
    fix i w assume "i < length xs" "slot_next (xs ! i) = Some w"
    then show "?u w < i \<and> name (slot_header (xs ! ?u w)) = name (slot_header (xs ! i))"
      using linked_next [OF assms(1), of i w] by (auto simp: ss nth_append)
  qed
  have hash: "\<forall>s\<in>set ss. slot_hash s = hash_header H (slot_header s)" using linked_hash [OF assms(1)] by blast
  show "linked H ins (butlast ss) L" if "slot_next (last ss) = None"
    using once pos nxt hash that by (simp add: linked_def ss nexts_simps)
  show "linked H ins (butlast ss) (add_mset (p\<lparr>pos_index := w\<rparr>) L)" if "slot_next (last ss) = Some w"
  proof -
    have n: "?u w < length xs \<and> name (slot_header (xs ! ?u w)) = name (slot_header s)"
      using linked_next [OF assms(1), of "length xs" w] that by (auto simp: ss nth_append)
    moreover have "pos_hash p = slot_hash s" using linked_pos [OF assms(1), of p] assms(3) by (simp add: ss)
    moreover have "slot_hash (xs ! ?u w) = slot_hash s" using hash n by (simp add: ss hash_header_def)
    ultimately show ?thesis using once pos nxt hash that by (simp add: linked_def ss nexts_simps)
  qed
qed

lemma shifted: "unat (w + ins) < 2 ^ 64 - 1 \<Longrightarrow> unat (w + (ins + 1) :: 64 word) = Suc (unat (w + ins))"
proof -
  assume a: "unat (w + ins) < 2 ^ 64 - 1"
  have "unat (w + ins + 1) = unat (w + ins) + unat (1 :: 64 word)"
    by (rule unat_add_lem [THEN iffD1]) (use a in simp)
  then show ?thesis by (simp add: add.assoc)
qed

lemma linked_shift:
  assumes "linked H ins ss L" and "length ss < 2 ^ 64 - 1"
  shows "\<forall>p\<in>#L. unat (pos_index p + (ins + 1)) = Suc (unat (pos_index p + ins))"
    and "\<forall>w\<in>set (nexts ss). unat (w + (ins + 1)) = Suc (unat (w + ins))"
proof -
  show "\<forall>p\<in>#L. unat (pos_index p + (ins + 1)) = Suc (unat (pos_index p + ins))"
    using linked_pos [OF assms(1)] assms(2) shifted by (meson less_trans)
  show "\<forall>w\<in>set (nexts ss). unat (w + (ins + 1)) = Suc (unat (w + ins))"
    using linked_next [OF assms(1)] assms(2) shifted by (meson less_trans set_nexts)
qed

text \<open>All numbers after an insertion, before the new slot is referred to.\<close>

lemma linked_once_shift:
  assumes "linked H ins ss L" and "length ss < 2 ^ 64 - 1"
  shows "add_mset 0 (image_mset (\<lambda>p. unat (pos_index p + (ins + 1))) L + mset (map (\<lambda>w. unat (w + (ins + 1))) (nexts ss))) =
    mset [0..<Suc (length ss)]"
proof -
  have "image_mset (\<lambda>p. unat (pos_index p + (ins + 1))) L = image_mset Suc (image_mset (\<lambda>p. unat (pos_index p + ins)) L)"
    using linked_shift(1) [OF assms] by (auto simp: image_mset.compositionality o_def intro!: image_mset_cong)
  moreover have "mset (map (\<lambda>w. unat (w + (ins + 1))) (nexts ss)) = image_mset Suc (mset (map (\<lambda>w. unat (w + ins)) (nexts ss)))"
    using linked_shift(2) [OF assms] by (auto simp: image_mset.compositionality o_def intro!: image_mset_cong)
  ultimately have "image_mset (\<lambda>p. unat (pos_index p + (ins + 1))) L + mset (map (\<lambda>w. unat (w + (ins + 1))) (nexts ss)) =
      mset (map Suc [0..<length ss])"
    unfolding mset_map [of Suc] linked_once [OF assms(1), symmetric] by (simp only: image_mset_union)
  moreover have "mset [0..<Suc (length ss)] = add_mset 0 (mset [Suc 0..<Suc (length ss)])" by (subst upt_conv_Cons) simp_all
  ultimately show ?thesis by (simp only: map_Suc_upt)
qed

lemma linked_next_shift:
  assumes "linked H ins ss L" and "length ss < 2 ^ 64 - 1" and "i < length ss" and "slot_next (ss ! i) = Some w"
  shows "unat (w + (ins + 1)) = Suc (unat (w + ins)) \<and> unat (w + ins) < i \<and>
    name (slot_header (ss ! unat (w + ins))) = name (slot_header (ss ! i))"
  using linked_next [OF assms(1,3,4)] linked_shift(2) [OF assms(1,2)] assms(3,4) set_nexts by blast

lemma linked_insert:
  assumes "linked H ins ss L" and "length ss < 2 ^ 64 - 1"
  shows "linked H (ins + 1) (\<lparr>slot_hash = hash_header H h, slot_header = h, slot_next = None\<rparr> # ss)
    (add_mset \<lparr>pos_index = 0 - (ins + 1), pos_hash = hash_header H h\<rparr> L)"
  (is "linked H _ (?s # ss) _")
proof -
  have "unat (w + (ins + 1)) < i \<and> name (slot_header ((?s # ss) ! unat (w + (ins + 1)))) = name (slot_header ((?s # ss) ! i))"
    if "i < length (?s # ss)" "slot_next ((?s # ss) ! i) = Some w" for i w
    using linked_next_shift [OF assms, of "i - 1" w] that by (cases i) auto
  then show ?thesis
    using linked_once_shift [OF assms] linked_hash [OF assms(1)] linked_pos [OF assms(1)] linked_shift(1) [OF assms]
    unfolding linked_def by (intro conjI) (auto simp: nexts_simps)
qed

lemma nexts_update:
  "i < length ss \<Longrightarrow> slot_next (ss ! i) = None \<Longrightarrow> mset (nexts (ss[i := s\<lparr>slot_next := Some w\<rparr>])) = add_mset w (mset (nexts ss))"
  by (induction ss arbitrary: i) (auto simp: nexts_simps nth_Cons split: nat.splits option.splits)

lemma linked_link:
  assumes "linked H ins ss L" and "length ss < 2 ^ 64 - 1" and "j < length ss"
    and "slot_next (ss ! j) = None" and "name (slot_header (ss ! j)) = name h"
  shows "linked H (ins + 1) (\<lparr>slot_hash = hash_header H h, slot_header = h, slot_next = None\<rparr> #
    ss[j := (ss ! j)\<lparr>slot_next := Some (0 - (ins + 1))\<rparr>]) L"
  (is "linked H _ (?s # ?ss) _")
proof -
  have hd: "slot_header (ss[j := (ss ! j)\<lparr>slot_next := v\<rparr>] ! i) = slot_header (ss ! i)"
    "slot_hash (ss[j := (ss ! j)\<lparr>slot_next := v\<rparr>] ! i) = slot_hash (ss ! i)" for i v
    using assms(3) by (cases "i = j"; simp)+
  have a: "unat (w + (ins + 1)) < i \<and> name (slot_header ((?s # ?ss) ! unat (w + (ins + 1)))) = name (slot_header ((?s # ?ss) ! i))"
    if "i < length (?s # ?ss)" "slot_next ((?s # ?ss) ! i) = Some w" for i w
  proof (cases "i = Suc j")
    case True
    then show ?thesis using that assms(3,5) by auto
  next
    case False
    then show ?thesis using linked_next_shift [OF assms(1,2), of "i - 1" w] that by (cases i) (auto simp: hd)
  qed
  have b: "\<forall>s\<in>set (?s # ?ss). slot_hash s = hash_header H (slot_header s)"
    using linked_hash [OF assms(1)] linked_hash [OF assms(1) nth_mem [OF assms(3)]] by (auto dest!: set_update_subset_insert [THEN subsetD])
  have c: "\<forall>p\<in>#L. unat (pos_index p + (ins + 1)) < length (?s # ?ss) \<and> pos_hash p = slot_hash ((?s # ?ss) ! unat (pos_index p + (ins + 1)))"
    using linked_pos [OF assms(1)] linked_shift(1) [OF assms(1,2)] hd by simp
  have "image_mset (\<lambda>p. unat (pos_index p + (ins + 1))) L + mset (map (\<lambda>w. unat (w + (ins + 1))) (nexts (?s # ?ss))) = mset [0..<length (?s # ?ss)]"
    using linked_once_shift [OF assms(1,2)] nexts_update [OF assms(3,4), where s = "ss ! j" and w = "0 - (ins + 1)"] by (simp add: nexts_simps)
  then show ?thesis using a b c unfolding linked_def by blast
qed

section \<open>Invariant\<close>

definition lives :: "indices \<Rightarrow> Pos multiset" where
  "lives ind = image_mset the (live ind)"

lemma lives_iff: "y \<in># lives ind \<longleftrightarrow> Some y \<in> set ind"
  by (force simp: lives_def live_def)

lemma lives_mset: "mset a = mset b \<Longrightarrow> lives a = lives b"
  by (simp add: lives_def live_def)

lemma lives_update: "q < length ind \<Longrightarrow> lives (ind[q := Some x]) = add_mset x (lives (ind[q := None]))"
  by (simp add: lives_def live_def mset_update)

lemma lives_at: "q < length ind \<Longrightarrow> ind ! q = Some x \<Longrightarrow> lives ind = add_mset x (lives (ind[q := None]))"
  using lives_update [of q ind x] list_update_id [of ind q] by simp

lemma lives_full: "None \<notin> set ind \<Longrightarrow> size (lives ind) = length ind"
proof (induction ind)
  case (Cons a ind)
  then show ?case by (cases a) (simp_all add: lives_def live_def)
qed (simp add: lives_def live_def)

lemma lives_empty: "lives (replicate n None) = {#}"
  by (simp add: lives_def live_def)

lemma rh_renumber:
  assumes "rh ind" and "q < length ind" and "ind ! q = Some x"
  shows "rh (ind[q := Some (x\<lparr>pos_index := w\<rparr>)])" and "closer (length ind) ind (ind[q := Some (x\<lparr>pos_index := w\<rparr>)])"
proof -
  show "rh (ind[q := Some (x\<lparr>pos_index := w\<rparr>)])" unfolding rh_def rh_at_def
  proof (intro allI impI)
    fix p y assume p: "p < length (ind[q := Some (x\<lparr>pos_index := w\<rparr>)])" "ind[q := Some (x\<lparr>pos_index := w\<rparr>)] ! p = Some y"
      "0 < away (ind[q := Some (x\<lparr>pos_index := w\<rparr>)]) y p"
    have "\<exists>y'. ind ! p = Some y' \<and> pos_hash y' = pos_hash y"
      using p(1,2) assms(2,3) by (auto simp: nth_list_update split: if_splits)
    then obtain y' where y': "ind ! p = Some y'" "pos_hash y' = pos_hash y" by blast
    obtain z where z: "ind ! prv (length ind) p = Some z" "away ind y' p \<le> away ind z (prv (length ind) p) + 1"
      using rhD [OF assms(1) _ y'(1)] p y'(2) by auto
    show "\<exists>z. ind[q := Some (x\<lparr>pos_index := w\<rparr>)] ! prv (length (ind[q := Some (x\<lparr>pos_index := w\<rparr>)])) p = Some z \<and>
        away (ind[q := Some (x\<lparr>pos_index := w\<rparr>)]) y p \<le>
        away (ind[q := Some (x\<lparr>pos_index := w\<rparr>)]) z (prv (length (ind[q := Some (x\<lparr>pos_index := w\<rparr>)])) p) + 1"
      using z y'(2) assms(2,3) by (cases "prv (length ind) p = q") auto
  qed
  show "closer (length ind) ind (ind[q := Some (x\<lparr>pos_index := w\<rparr>)])"
    using assms(2,3) by (auto simp: closer_def nth_list_update)
qed

text \<open>The invariant: the array has a size the masks work with, its entries are reachable, and the slots are linked.\<close>

definition et_ok :: "(Name \<Rightarrow> nat) \<Rightarrow> EncTable \<Rightarrow> bool" where
  "et_ok H t \<longleftrightarrow>
     (et_indices t = [] \<or> (\<exists>k. 3 \<le> k \<and> k \<le> 63 \<and> length (et_indices t) = 2 ^ k \<and> et_mask t = 2 ^ k - 1)) \<and>
     rh (et_indices t) \<and> length (et_slots t) \<le> et_capacity t \<and> linked H (et_inserted t) (et_slots t) (lives (et_indices t))"

lemma et_ok_shape:
  assumes "et_ok H t" and "et_indices t \<noteq> []"
  obtains k where "3 \<le> k" "k \<le> 63" "length (et_indices t) = 2 ^ k" "et_mask t = 2 ^ k - 1"
    "2 < length (et_indices t)" "None \<in> set (et_indices t)" "length (et_slots t) < 2 ^ 64 - 1"
proof -
  obtain k where k: "3 \<le> k" "k \<le> 63" "length (et_indices t) = 2 ^ k" "et_mask t = 2 ^ k - 1"
    using assms by (auto simp: et_ok_def)
  have "(2::nat) ^ 3 \<le> 2 ^ k" by (rule power_increasing) (use k(1) in simp_all)
  then have two: "8 \<le> length (et_indices t)" using k(3) by simp
  have "(2::nat) ^ k \<le> 2 ^ 63" by (rule power_increasing) (use k(2) in simp_all)
  moreover have room: "length (et_slots t) \<le> length (et_indices t) - length (et_indices t) div 4"
    using assms(1) by (simp add: et_ok_def et_capacity_def usable_capacity_def)
  ultimately have "length (et_slots t) < 2 ^ 64 - 1" using k(3) by simp
  moreover have "None \<in> set (et_indices t)"
  proof (rule ccontr)
    assume "None \<notin> set (et_indices t)"
    then have "length (et_indices t) \<le> length (et_slots t)"
      using linked_size lives_full assms(1) by (metis et_ok_def)
    then show False using room two by linarith
  qed
  ultimately show ?thesis using k two that by simp
qed

lemma et_ok_indices: "et_ok H t \<Longrightarrow> et_slots t \<noteq> [] \<Longrightarrow> et_indices t \<noteq> []"
  by (auto simp: et_ok_def et_capacity_def usable_capacity_def)

lemma et_ok_linked: "et_ok H t \<Longrightarrow> linked H (et_inserted t) (et_slots t) (lives (et_indices t))"
  by (simp add: et_ok_def)

section \<open>Eviction keeps the invariant\<close>

text \<open>The position of the oldest slot in the array.\<close>

lemma oldest:
  assumes "et_ok H t" and "et_slots t \<noteq> []"
  obtains q p where "q < length (et_indices t)" "et_indices t ! q = Some p"
    "pos_index p = word_of_nat (length (et_slots t) - 1) - et_inserted t"
    "find_pos (length (et_indices t)) (et_indices t) (pos_index p) (desired_pos (et_mask t) (slot_hash (last (et_slots t)))) = Some q"
    "linked H (et_inserted t) (et_slots t) (add_mset p (lives ((et_indices t)[q := None])))"
    "\<forall>q\<in>#lives ((et_indices t)[q := None]). unat (pos_index q + et_inserted t) \<noteq> length (et_slots t) - 1"
proof -
  let ?ind = "et_indices t" and ?ss = "et_slots t"
  obtain k where k: "length ?ind = 2 ^ k" "et_mask t = 2 ^ k - 1" "length ?ss < 2 ^ 64 - 1"
    using et_ok_shape [OF assms(1) et_ok_indices [OF assms]] .
  obtain p L where p: "lives ?ind = add_mset p L" "pos_index p = word_of_nat (length ?ss - 1) - et_inserted t"
      "pos_hash p = slot_hash (last ?ss)" "\<forall>q\<in>#L. pos_index q \<noteq> pos_index p" "\<forall>q\<in>#L. unat (pos_index q + et_inserted t) \<noteq> length ?ss - 1"
    using linked_last [OF et_ok_linked [OF assms(1)] assms(2)] k(3) by auto
  have "Some p \<in> set ?ind" using lives_iff p(1) by (metis union_single_eq_member)
  then obtain q where q: "q < length ?ind" "?ind ! q = Some p" by (metis in_set_conv_nth)
  have L: "L = lives (?ind[q := None])" using lives_at [OF q] p(1) by simp
  have "\<forall>r y. r < length ?ind \<longrightarrow> ?ind ! r = Some y \<longrightarrow> pos_index y = pos_index p \<longrightarrow> r = q"
  proof (intro allI impI, rule ccontr)
    fix r y assume "r < length ?ind" "?ind ! r = Some y" "pos_index y = pos_index p" "r \<noteq> q"
    then have "Some y \<in> set (?ind[q := None])" by (metis in_set_conv_nth length_list_update nth_list_update_neq)
    then have "y \<in># L" by (simp add: L lives_iff)
    then show False using p(4) \<open>pos_index y = pos_index p\<close> by blast
  qed
  moreover have "rh ?ind" using assms(1) by (simp add: et_ok_def)
  moreover have "desired_pos (et_mask t) (slot_hash (last ?ss)) = pos_hash p mod length ?ind"
    unfolding k(1,2) p(3) by (rule desired_pos_mod)
  ultimately have "find_pos (length ?ind) ?ind (pos_index p) (desired_pos (et_mask t) (slot_hash (last ?ss))) = Some q"
    using find_pos_ok [OF _ q] by (simp only:)
  then show ?thesis using that [OF q p(2)] et_ok_linked [OF assms(1)] p(1,5) by (simp add: L)
qed

definition evicted_to :: "EncTable \<Rightarrow> EncTable \<Rightarrow> bool" where
  "evicted_to t t' \<longleftrightarrow> closer (length (et_indices t)) (et_indices t) (et_indices t') \<and> et_mask t' = et_mask t \<and>
     et_inserted t' = et_inserted t \<and> et_max_size t' = et_max_size t"

lemma evict_ok:
  assumes "et_ok H t" and "et_slots t \<noteq> []"
  shows "\<exists>t'. evict None t = Some t' \<and> et_ok H t' \<and> et_slots t' = butlast (et_slots t) \<and>
    et_size t' = et_size t - header_len (slot_header (last (et_slots t))) \<and> evicted_to t t'"
proof -
  let ?ind = "et_indices t" and ?ss = "et_slots t"
  obtain q p where q: "q < length ?ind" "?ind ! q = Some p" and i: "pos_index p = word_of_nat (length ?ss - 1) - et_inserted t"
    and f: "find_pos (length ?ind) ?ind (pos_index p) (desired_pos (et_mask t) (slot_hash (last ?ss))) = Some q"
    and l: "linked H (et_inserted t) ?ss (add_mset p (lives (?ind[q := None])))"
      "\<forall>q\<in>#lives (?ind[q := None]). unat (pos_index q + et_inserted t) \<noteq> length ?ss - 1"
    using oldest [OF assms] .
  obtain k where k: "3 \<le> k" "k \<le> 63" "length ?ind = 2 ^ k" "et_mask t = 2 ^ k - 1" "2 < length ?ind" "None \<in> set ?ind"
      "length ?ss < 2 ^ 64 - 1"
    using et_ok_shape [OF assms(1) et_ok_indices [OF assms]] .
  have rh: "rh ?ind" using assms(1) by (simp add: et_ok_def)
  have u: "unat (pos_index p + et_inserted t) = length ?ss - 1"
    using k(7) by (simp add: i unsigned_of_nat take_bit_eq_mod)
  note lb = linked_butlast [OF l(1) assms(2) u l(2)]
  show ?thesis
  proof (cases "slot_next (last ?ss)")
    case None
    obtain ind where ind: "remove_phase_two (length ?ind) (et_mask t) (?ind[q := None]) q (q + 1) = Some ind" "rh ind"
        "mset ind = mset (?ind[q := None])" "closer (length ?ind) ?ind ind"
      using remove_ok [OF k(3) _ k(5) rh k(6) q] k(2,4) by auto
    have "length ind = length ?ind" using ind(4) by (simp add: closer_def)
    then show ?thesis
      using assms ind None f q k lb(1) lives_mset [OF ind(3)] i
      by (auto simp: evict_def et_ok_def et_capacity_def evicted_to_def)
  next
    case (Some w)
    show ?thesis
      using assms Some f q k lb(2) rh_renumber [OF rh q] i
      by (auto simp: evict_def et_ok_def et_capacity_def evicted_to_def lives_update)
  qed
qed

definition headers :: "EncTable \<Rightarrow> header list" where
  "headers t = map slot_header (et_slots t)"

lemma evicted_to_trans: "evicted_to a b \<Longrightarrow> evicted_to b c \<Longrightarrow> evicted_to a c"
  unfolding evicted_to_def by (metis closer_def closer_trans)

lemma evicted_to_refl: "evicted_to t t"
  by (simp add: evicted_to_def closer_def)

lemma converge_ok:
  "et_ok H t \<Longrightarrow> et_size t = entries_size (headers t) + x \<Longrightarrow> x \<le> et_max_size t \<Longrightarrow>
     \<exists>b t'. converge None t = Some (b, t') \<and> et_ok H t' \<and> headers t' = fit (et_max_size t - x) (headers t) \<and>
       et_size t' = entries_size (headers t') + x \<and> evicted_to t t' \<and> (b \<or> t' = t)"
proof (induction "length (et_slots t)" arbitrary: t rule: less_induct)
  case less
  show ?case
  proof (cases "et_size t > et_max_size t")
    case True
    then have ne: "et_slots t \<noteq> []" "headers t \<noteq> []" using less.prems(2,3) by (auto simp: headers_def)
    obtain t1 where t1: "evict None t = Some t1" "et_ok H t1" "et_slots t1 = butlast (et_slots t)"
        "et_size t1 = et_size t - header_len (slot_header (last (et_slots t)))" "evicted_to t t1"
      using evict_ok [OF less.prems(1) ne(1)] by blast
    have h: "headers t1 = butlast (headers t)" "header_len (slot_header (last (et_slots t))) = header_len (last (headers t))"
      using t1(3) ne by (simp_all add: headers_def map_butlast last_map)
    have "header_len (last (headers t)) \<le> entries_size (headers t)"
      using ne(2) by (cases "headers t" rule: rev_cases) simp_all
    then have s: "et_size t1 = entries_size (headers t1) + x"
      using less.prems(2) t1(4) h ne(2) by (simp add: entries_size_butlast)
    have m: "et_max_size t1 = et_max_size t" using t1(5) by (simp add: evicted_to_def)
    have "length (et_slots t1) < length (et_slots t)" using t1(3) ne by simp
    from less.hyps [OF this t1(2) s] obtain b t' where t': "converge None t1 = Some (b, t')" "et_ok H t'"
        "headers t' = fit (et_max_size t - x) (headers t1)" "et_size t' = entries_size (headers t') + x" "evicted_to t1 t'"
      using less.prems(3) m by auto
    have "fit (et_max_size t - x) (headers t) = fit (et_max_size t - x) (headers t1)"
      unfolding h(1) by (rule fit_butlast) (use True less.prems(2,3) in simp)
    then show ?thesis using True t1(1) t' evicted_to_trans [OF t1(5)] by (auto simp: converge.simps [of None t])
  next
    case False
    then have "fit (et_max_size t - x) (headers t) = headers t" using less.prems(2,3) by (intro fit_all) simp
    then show ?thesis using False less.prems by (auto simp: converge.simps [of None t] evicted_to_refl)
  qed
qed

section \<open>Insertion behind a slot\<close>

text \<open>Evicting with \<open>prev_idx\<close> and then inserting is inserting and then evicting.\<close>

lemma et_link_eq:
  assumes "unat (index + et_inserted t) < 2 ^ 64 - 1"
  shows "et_link h hash index t = t\<lparr>et_inserted := et_inserted t + 1, et_slots := \<lparr>slot_hash = hash, slot_header = h, slot_next = None\<rparr> #
    (let i = unat (index + et_inserted t); ss = et_slots t in
     if i < length ss then ss[i := (ss ! i)\<lparr>slot_next := Some (0 - (et_inserted t + 1))\<rparr>] else ss)\<rparr>"
  using shifted [OF assms] by (simp add: et_link_def et_insert_def real_idx_def Let_def)

lemma find_pos_some: "find_pos n ind w b = Some q \<Longrightarrow> \<exists>p. ind ! q = Some p \<and> pos_index p = w"
  by (induction n ind w b rule: find_pos.induct) (auto simp: Let_def split: option.splits if_splits)

lemma evict_snoc:
  assumes "et_slots t = xs @ [s]"
  shows "evict prev t =
    (case find_pos (length (et_indices t)) (et_indices t) (word_of_nat (length xs) - et_inserted t) (desired_pos (et_mask t) (slot_hash s)) of
       None \<Rightarrow> None
     | Some q \<Rightarrow>
         map_option (\<lambda>i. t\<lparr>et_slots := xs, et_size := et_size t - header_len (slot_header s), et_indices := i\<rparr>)
           (case slot_next s of
              Some w \<Rightarrow> Some ((et_indices t)[q := map_option (\<lambda>p. p\<lparr>pos_index := w\<rparr>) (et_indices t ! q)])
            | None \<Rightarrow>
                if prev = Some (word_of_nat (length xs) - et_inserted t)
                then Some ((et_indices t)[q := map_option (\<lambda>p. p\<lparr>pos_index := 0 - (et_inserted t + 1)\<rparr>) (et_indices t ! q)])
                else remove_phase_two (length (et_indices t)) (et_mask t) ((et_indices t)[q := None]) q (q + 1)))"
  using assms by (auto simp: evict_def Let_def split: option.splits dest!: find_pos_some)

lemma evict_link:
  assumes "et_slots t \<noteq> []" and "length (et_slots t) < 2 ^ 64 - 1" and "unat (index + et_inserted t) < 2 ^ 64 - 1"
    and "unat (index + et_inserted t) < length (et_slots t) \<longrightarrow> slot_next (et_slots t ! unat (index + et_inserted t)) = None"
  shows "map_option (et_link h hash index) (evict (Some index) t) = evict None (et_link h hash index t)"
proof -
  obtain xs s where ss: "et_slots t = xs @ [s]" using assms(1) by (metis append_butlast_last_id)
  let ?ins = "et_inserted t" and ?w = "word_of_nat (length xs) - et_inserted t"
  define i where "i = unat (index + ?ins)"
  have w: "Some index = Some ?w \<longleftrightarrow> i = length xs"
  proof
    show "i = length xs" if "Some index = Some ?w" using assms(2) that by (simp add: ss unsigned_of_nat take_bit_eq_mod i_def)
    show "Some index = Some ?w" if "i = length xs" unfolding that [symmetric] i_def by simp
  qed
  define s0 :: Slot where "s0 = \<lparr>slot_hash = hash, slot_header = h, slot_next = None\<rparr>"
  define lk where "lk s = s\<lparr>slot_next := Some (0 - (?ins + 1))\<rparr>" for s :: Slot
  have link: "et_link h hash index u = u\<lparr>et_inserted := ?ins + 1, et_slots := s0 #
      (if i < length (et_slots u) then (et_slots u)[i := lk (et_slots u ! i)] else et_slots u)\<rparr>"
    if "et_inserted u = ?ins" for u
    using et_link_eq [of index u] assms(3) that by (simp add: Let_def i_def s0_def lk_def)
  have sl: "et_slots (et_link h hash index t) =
      (s0 # (if i < length xs then xs[i := lk (xs ! i)] else xs)) @ [if i = length xs then lk s else s]"
    by (auto simp: link ss list_update_append nth_append)
  have ww: "word_of_nat (Suc (length xs)) - (?ins + 1) = ?w" by simp
  have n: "i = length xs \<Longrightarrow> slot_next s = None" using assms(4) by (simp add: ss i_def)
  show ?thesis
    unfolding evict_snoc [OF sl] evict_snoc [OF ss] w
    using n by (auto simp: link ww lk_def option.map_comp o_def split: option.splits intro!: option.map_cong)
qed

lemma evict_headers:
  assumes "evict prev t = Some t'" and "et_size t = entries_size (headers t) + x"
  shows "et_size t' = entries_size (headers t') + x" "et_inserted t' = et_inserted t" "et_max_size t' = et_max_size t"
proof -
  obtain xs s where ss: "et_slots t = xs @ [s]" using evict_slots [OF assms(1)] by (metis append_butlast_last_id)
  show "et_size t' = entries_size (headers t') + x" "et_inserted t' = et_inserted t" "et_max_size t' = et_max_size t"
    using assms unfolding evict_snoc [OF ss] by (auto simp: headers_def ss split: option.splits)
qed

lemma converge_link:
  "length (et_slots t) < 2 ^ 64 - 1 \<Longrightarrow> unat (index + et_inserted t) < 2 ^ 64 - 1 \<Longrightarrow>
     unat (index + et_inserted t) < length (et_slots t) \<longrightarrow> slot_next (et_slots t ! unat (index + et_inserted t)) = None \<Longrightarrow>
     et_size t = entries_size (headers t) + x \<Longrightarrow> x \<le> et_max_size t \<Longrightarrow>
     map_option (map_prod id (et_link h hash index)) (converge (Some index) t) = converge None (et_link h hash index t)"
proof (induction "length (et_slots t)" arbitrary: t rule: less_induct)
  case less
  have sz: "et_size (et_link h hash index t) = et_size t" "et_max_size (et_link h hash index t) = et_max_size t"
    by (simp_all add: et_link_def et_insert_def Let_def)
  show ?case
  proof (cases "et_size t > et_max_size t")
    case True
    then have ne: "et_slots t \<noteq> []" using less.prems(4,5) by (auto simp: headers_def)
    note el = evict_link [OF ne less.prems(1-3), of h hash]
    show ?thesis
    proof (cases "evict (Some index) t")
      case None
      then show ?thesis using True el by (simp add: converge.simps [of _ t] converge.simps [of _ "et_link h hash index t"] sz)
    next
      case (Some t1)
      note e = evict_headers [OF Some less.prems(4)]
      have sl: "et_slots t1 = butlast (et_slots t)" using evict_slots [OF Some] by simp
      have c: "converge None (et_link h hash index t1) = map_option (map_prod id (et_link h hash index)) (converge (Some index) t1)"
        by (rule sym, rule less.hyps) (use less.prems ne in \<open>auto simp: sl e nth_butlast\<close>)
      have "evict None (et_link h hash index t) = Some (et_link h hash index t1)" using Some el by simp
      then show ?thesis using True Some
        by (simp add: converge.simps [of _ t] converge.simps [of _ "et_link h hash index t"] sz c option.map_comp o_def split_beta)
    qed
  next
    case False
    then show ?thesis by (simp add: converge.simps [of _ t] converge.simps [of _ "et_link h hash index t"] sz)
  qed
qed

definition et_full :: "(Name \<Rightarrow> nat) \<Rightarrow> EncTable \<Rightarrow> bool" where
  "et_full H t \<longleftrightarrow> et_ok H t \<and> et_size t = entries_size (headers t) \<and> et_size t \<le> et_max_size t \<and> et_max_size t < 2 ^ 62"

lemma occupied_insert:
  assumes "et_full H t" and "length (et_slots t) < et_capacity t" and "header_len h \<le> et_max_size t"
    and "real_idx t index < length (et_slots t)" and "slot_next (et_slots t ! real_idx t index) = None"
    and "name (slot_header (et_slots t ! real_idx t index)) = name h"
  shows "\<exists>b u. update_size (header_len h) (Some index) t = Some (b, u) \<and> et_full H (et_link h (hash_header H h) index u) \<and>
    headers (et_link h (hash_header H h) index u) = spec_insert (et_max_size t) h (headers t) \<and>
    et_max_size (et_link h (hash_header H h) index u) = et_max_size t"
proof -
  let ?l = "et_link h (hash_header H h) index" and ?t = "t\<lparr>et_size := et_size t + header_len h\<rparr>" and ?i = "real_idx t index"
  have ok: "et_ok H t" using assms(1) by (simp add: et_full_def)
  have ne: "et_indices t \<noteq> []" by (rule et_ok_indices [OF ok]) (use assms(4) in auto)
  have n: "length (et_slots t) < 2 ^ 64 - 1" using et_ok_shape [OF ok ne] .
  have i: "unat (index + et_inserted ?t) < 2 ^ 64 - 1" using n assms(4) by (simp add: real_idx_def)
  have l: "?l ?t = ?t\<lparr>et_inserted := et_inserted t + 1, et_slots := \<lparr>slot_hash = hash_header H h, slot_header = h, slot_next = None\<rparr> #
      (et_slots t)[?i := (et_slots t ! ?i)\<lparr>slot_next := Some (0 - (et_inserted t + 1))\<rparr>]\<rparr>"
    using et_link_eq [OF i] assms(4) by (simp add: real_idx_def Let_def)
  have hl: "headers (?l ?t) = h # headers t"
    unfolding l headers_def using assms(4) by (simp add: map_update list_update_same_conv)
  have ls: "et_size (?l ?t) = entries_size (headers (?l ?t)) + 0" and lm: "et_max_size (?l ?t) = et_max_size t"
    unfolding hl unfolding l using assms(1) by (simp_all add: et_full_def)
  have okl: "et_ok H (?l ?t)"
    using ok linked_link [OF et_ok_linked [OF ok] n assms(4-6)] assms(2) unfolding l et_ok_def by (simp add: et_capacity_def)
  have "map_option (map_prod id ?l) (converge (Some index) ?t) = converge None (?l ?t)"
    by (rule converge_link [where x = "header_len h"])
      (use n i assms in \<open>auto simp: real_idx_def headers_def et_full_def\<close>)
  moreover obtain b u where u: "converge None (?l ?t) = Some (b, u)" "et_ok H u" "headers u = fit (et_max_size t) (h # headers t)"
      "et_size u = entries_size (headers u)" "evicted_to (?l ?t) u"
    using converge_ok [OF okl, of 0] ls unfolding lm hl by auto
  ultimately obtain u' where u': "converge (Some index) ?t = Some (b, u')" "u = ?l u'" by auto
  have "et_max_size u = et_max_size t" using u(5) lm by (simp add: evicted_to_def)
  moreover have "entries_size (headers u) \<le> et_max_size t" unfolding u(3) by (rule entries_size_fit)
  moreover have "fit (et_max_size t) (h # headers t) = spec_insert (et_max_size t) h (headers t)" by (simp add: spec_insert_def)
  ultimately show ?thesis using u u' assms(1) by (auto simp: update_size_def et_full_def)
qed

section \<open>Search\<close>

definition found_ok :: "EncTable \<Rightarrow> Name \<Rightarrow> nat \<Rightarrow> found \<Rightarrow> bool" where
  "found_ok t nm hash r \<longleftrightarrow>
     (case r of
        Vacant d q \<Rightarrow> d = dd (length (et_indices t)) hash q \<and> (\<forall>w. fits (et_indices t) \<lparr>pos_index = w, pos_hash = hash\<rparr> q)
      | Occupied w \<Rightarrow> real_idx t w < length (et_slots t) \<and> name (slot_header (et_slots t ! real_idx t w)) = nm)"

lemma pos_real: "et_ok H t \<Longrightarrow> p < length (et_indices t) \<Longrightarrow> et_indices t ! p = Some x \<Longrightarrow> real_idx t (pos_index x) < length (et_slots t)"
  using linked_pos [OF et_ok_linked] lives_iff unfolding real_idx_def by (metis nth_mem)

lemma search_run:
  assumes "et_ok H t" and "length (et_indices t) = 2 ^ k" and "k \<le> 64" and "et_mask t = 2 ^ k - 1"
  shows "p < length (et_indices t) \<Longrightarrow> wrap (length (et_indices t)) b = p \<Longrightarrow> dd (length (et_indices t)) hash p = dist \<Longrightarrow>
    (0 < dist \<longrightarrow> (\<exists>y. et_indices t ! prv (length (et_indices t)) p = Some y \<and>
       dist \<le> away (et_indices t) y (prv (length (et_indices t)) p) + 1)) \<Longrightarrow>
    et_indices t ! fwd_by (length (et_indices t)) p j = None \<Longrightarrow> dist + j < length (et_indices t) \<Longrightarrow> j < n \<Longrightarrow>
    \<exists>r. search n t nm hash b dist = Some r \<and> found_ok t nm hash r"
proof (induction j arbitrary: p b dist n)
  case 0
  then have e: "et_indices t ! p = None" by (simp add: fwd_by_simps)
  have "fits (et_indices t) \<lparr>pos_index = w, pos_hash = hash\<rparr> p" for w
    using 0 e by (simp add: fits_def)
  then show ?case using 0 e by (cases n) (simp_all add: found_ok_def)
next
  case (Suc j)
  let ?c = "length (et_indices t)" and ?q = "wrap (length (et_indices t)) (Suc p)"
  obtain m where n: "n = Suc m" "j < m" using Suc.prems(7) by (cases n) auto
  have step: "\<exists>r. search m t nm hash (Suc p) (Suc dist) = Some r \<and> found_ok t nm hash r"
    if "et_indices t ! p = Some x" "\<not> away (et_indices t) x p < dist" for x
  proof (rule Suc.IH [of ?q])
    show "dd ?c hash ?q = Suc dist" using dd_next [OF Suc.prems(1), of hash] Suc.prems(3,6) by auto
    show "0 < Suc dist \<longrightarrow> (\<exists>y. et_indices t ! prv ?c ?q = Some y \<and> Suc dist \<le> away (et_indices t) y (prv ?c ?q) + 1)"
      using that Suc.prems(1) by (simp add: ring_simps)
    show "et_indices t ! fwd_by ?c ?q j = None" using Suc.prems(1,5,6) by (simp add: fwd_by_simps)
  qed (use Suc.prems(1,6) n in \<open>auto simp: ring_simps\<close>)
  show ?case
  proof (cases "et_indices t ! p")
    case None
    have "fits (et_indices t) \<lparr>pos_index = w, pos_hash = hash\<rparr> p" for w
      using Suc.prems None by (simp add: fits_def)
    then show ?thesis using Suc.prems None by (simp add: n found_ok_def)
  next
    case (Some x)
    have pd: "probe_distance (et_mask t) (pos_hash x) p = away (et_indices t) x p"
      unfolding assms(4) assms(2) using assms(3) Suc.prems(1) assms(2) by (intro probe_distance_dd) simp_all
    show ?thesis
    proof (cases "away (et_indices t) x p < dist")
      case True
      have "fits (et_indices t) \<lparr>pos_index = w, pos_hash = hash\<rparr> p" for w
        using Suc.prems Some True by (simp add: fits_def)
      then show ?thesis using Suc.prems Some True pd by (simp add: n found_ok_def)
    next
      case False
      then show ?thesis using Suc.prems(2) Some pd step [OF Some False] pos_real [OF assms(1) Suc.prems(1) Some]
        by (auto simp: n slot_at_def found_ok_def)
    qed
  qed
qed

lemma search_ok:
  assumes "et_ok H t" and "et_indices t \<noteq> []"
  shows "\<exists>r. search (length (et_indices t)) t nm hash (desired_pos (et_mask t) hash) 0 = Some r \<and> found_ok t nm hash r"
proof -
  obtain k where k: "k \<le> 63" "length (et_indices t) = 2 ^ k" "et_mask t = 2 ^ k - 1" "None \<in> set (et_indices t)"
    using et_ok_shape [OF assms] .
  let ?c = "length (et_indices t)" and ?p = "desired_pos (et_mask t) hash"
  have p: "?p = hash mod ?c" unfolding k(2,3) by (rule desired_pos_mod)
  have pc: "?p < ?c" unfolding p using k(2) by simp
  obtain q where q: "q < ?c" "et_indices t ! q = None" using k(4) by (metis in_set_conv_nth)
  obtain j where j: "j < ?c" "fwd_by ?c ?p j = q" using fwd_by_exists [OF pc q(1)] by blast
  have "dd ?c hash ?p = 0" unfolding p by (simp add: dd_def)
  then show ?thesis using search_run [OF assms(1) k(2) _ k(3) pc, of _ hash 0 j] k(1) q j pc by (auto simp: wrap_def)
qed

lemma chain_ok:
  assumes "et_ok H t"
  shows "real_idx t index < length (et_slots t) \<Longrightarrow> real_idx t index < n \<Longrightarrow> name (slot_header (et_slots t ! real_idx t index)) = name h \<Longrightarrow>
    (case chain n t h index of
       None \<Rightarrow> False
     | Some (Inl i) \<Rightarrow> i < length (et_slots t) \<and> name (slot_header (et_slots t ! i)) = name h \<and> value_eq (slot_header (et_slots t ! i)) h
     | Some (Inr w) \<Rightarrow> real_idx t w < length (et_slots t) \<and> name (slot_header (et_slots t ! real_idx t w)) = name h \<and>
         slot_next (et_slots t ! real_idx t w) = None)"
proof (induction n arbitrary: index)
  case (Suc n)
  let ?s = "et_slots t ! real_idx t index"
  show ?case
  proof (cases "value_eq (slot_header ?s) h")
    case False
    show ?thesis
    proof (cases "slot_next ?s")
      case (Some w)
      have "real_idx t w < real_idx t index \<and> name (slot_header (et_slots t ! real_idx t w)) = name (slot_header ?s)"
        using linked_next [OF et_ok_linked [OF assms] Suc.prems(1) Some] by (simp add: real_idx_def)
      then show ?thesis using Suc.IH [of w] Suc.prems False Some by (simp add: slot_at_def)
    qed (use False Suc.prems in \<open>simp add: slot_at_def\<close>)
  qed (use Suc.prems in \<open>simp add: slot_at_def\<close>)
qed simp

section \<open>Insertion at a free place\<close>

lemma et_insert_simps [simp]:
  "et_indices (et_insert h hash t) = et_indices t" "et_mask (et_insert h hash t) = et_mask t" "et_size (et_insert h hash t) = et_size t"
  "et_max_size (et_insert h hash t) = et_max_size t" "et_inserted (et_insert h hash t) = et_inserted t + 1"
  "et_slots (et_insert h hash t) = \<lparr>slot_hash = hash, slot_header = h, slot_next = None\<rparr> # et_slots t"
  by (simp_all add: et_insert_def)

text \<open>The place that was found is still right after evictions, moved back.\<close>

lemma fits_after:
  assumes "length (et_indices t) = 2 ^ k" and "k \<le> 64" and "et_mask t = 2 ^ k - 1" and "evicted_to t u"
    and "found_ok t nm hash (Vacant d q)"
  shows "fits (et_indices u) \<lparr>pos_index = w, pos_hash = hash\<rparr> (snd (step_back (et_mask u) (et_indices u) d q))"
proof -
  let ?x = "\<lparr>pos_index = w, pos_hash = hash\<rparr>"
  have c: "closer (length (et_indices t)) (et_indices t) (et_indices u)" and m: "et_mask u = 2 ^ k - 1"
    using assms(3,4) by (simp_all add: evicted_to_def)
  have f: "fits (et_indices t) ?x q" "d = dd (length (et_indices t)) hash q" using assms(5) by (simp_all add: found_ok_def)
  have l: "length (et_indices u) = length (et_indices t)" using c by (simp add: closer_def)
  have "away (et_indices u) y q \<le> d" if y: "et_indices u ! q = Some y" for y
  proof -
    obtain x where "et_indices t ! q = Some x" "away (et_indices u) y q \<le> away (et_indices t) x q"
      using c f(1) y unfolding closer_def fits_def l by blast
    moreover from this(1) have "away (et_indices t) x q \<le> d" using f by (auto simp: fits_def)
    ultimately show ?thesis by linarith
  qed
  then show ?thesis unfolding m using f l assms(1,2) by (intro step_back_ok) (auto simp: fits_def)
qed

lemma vacant_insert:
  assumes "et_full H t" and "length (et_slots t) < et_capacity t" and "header_len h \<le> et_max_size t"
    and "found_ok t (name h) (hash_header H h) (Vacant d q)" and "\<not> is_sensitive h"
  shows "\<exists>t'. index_vacant h (hash_header H h) d q st t =
      Some (case st of Some (n, _) \<Rightarrow> InsertedValue n 0 | None \<Rightarrow> Inserted 0, t') \<and>
    et_full H t' \<and> headers t' = spec_insert (et_max_size t) h (headers t) \<and> et_max_size t' = et_max_size t"
proof -
  let ?h = "hash_header H h" and ?t = "t\<lparr>et_size := et_size t + header_len h\<rparr>"
  have ok: "et_ok H t" "et_ok H ?t" using assms(1) by (simp_all add: et_full_def et_ok_def et_capacity_def)
  have ne: "et_indices t \<noteq> []" using assms(2) by (auto simp: et_capacity_def usable_capacity_def)
  obtain k where k: "k \<le> 63" "length (et_indices t) = 2 ^ k" "et_mask t = 2 ^ k - 1" "2 < length (et_indices t)"
      "length (et_slots t) < 2 ^ 64 - 1"
    using et_ok_shape [OF ok(1) ne] .
  obtain b u where u: "converge None ?t = Some (b, u)" "et_ok H u" "headers u = fit (et_max_size t - header_len h) (headers t)"
      "et_size u = entries_size (headers u) + header_len h" "evicted_to ?t u" "b \<or> u = ?t"
    using converge_ok [OF ok(2), of "header_len h"] assms(1,3) by (auto simp: et_full_def headers_def)
  have l: "length (et_indices u) = length (et_indices t)" "et_max_size u = et_max_size t" "et_mask u = et_mask t"
    using u(5) by (auto simp: evicted_to_def closer_def)
  define probe where "probe = (if b then snd (step_back (et_mask u) (et_indices u) d q) else q)"
  define x where "x = \<lparr>pos_index = 0 - (et_inserted u + 1), pos_hash = ?h\<rparr>"
  have "fits (et_indices u) x probe"
    using fits_after [of ?t k u "name h" ?h d q] u(5,6) k assms(4) by (auto simp: probe_def x_def found_ok_def)
  moreover have ne': "et_indices u \<noteq> []" using l(1) k(4) by auto
  then have "None \<in> set (et_indices u)" using et_ok_shape [OF u(2)] by blast
  ultimately obtain ind where ind: "place (et_indices u) x probe = Some ind" "rh ind" "length ind = length (et_indices u)"
      "add_mset None (mset ind) = add_mset (Some x) (mset (et_indices u))"
    using place_ok [of "et_indices u" x probe] u(2) k(4) l(1) by (auto simp: et_ok_def)
  define t' where "t' = (et_insert h ?h u)\<lparr>et_indices := ind\<rparr>"
  have "lives ind = add_mset x (lives (et_indices u))" using live_place [OF ind(4)] by (simp add: lives_def)
  moreover have "length (headers u) \<le> length (headers t)" using fit_prefix [of _ "headers t"] u(3) by (metis length_take min.cobounded1)
  then have n: "length (et_slots u) \<le> length (et_slots t)" by (simp add: headers_def)
  ultimately have "et_ok H t'"
    using u(2) ind(2,3) linked_insert [OF et_ok_linked [OF u(2)], of h] n k(5) assms(2) l(1) ne'
    by (simp add: et_ok_def t'_def et_capacity_def x_def)
  moreover have hd: "headers t' = h # headers u" by (simp add: t'_def headers_def)
  moreover have "entries_size (headers u) \<le> et_max_size t - header_len h" unfolding u(3) by (rule entries_size_fit)
  ultimately have "et_full H t'" using u(4) assms(1,3) l(2) by (simp add: et_full_def) (simp add: t'_def)
  moreover have "index_vacant h ?h d q st t = Some (case st of Some (n, _) \<Rightarrow> InsertedValue n 0 | None \<Rightarrow> Inserted 0, t')"
    using assms(5) u(1) ind(1) by (simp add: index_vacant_def update_size_def t'_def probe_def x_def Let_def)
  moreover have "headers t' = spec_insert (et_max_size t) h (headers t)" using hd u(3) assms(3) by (simp add: spec_insert_def)
  ultimately show ?thesis using l(2) by (auto simp: t'_def)
qed

lemma et_full_slots: "et_full H t \<Longrightarrow> length (et_slots t) < 2 ^ 57"
  using entries_size_length [of "headers t"] by (simp add: et_full_def headers_def)

lemma linked_nil: "linked H ins [] L \<longleftrightarrow> L = {#}"
  by (auto simp: linked_def nexts_simps)

lemma rh_empty: "rh (replicate n None)"
  by (simp add: rh_def rh_at_def)

lemma reserve_one_ok:
  assumes "et_full H t"
  shows "\<exists>t'. reserve_one t = Some t' \<and> et_full H t' \<and> et_slots t' = et_slots t \<and> et_max_size t' = et_max_size t \<and>
    length (et_slots t') < et_capacity t'"
proof -
  have ok: "et_ok H t" using assms by (simp add: et_full_def)
  consider "length (et_slots t) < et_capacity t" | "length (et_slots t) = et_capacity t" "et_slots t = []"
    | "length (et_slots t) = et_capacity t" "et_slots t \<noteq> []"
    using ok by (fastforce simp: et_ok_def)
  then show ?thesis
  proof cases
    case 2
    have "et_full H (t\<lparr>et_mask := 8 - 1, et_indices := replicate 8 None\<rparr>)"
      using assms 2(2) by (auto simp: et_full_def et_ok_def headers_def linked_nil lives_empty rh_empty intro!: exI [of _ 3])
    moreover have "length (et_indices t) - length (et_indices t) div 4 = 0" using 2 by (metis et_capacity_def usable_capacity_def list.size(3))
    then have "length (et_indices t) = 0" by linarith
    ultimately show ?thesis using 2 by (simp add: reserve_one_def et_capacity_def usable_capacity_def)
  next
    case 3
    obtain k where k: "3 \<le> k" "k \<le> 63" "length (et_indices t) = 2 ^ k" "et_mask t = 2 ^ k - 1" "2 < length (et_indices t)"
        "None \<in> set (et_indices t)"
      using et_ok_shape [OF ok et_ok_indices [OF ok 3(2)]] .
    have c: "(2::nat) ^ k - 2 ^ k div 4 < 2 ^ 57"
      using et_full_slots [OF assms] 3(1) k(3) by (simp add: et_capacity_def usable_capacity_def)
    have "k < 58"
    proof (rule ccontr)
      assume "\<not> k < 58"
      then have "(2::nat) ^ 58 \<le> 2 ^ k" by (intro power_increasing) simp_all
      then show False using c by simp
    qed
    obtain ind where ind: "grow_indices (2 ^ k - 1) (et_indices t) (2 * 2 ^ k) = Some ind" "rh ind"
        "length ind = 2 * length (et_indices t)" "live ind = live (et_indices t)"
      using grow_ok [OF _ k(6,5,3)] k(2) ok by (auto simp: et_ok_def)
    have "et_full H (t\<lparr>et_indices := ind, et_mask := 2 * 2 ^ k - 1\<rparr>)"
      using assms ind \<open>k < 58\<close> k 3(1)
      by (auto simp: et_full_def et_ok_def headers_def et_capacity_def usable_capacity_def lives_def intro!: exI [of _ "Suc k"])
    then show ?thesis using 3 k ind by (auto simp: reserve_one_def grow_def et_capacity_def usable_capacity_def)
  qed (use assms in \<open>auto simp: reserve_one_def\<close>)
qed

section \<open>Indexing\<close>

text \<open>The entry an index refers to, in the static table or in the dynamic one.\<close>

definition refers :: "header list \<Rightarrow> nat \<Rightarrow> header option" where
  "refers hs n = (if n < DYN_OFFSET then get_static n else if n - DYN_OFFSET < length hs then Some (hs ! (n - DYN_OFFSET)) else None)"

definition names :: "header list \<Rightarrow> nat \<Rightarrow> header \<Rightarrow> bool" where
  "names hs n h \<longleftrightarrow> (\<exists>s. refers hs n = Some s \<and> name s = name h)"

definition matches :: "header list \<Rightarrow> nat \<Rightarrow> header \<Rightarrow> bool" where
  "matches hs n h \<longleftrightarrow> (\<exists>s. refers hs n = Some s \<and> name s = name h \<and> value_eq s h)"

text \<open>What a result of \<open>index\<close> promises: the entry has the name, or the whole header, before the header is inserted.\<close>

definition index_spec :: "nat \<Rightarrow> header \<Rightarrow> header list \<Rightarrow> Index \<Rightarrow> header list \<Rightarrow> bool" where
  "index_spec m h hs r hs' \<longleftrightarrow>
     (case r of
        Indexed n h' \<Rightarrow> h' = h \<and> hs' = hs \<and> matches hs n h
      | Index_Name n h' \<Rightarrow> h' = h \<and> hs' = hs \<and> names hs n h
      | NotIndexed h' \<Rightarrow> h' = h \<and> hs' = hs
      | Inserted i \<Rightarrow> i = 0 \<and> \<not> is_sensitive h \<and> header_len h \<le> m \<and> hs' = spec_insert m h hs
      | InsertedValue n i \<Rightarrow> i = 0 \<and> \<not> is_sensitive h \<and> header_len h \<le> m \<and> hs' = spec_insert m h hs \<and> names hs n h)"

lemma refers_static: "index_static h = Some (n, full) \<Longrightarrow> names hs n h \<and> (full \<longrightarrow> matches hs n h)"
  using index_static_get [of h n full] index_static_bounds [of h n full]
  by (auto simp: refers_def names_def matches_def DYN_OFFSET_def)

lemma refers_dynamic: "i < length (et_slots t) \<Longrightarrow> refers (headers t) (i + DYN_OFFSET) = Some (slot_header (et_slots t ! i))"
  by (simp add: refers_def headers_def)

lemma index_new_spec: "index_static h = st \<Longrightarrow> index_spec m h hs (index_new st h) hs"
  using refers_static [of h] by (auto simp: index_new_def index_spec_def split: option.splits bool.splits)

lemma index_occupied_ok:
  assumes "et_full H t" and "\<not> is_sensitive h \<longrightarrow> length (et_slots t) < et_capacity t" and "header_len h \<le> et_max_size t"
    and "found_ok t (name h) (hash_header H h) (Occupied w)"
  shows "\<exists>r t'. index_occupied h (hash_header H h) w (map_option fst (index_static h)) t = Some (r, t') \<and> et_full H t' \<and>
    et_max_size t' = et_max_size t \<and> index_spec (et_max_size t) h (headers t) r (headers t')"
proof -
  let ?n = "length (et_slots t)"
  have ok: "et_ok H t" using assms(1) by (simp add: et_full_def)
  have w: "real_idx t w < ?n" "name (slot_header (et_slots t ! real_idx t w)) = name h" using assms(4) by (simp_all add: found_ok_def)
  note c = chain_ok [OF ok w(1) w(1) w(2)]
  show ?thesis
  proof (cases "chain ?n t h w")
    case (Some v)
    show ?thesis
    proof (cases v)
      case (Inl i)
      then show ?thesis using c Some assms(1) by (auto simp: index_occupied_def index_spec_def matches_def refers_dynamic)
    next
      case (Inr x)
      then have x: "real_idx t x < ?n" "name (slot_header (et_slots t ! real_idx t x)) = name h" "slot_next (et_slots t ! real_idx t x) = None"
        using c Some by auto
      have nm: "names (headers t) (real_idx t x + DYN_OFFSET) h" using x by (simp add: names_def refers_dynamic)
      show ?thesis
      proof (cases "is_sensitive h")
        case True
        then show ?thesis using Some Inr nm assms(1) by (simp add: index_occupied_def index_spec_def)
      next
        case False
        then obtain b u where u: "update_size (header_len h) (Some x) t = Some (b, u)" "et_full H (et_link h (hash_header H h) x u)"
            "headers (et_link h (hash_header H h) x u) = spec_insert (et_max_size t) h (headers t)"
            "et_max_size (et_link h (hash_header H h) x u) = et_max_size t"
          using occupied_insert [OF assms(1) _ assms(3) x(1,3,2)] assms(2) by blast
        then show ?thesis using Some Inr False nm assms(3) refers_static [of h]
          by (auto simp: index_occupied_def index_spec_def split: option.splits)
      qed
    qed
  qed (use c in simp)
qed

lemma et_index_cases:
  "et_index H h t = Some (index_new (index_static h) h, t) \<or>
   (\<exists>n. et_index H h t = Some (Indexed n h, t) \<and> index_static h = Some (n, True)) \<or>
   et_index H h t = index_dynamic H h (index_static h) t \<and> header_len h * 4 \<le> et_max_size t * 3"
proof (cases "index_static h")
  case (Some a)
  then show ?thesis by (cases a; cases "snd a") (auto simp: et_index_def Let_def)
qed (auto simp: et_index_def)

lemma et_index_ok:
  assumes "et_full H t"
  shows "\<exists>r t'. et_index H h t = Some (r, t') \<and> et_full H t' \<and> et_max_size t' = et_max_size t \<and>
    index_spec (et_max_size t) h (headers t) r (headers t')"
proof -
  let ?st = "index_static h"
  have new: ?thesis if "et_index H h t = Some (index_new ?st h, t)" using that assms index_new_spec [OF refl] by auto
  consider "et_index H h t = Some (index_new ?st h, t)" | n where "et_index H h t = Some (Indexed n h, t)" "?st = Some (n, True)"
    | "et_index H h t = index_dynamic H h ?st t" "header_len h * 4 \<le> et_max_size t * 3"
    using et_index_cases [of H h t] by blast
  then show ?thesis
  proof cases
    case 2
    then show ?thesis using assms refers_static [of h] by (auto simp: index_spec_def)
  next
    case 3
    have len: "header_len h \<le> et_max_size t" using 3(2) by linarith
    obtain u where u: "(if header_len h + et_size t < et_max_size t \<or> \<not> is_sensitive h then reserve_one t else Some t) = Some u"
        "et_full H u" "et_slots u = et_slots t" "et_max_size u = et_max_size t" "\<not> is_sensitive h \<longrightarrow> length (et_slots u) < et_capacity u"
      using reserve_one_ok [OF assms] assms by (cases "header_len h + et_size t < et_max_size t \<or> \<not> is_sensitive h") auto
    have hd: "headers u = headers t" using u(3) by (simp add: headers_def)
    show ?thesis
    proof (cases "et_indices u = []")
      case True
      then show ?thesis using 3 u hd index_new_spec [OF refl, of "et_max_size t" h "headers t"] by (simp add: index_dynamic_def)
    next
      case False
      have ok: "et_ok H u" using u(2) by (simp add: et_full_def)
      obtain r where r: "search (length (et_indices u)) u (name h) (hash_header H h) (desired_pos (et_mask u) (hash_header H h)) 0 = Some r"
          "found_ok u (name h) (hash_header H h) r"
        using search_ok [OF ok False] by blast
      show ?thesis
      proof (cases r)
        case (Occupied w)
        then show ?thesis using index_occupied_ok [OF u(2,5), of w] r u(1,4) hd 3 False len by (simp add: index_dynamic_def)
      next
        case (Vacant d q)
        have dyn: "index_dynamic H h ?st t = index_vacant h (hash_header H h) d q ?st u"
          using u(1) False r(1) Vacant by (simp add: index_dynamic_def)
        show ?thesis
        proof (cases "is_sensitive h")
          case True
          then show ?thesis using 3 dyn u(2,4) hd index_new_spec [OF refl, of "et_max_size t" h "headers t"] by (simp add: index_vacant_def)
        next
          case sens: False
          then show ?thesis
            using vacant_insert [OF u(2) _ _ _ sens, of d q ?st] u(4,5) len r(2) Vacant 3(1) dyn hd refers_static [of h]
            by (auto simp: index_spec_def split: option.splits)
        qed
      qed
    qed
  qed (rule new)
qed

lemma resize_ok:
  assumes "et_full H t" and "n < 2 ^ 62"
  shows "\<exists>t'. resize n t = Some t' \<and> et_full H t' \<and> headers t' = fit n (headers t) \<and> et_max_size t' = n"
proof (cases "n = 0")
  case True
  have "fit 0 (headers t) = []" using header_len_ge [of "hd (headers t)"] by (cases "headers t") auto
  moreover have "map (\<lambda>_. None) (et_indices t) = replicate (length (et_indices t)) (None :: Pos option)" by (simp add: map_replicate_const)
  ultimately show ?thesis using assms True
    by (simp add: resize_def et_full_def et_ok_def headers_def linked_nil lives_empty rh_empty et_capacity_def)
next
  case False
  let ?t = "t\<lparr>et_max_size := n\<rparr>"
  have "et_ok H ?t" "et_size ?t = entries_size (headers ?t) + 0" "headers ?t = headers t"
    using assms(1) by (simp_all add: et_full_def et_ok_def et_capacity_def headers_def)
  then obtain b u where u: "converge None ?t = Some (b, u)" "et_ok H u" "headers u = fit n (headers t)"
      "et_size u = entries_size (headers u)" "evicted_to ?t u"
    using converge_ok [of H ?t 0] by auto
  have "entries_size (headers u) \<le> n" unfolding u(3) by (rule entries_size_fit)
  then show ?thesis using False u assms(2) by (auto simp: resize_def et_full_def evicted_to_def)
qed

lemma next_power_of_two_from_power:
  "p = 2 ^ j \<Longrightarrow> \<exists>k. next_power_of_two_from n p = 2 ^ k \<and> (n \<le> 2 ^ m \<longrightarrow> j \<le> m \<longrightarrow> k \<le> m)"
proof (induction n p arbitrary: j rule: next_power_of_two_from.induct)
  case (1 n p)
  show ?case
  proof (cases "n \<le> p")
    case True
    then show ?thesis using 1(2) by (auto simp: next_power_of_two_from.simps [of n "2 ^ j"])
  next
    case False
    then obtain k where k: "next_power_of_two_from n (2 * p) = 2 ^ k" "n \<le> 2 ^ m \<longrightarrow> Suc j \<le> m \<longrightarrow> k \<le> m"
      using 1(1) [of "Suc j"] 1(2) by auto
    have "n \<le> 2 ^ m \<longrightarrow> j < m" using False 1(2) by (auto simp: not_le) (meson less_le_trans nat_power_less_imp_less not_gr0 zero_less_numeral)
    then show ?thesis using False k 1(2) by (auto simp: next_power_of_two_from.simps [of n "2 ^ j"])
  qed
qed

lemma et_new_ok:
  assumes "to_raw_capacity capacity \<le> 2 ^ 63" and "n < 2 ^ 62"
  shows "et_full H (et_new n capacity) \<and> headers (et_new n capacity) = [] \<and> et_max_size (et_new n capacity) = n"
proof -
  obtain k where k: "next_power_of_two_from (to_raw_capacity capacity) 1 = 2 ^ k" "k \<le> 63"
    using next_power_of_two_from_power [of 1 0 "to_raw_capacity capacity" 63] assms(1) by auto
  have "max (2 ^ k) (8 :: nat) = 2 ^ max k 3"
  proof (cases "k \<le> 3")
    case True
    then have "(2 :: nat) ^ k \<le> 2 ^ 3" by (intro power_increasing) simp_all
    then show ?thesis using True by (simp add: max_def)
  next
    case False
    then have "(2 :: nat) ^ 3 \<le> 2 ^ k" by (intro power_increasing) simp_all
    then show ?thesis using False by (simp add: max_def)
  qed
  moreover have "3 \<le> max k 3" "max k 3 \<le> 63" using k(2) by simp_all
  ultimately show ?thesis using assms(2) k(1)
    by (auto simp: et_new_def et_full_def et_ok_def headers_def linked_nil lives_empty rh_empty lives_empty [of 0, simplified]
        rh_empty [of 0, simplified] Let_def)
qed

end
