(* ===== verification/Hpack_Encoder.thy ===== *)
theory Hpack_Encoder
  imports Hpack_Table Hpack_Decoder
begin

text \<open>
  \<open>http/src/h2/proto/hpack/encoder.rs\<close>: the encoder of header blocks, and the two ends of a connection together: the
  blocks of the encoder decode to the headers they were made of. No result means that the code would panic.
\<close>

unbundle bit_operations_syntax

section \<open>The encoder\<close>

datatype SizeUpdate = One nat | Two nat nat

record Encoder =
  e_table :: EncTable
  e_size_update :: "SizeUpdate option"

definition encoder_new :: "nat \<Rightarrow> nat \<Rightarrow> Encoder" where
  "encoder_new n capacity = \<lparr>e_table = et_new n capacity, e_size_update = None\<rparr>"

definition update_max_size :: "nat \<Rightarrow> Encoder \<Rightarrow> Encoder" where
  "update_max_size val e =
     (case e_size_update e of
        Some (One old) \<Rightarrow>
          if val > old then
            if old > et_max_size (e_table e) then e\<lparr>e_size_update := Some (One val)\<rparr>
            else e\<lparr>e_size_update := Some (Two old val)\<rparr>
          else e\<lparr>e_size_update := Some (One val)\<rparr>
      | Some (Two mn _) \<Rightarrow>
          if val < mn then e\<lparr>e_size_update := Some (One val)\<rparr> else e\<lparr>e_size_update := Some (Two mn val)\<rparr>
      | None \<Rightarrow> if val \<noteq> et_max_size (e_table e) then e\<lparr>e_size_update := Some (One val)\<rparr> else e)"

definition encode_size_update :: "nat \<Rightarrow> bytes \<Rightarrow> bytes" where
  "encode_size_update val dst = encode_int val 5 0x20 dst"

definition encode_not_indexed :: "nat \<Rightarrow> bytes \<Rightarrow> bool \<Rightarrow> bytes \<Rightarrow> bytes option" where
  "encode_not_indexed nm val sensitive dst = encode_str val (encode_int nm 4 (if sensitive then 0x10 else 0) dst)"

definition encode_not_indexed2 :: "bytes \<Rightarrow> bytes \<Rightarrow> bool \<Rightarrow> bytes \<Rightarrow> bytes option" where
  "encode_not_indexed2 nm val sensitive dst =
     Option.bind (encode_str nm (dst @ [if sensitive then 0x10 else 0])) (encode_str val)"

definition encode_size_updates :: "Encoder \<Rightarrow> bytes \<Rightarrow> (Encoder \<times> bytes) option" where
  "encode_size_updates e dst =
     (let e' = e\<lparr>e_size_update := None\<rparr> in
      (case e_size_update e of
         Some (One val) \<Rightarrow> map_option (\<lambda>t. (e'\<lparr>e_table := t\<rparr>, encode_size_update val dst)) (resize val (e_table e))
       | Some (Two mn mx) \<Rightarrow>
           map_option (\<lambda>t. (e'\<lparr>e_table := t\<rparr>, encode_size_update mx (encode_size_update mn dst)))
             (Option.bind (resize mn (e_table e)) (resize mx))
       | None \<Rightarrow> Some (e', dst)))"

definition encode_header :: "h2_lib \<Rightarrow> EncTable \<Rightarrow> Index \<Rightarrow> bytes \<Rightarrow> bytes option" where
  "encode_header L t index dst =
     (case index of
        Indexed idx _ \<Rightarrow> Some (encode_int idx 7 0x80 dst)
      | Index_Name idx _ \<Rightarrow>
          Option.bind (resolve t index) (\<lambda>h. encode_not_indexed idx (value_slice L h) (is_sensitive h) dst)
      | Inserted _ \<Rightarrow>
          Option.bind (resolve t index) (\<lambda>h.
            if is_sensitive h then None
            else Option.bind (encode_str (as_slice (name h)) (dst @ [0x40])) (encode_str (value_slice L h)))
      | InsertedValue idx _ \<Rightarrow>
          Option.bind (resolve t index) (\<lambda>h.
            if is_sensitive h then None else encode_str (value_slice L h) (encode_int idx 6 0x40 dst))
      | NotIndexed _ \<Rightarrow>
          Option.bind (resolve t index) (\<lambda>h.
            encode_not_indexed2 (as_slice (name h)) (value_slice L h) (is_sensitive h) dst))"

definition encode_header_without_name :: "EncTable \<Rightarrow> Index \<Rightarrow> HeaderValue \<Rightarrow> bytes \<Rightarrow> bytes option" where
  "encode_header_without_name t last_index val dst =
     (case last_index of
        NotIndexed _ \<Rightarrow>
          Option.bind (resolve t last_index) (\<lambda>h. encode_not_indexed2 (as_slice (name h)) (hv_bytes val) (hv_sensitive val) dst)
      | _ \<Rightarrow>
          Option.bind (resolve_idx last_index) (\<lambda>idx. encode_not_indexed idx (hv_bytes val) (hv_sensitive val) dst))"

text \<open>The loop of \<open>encode\<close>, with the index of the last header that had a name.\<close>

fun encode_headers_loop ::
    "(Name \<Rightarrow> nat) \<Rightarrow> h2_lib \<Rightarrow> Index option \<Rightarrow> bytes option Header list \<Rightarrow> EncTable \<Rightarrow> bytes \<Rightarrow> (EncTable \<times> bytes) option" where
  "encode_headers_loop H L last_index [] t dst = Some (t, dst)"
| "encode_headers_loop H L last_index (h # hs) t dst =
     (case reify h of
        Inr h \<Rightarrow>
          (case et_index H h t of
             None \<Rightarrow> None
           | Some (index, t) \<Rightarrow> Option.bind (encode_header L t index dst) (encode_headers_loop H L (Some index) hs t))
      | Inl val \<Rightarrow>
          (case last_index of
             None \<Rightarrow> None
           | Some index \<Rightarrow> Option.bind (encode_header_without_name t index val dst) (encode_headers_loop H L last_index hs t)))"

definition hpack_encode ::
    "(Name \<Rightarrow> nat) \<Rightarrow> h2_lib \<Rightarrow> bytes option Header list \<Rightarrow> Encoder \<Rightarrow> bytes \<Rightarrow> (Encoder \<times> bytes) option" where
  "hpack_encode H L hs e dst =
     (case encode_size_updates e dst of
        None \<Rightarrow> None
      | Some (e, dst) \<Rightarrow> map_option (\<lambda>(t, dst). (e\<lparr>e_table := t\<rparr>, dst)) (encode_headers_loop H L None hs (e_table e) dst))"

section \<open>Well-formed headers\<close>

text \<open>
  What the types of the crate \<open>http\<close> guarantee: a header name was made by \<open>from_lowercase\<close>, a value by \<open>from_bytes\<close>,
  a method and a status read back as themselves, and strings are UTF-8. And the strings fit the integers of the decoder.
\<close>

fun header_wf :: "h2_lib \<Rightarrow> header \<Rightarrow> bool" where
  "header_wf L (Field n v) \<longleftrightarrow> n \<noteq> [] \<and> n ! 0 \<noteq> 0x3A \<and> hn_from_lowercase L n = Some n \<and>
     hv_from_bytes L (hv_bytes v) = Some (v\<lparr>hv_sensitive := False\<rparr>)"
| "header_wf L (Authority v) \<longleftrightarrow> valid_utf8 v"
| "header_wf L (Method v) \<longleftrightarrow> method_from_bytes L v = Some v"
| "header_wf L (Scheme v) \<longleftrightarrow> valid_utf8 v"
| "header_wf L (Path v) \<longleftrightarrow> valid_utf8 v"
| "header_wf L (Protocol v) \<longleftrightarrow> valid_utf8 v"
| "header_wf L (Status v) \<longleftrightarrow> status_from_bytes L (status_as_str L v) = Some v"

lemma code_max: "list_all (\<lambda>s. fst (code s) \<le> 30) [0..<257]"
  by (simp add: upt_257 upt_256 code_rules del: One_nat_def)

lemma string_code_length: "length (string_code v) \<le> 30 * length v"
proof (induction v)
  case (Cons b v)
  have "unat b < 257" by (rule less_trans [OF unsigned_less]) simp
  then have "length (code_bits (unat b)) \<le> 30" using code_max by (auto simp: list_all_iff code_bits_def case_prod_beta)
  then show ?case using Cons by (simp add: string_code_def)
qed (simp add: string_code_def)

lemma bits_length: "length (bits bs) = 8 * length bs"
  by (induction bs) (simp_all add: byte_bits_def)

lemma huff_encode_length: "length (huff_encode v []) \<le> 4 * length v"
proof -
  obtain p where "p < 8" "bits (huff_encode v []) = string_code v @ replicate p True" using huff_encode_bits [of v "[]"] by auto
  then have "8 * length (huff_encode v []) = length (string_code v) + p" by (metis bits_length length_append length_replicate)
  then show ?thesis using string_code_length [of v] \<open>p < 8\<close> by linarith
qed

lemma str_fits_length: "length v \<le> 2 ^ 26 \<Longrightarrow> str_fits v"
  using huff_encode_length [of v] by (simp add: str_fits_def)

definition header_fits :: "h2_lib \<Rightarrow> header \<Rightarrow> bool" where
  "header_fits L h \<longleftrightarrow> length (as_slice (name h)) \<le> 2 ^ 26 \<and> length (value_slice L h) \<le> 2 ^ 26"

lemma header_fits_str: "header_fits L h \<Longrightarrow> str_fits (as_slice (name h)) \<and> str_fits (value_slice L h)"
  by (simp add: header_fits_def str_fits_length)

text \<open>A header without the mark that it must not be indexed, as the decoder reports it.\<close>

fun plain :: "header \<Rightarrow> header" where
  "plain (Field n v) = Field n (v\<lparr>hv_sensitive := False\<rparr>)"
| "plain h = h"

lemma plain_id: "\<not> is_sensitive h \<Longrightarrow> plain h = h"
  by (cases h) auto

lemma value_eq_plain: "name s = name h \<Longrightarrow> value_eq s h \<Longrightarrow> \<not> is_sensitive s \<Longrightarrow> s = plain h"
  by (cases s; cases h) (auto simp: hv_eq_def)

lemma into_entry_wf: "header_wf L h \<Longrightarrow> into_entry L (name h) (value_slice L h) = Inr (plain h)"
  by (cases h) (simp_all add: map_ok_def or_invalid_def str_from_def)

lemma header_new_wf: "header_wf L h \<Longrightarrow> header_new L (as_slice (name h)) (value_slice L h) = Inr (plain h)"
  by (cases h) (simp_all add: map_ok_def or_invalid_def str_from_def header_new_def ascii_def Let_def)

lemma static_not_sensitive: "get_static n = Some s \<Longrightarrow> \<not> is_sensitive s"
proof -
  have "\<forall>s\<in>set static_entries. \<not> is_sensitive s" by (simp add: static_entries_def static_field_def)
  moreover have "length static_entries = 61" by (simp add: static_entries_def)
  ultimately show "get_static n = Some s \<Longrightarrow> \<not> is_sensitive s"
    by (auto simp: get_static_def split: if_splits)
qed

lemma str_fits_encode: "str_fits v \<Longrightarrow> encode_str v dst = Some (dst @ str_bytes v)"
proof (rule encode_str_bytes)
  assume f: "str_fits v"
  let ?n = "length (huff_encode v [])"
  have "length (encode_int ?n 7 0x80 []) \<le> 1 + 4"
  proof (cases "encode_int_one_byte ?n 7")
    case False
    have "?n - 127 < 128 ^ 4" using f by (simp add: str_fits_def)
    then have "length (encode_int_loop (?n - 127) []) \<le> 4" using encode_int_loop_length [of 4 "?n - 127"] by simp
    then show ?thesis using False by (simp add: encode_int_def Let_def encode_int_loop_append [of _ "[_]"])
  qed (simp add: encode_int_def)
  then show "length (encode_int ?n 7 0x80 []) \<le> PLACEHOLDER_LEN" by (simp add: PLACEHOLDER_LEN_def)
qed

section \<open>Encoder and decoder in step\<close>

definition in_step :: "(Name \<Rightarrow> nat) \<Rightarrow> EncTable \<Rightarrow> Decoder \<Rightarrow> bool" where
  "in_step H t d \<longleftrightarrow> et_full H t \<and> dt_ok (d_table d) \<and> dt_entries (d_table d) = headers t \<and> dt_max_size (d_table d) = et_max_size t \<and>
     et_max_size t < 2 ^ 28 \<and> d_buffer d = [] \<and> (\<forall>s\<in>set (headers t). \<not> is_sensitive s)"

lemma refers_get:
  assumes "in_step H t d" and "refers (headers t) n = Some s"
  shows "dt_get n (d_table d) = Inr s \<and> 0 < n \<and> n < 2 ^ 28 \<and> \<not> is_sensitive s"
proof (cases "n < DYN_OFFSET")
  case True
  then have g: "get_static n = Some s" using assms(2) by (simp add: refers_def)
  then have "1 \<le> n" "n \<le> 61" by (auto simp: get_static_def split: if_splits)
  then show ?thesis using g static_not_sensitive by (simp add: dt_get_def)
next
  case False
  then have i: "n - DYN_OFFSET < length (headers t)" "s = headers t ! (n - DYN_OFFSET)"
    using assms(2) by (auto simp: refers_def split: if_splits)
  have "32 * length (headers t) < 2 ^ 28"
    using entries_size_length [of "headers t"] assms(1) by (auto simp: in_step_def et_full_def)
  then show ?thesis using False i assms(1) by (simp add: in_step_def dt_get_def DYN_OFFSET_def)
qed

text \<open>The index of the last header with a name, as a later header without one uses it.\<close>

definition last_ok :: "EncTable \<Rightarrow> Index \<Rightarrow> Name \<Rightarrow> bool" where
  "last_ok t index nm \<longleftrightarrow>
     (case index of
        NotIndexed h \<Rightarrow> name h = nm
      | _ \<Rightarrow> (\<exists>i s. resolve_idx index = Some i \<and> refers (headers t) i = Some s \<and> name s = nm))"

text \<open>Some bytes that, appended by the encoder, make the decoder report one header and go on.\<close>

definition reads :: "h2_lib \<Rightarrow> Decoder \<Rightarrow> bytes \<Rightarrow> header \<Rightarrow> Decoder \<Rightarrow> bool" where
  "reads L d bs h d' \<longleftrightarrow>
     (\<forall>cr rest. decode_loop L cr d (cur_of (bs @ rest)) =
        (case decode_loop L False d' (cur_of rest) of (r, d, c, hs) \<Rightarrow> (r, d, c, h # hs)))"

lemma reads_indexed: "in_step H t d \<Longrightarrow> refers (headers t) n = Some s \<Longrightarrow> reads L d (encode_int n 7 0x80 []) s d"
  using refers_get [of H t d n s] loop_indexed [of n d s L] by (auto simp: reads_def)

lemma reads_named:
  assumes "in_step H t d" and "refers (headers t) n = Some s" and "name s = name h" and "header_wf L h" and "header_fits L h"
    and "f = 0x40 \<and> i \<or> (f = 0 \<or> f = 0x10) \<and> \<not> i"
  shows "reads L d (encode_int n (if i then 6 else 4) f [] @ str_bytes (value_slice L h)) (plain h)
    (if i then d\<lparr>d_table := dt_insert (plain h) (d_table d)\<rparr> else d)"
  using loop_named [OF assms(6), of n d s L "value_slice L h" "plain h"] refers_get [OF assms(1,2)] assms(1,3,5) into_entry_wf [OF assms(4)]
  by (simp add: reads_def header_fits_str in_step_def)

lemma reads_new:
  assumes "in_step H t d" and "header_wf L h" and "header_fits L h" and "f = 0x40 \<and> i \<or> (f = 0 \<or> f = 0x10) \<and> \<not> i"
  shows "reads L d (f # str_bytes (as_slice (name h)) @ str_bytes (value_slice L h)) (plain h)
    (if i then d\<lparr>d_table := dt_insert (plain h) (d_table d)\<rparr> else d)"
  using loop_new [OF assms(4) header_new_wf [OF assms(2)]] assms(1,3) by (simp add: reads_def header_fits_str in_step_def)

lemma encode_named:
  "header_fits L h \<Longrightarrow> encode_not_indexed n (value_slice L h) b dst =
     Some (dst @ encode_int n 4 (if b then 0x10 else 0) [] @ str_bytes (value_slice L h))"
  by (simp add: encode_not_indexed_def header_fits_str str_fits_encode encode_int_append [of _ _ _ dst])

lemma encode_inserted:
  "header_fits L h \<Longrightarrow> encode_str (value_slice L h) (encode_int n 6 0x40 dst) =
     Some (dst @ encode_int n 6 0x40 [] @ str_bytes (value_slice L h))"
  by (simp add: header_fits_str str_fits_encode encode_int_append [of _ _ _ dst])

lemma encode_new:
  "header_fits L h \<Longrightarrow> encode_not_indexed2 (as_slice (name h)) (value_slice L h) b dst =
     Some (dst @ (if b then 0x10 else 0) # str_bytes (as_slice (name h)) @ str_bytes (value_slice L h))"
  by (simp add: encode_not_indexed2_def header_fits_str str_fits_encode)

lemma in_step_insert:
  assumes "in_step H t d" and "et_full H t'" and "et_max_size t' = et_max_size t" and "\<not> is_sensitive h"
    and "headers t' = spec_insert (et_max_size t) h (headers t)"
  shows "in_step H t' (d\<lparr>d_table := dt_insert (plain h) (d_table d)\<rparr>)"
proof -
  have "set (spec_insert m h hs) \<subseteq> insert h (set hs)" for m hs
    using fit_prefix [of "m - header_len h" hs] by (auto simp: spec_insert_def dest: in_set_takeD)
  then show ?thesis using assms dt_insert_spec [of "d_table d" h] by (auto simp: in_step_def plain_id)
qed

lemma header_step:
  assumes "in_step H t d" and "header_wf L h" and "header_fits L h"
  shows "\<exists>index t' d' bs. et_index H h t = Some (index, t') \<and> (\<forall>dst. encode_header L t' index dst = Some (dst @ bs)) \<and>
    reads L d bs (plain h) d' \<and> in_step H t' d' \<and> last_ok t' index (name h) \<and> d' = d\<lparr>d_table := d_table d'\<rparr>"
proof -
  have full: "et_full H t" using assms(1) by (simp add: in_step_def)
  obtain index t' where x: "et_index H h t = Some (index, t')" "et_full H t'" "et_max_size t' = et_max_size t"
      "index_spec (et_max_size t) h (headers t) index (headers t')"
    using et_index_ok [OF full] by blast
  have keep: "in_step H t' d" if "headers t' = headers t" using assms(1) x(2,3) that by (simp add: in_step_def)
  have ins: ?thesis
    if i: "\<not> is_sensitive h" "headers t' = spec_insert (et_max_size t) h (headers t)" "header_len h \<le> et_max_size t"
      and e: "\<forall>dst. encode_header L t' index dst = Some (dst @ bs)" and v: "resolve_idx index = Some DYN_OFFSET"
      and r: "reads L d bs (plain h) (d\<lparr>d_table := dt_insert (plain h) (d_table d)\<rparr>)" for bs
  proof -
    have "refers (headers t') DYN_OFFSET = Some h" using i(2,3) by (simp add: refers_def spec_insert_def DYN_OFFSET_def)
    then have "last_ok t' index (name h)" using v by (cases index) (auto simp: last_ok_def)
    then show ?thesis using x(1) e r in_step_insert [OF assms(1) x(2,3) i(1,2)]
      by (intro exI [of _ index] exI [of _ t'] exI [of _ "d\<lparr>d_table := dt_insert (plain h) (d_table d)\<rparr>"] exI [of _ bs]) simp
  qed
  have slot: "resolve t' (Inserted 0) = Some h \<and> resolve t' (InsertedValue n 0) = Some h"
    if "headers t' = spec_insert (et_max_size t) h (headers t)" "header_len h \<le> et_max_size t" for n
    using that by (cases "et_slots t'") (simp_all add: slot_at_def headers_def spec_insert_def)
  have lit: ?thesis if "headers t' = headers t" "\<forall>dst. encode_header L t' index dst = Some (dst @ bs)" "reads L d bs (plain h) d"
    "last_ok t' index (name h)" for bs
    using x(1) keep [OF that(1)] that by (intro exI [of _ index] exI [of _ t'] exI [of _ d] exI [of _ bs]) simp
  show ?thesis
  proof (cases index)
    case (Indexed n h')
    then obtain s where s: "headers t' = headers t" "refers (headers t) n = Some s" "name s = name h" "value_eq s h"
      using x(4) by (auto simp: index_spec_def matches_def)
    have "s = plain h" using value_eq_plain [OF s(3,4)] refers_get [OF assms(1) s(2)] by simp
    moreover have "\<forall>dst. encode_header L t' index dst = Some (dst @ encode_int n 7 0x80 [])"
      unfolding Indexed encode_header_def by simp (metis encode_int_append)
    ultimately show ?thesis using lit [of "encode_int n 7 0x80 []"] s reads_indexed [OF assms(1) s(2)]
      by (simp add: Indexed last_ok_def)
  next
    case (Index_Name n h')
    then obtain s where s: "headers t' = headers t" "refers (headers t) n = Some s" "name s = name h" "h' = h"
      using x(4) by (auto simp: index_spec_def names_def)
    show ?thesis
      by (rule lit [of "encode_int n 4 (if is_sensitive h then 0x10 else 0) [] @ str_bytes (value_slice L h)"])
        (use s reads_named [OF assms(1) s(2,3) assms(2,3), of "if is_sensitive h then 0x10 else 0" False] assms(3)
          in \<open>auto simp: Index_Name encode_header_def encode_named last_ok_def\<close>)
  next
    case (Inserted i)
    then have i: "i = 0" "\<not> is_sensitive h" "header_len h \<le> et_max_size t" "headers t' = spec_insert (et_max_size t) h (headers t)"
      using x(4) by (auto simp: index_spec_def)
    show ?thesis
      by (rule ins [OF i(2,4,3), of "0x40 # str_bytes (as_slice (name h)) @ str_bytes (value_slice L h)"])
        (use i slot [OF i(4,3)] reads_new [OF assms, of "0x40" True] assms(3)
          in \<open>auto simp: Inserted encode_header_def header_fits_str str_fits_encode simp del: resolve.simps\<close>)
  next
    case (InsertedValue n i)
    then obtain s where i: "i = 0" "\<not> is_sensitive h" "header_len h \<le> et_max_size t" "headers t' = spec_insert (et_max_size t) h (headers t)"
        and s: "refers (headers t) n = Some s" "name s = name h"
      using x(4) by (auto simp: index_spec_def names_def)
    show ?thesis
      by (rule ins [OF i(2,4,3), of "encode_int n 6 0x40 [] @ str_bytes (value_slice L h)"])
        (use i slot [OF i(4,3)] reads_named [OF assms(1) s assms(2,3), of "0x40" True] assms(3)
          in \<open>auto simp: InsertedValue encode_header_def encode_inserted simp del: resolve.simps\<close>)
  next
    case (NotIndexed h')
    then have h: "h' = h" "headers t' = headers t" using x(4) by (auto simp: index_spec_def)
    show ?thesis
      by (rule lit [of "(if is_sensitive h then 0x10 else 0) # str_bytes (as_slice (name h)) @ str_bytes (value_slice L h)"])
        (use h reads_new [OF assms, of "if is_sensitive h then 0x10 else 0" False] assms(3)
          in \<open>auto simp: NotIndexed encode_header_def encode_new last_ok_def\<close>)
  qed
qed

lemma nameless_step:
  assumes "in_step H t d" and "last_ok t index (Name_Field n)" and "header_wf L (Field n v)" and "header_fits L (Field n v)"
  shows "\<exists>bs. (\<forall>dst. encode_header_without_name t index v dst = Some (dst @ bs)) \<and> reads L d bs (plain (Field n v)) d"
proof -
  let ?f = "if hv_sensitive v then 0x10 else 0 :: u8"
  have named: ?thesis if "\<forall>dst. encode_header_without_name t index v dst = encode_not_indexed i (hv_bytes v) (hv_sensitive v) dst"
    "refers (headers t) i = Some s" "name s = Name_Field n" for i s
    using that reads_named [OF assms(1) that(2) _ assms(3,4), of ?f False] encode_named [OF assms(4)]
    by (intro exI [of _ "encode_int i 4 ?f [] @ str_bytes (hv_bytes v)"]) auto
  show ?thesis
  proof (cases index)
    case (NotIndexed h)
    then have "name h = Name_Field n" using assms(2) by (simp add: last_ok_def)
    then show ?thesis using reads_new [OF assms(1,3,4), of ?f False] encode_new [OF assms(4)]
      by (intro exI [of _ "?f # str_bytes n @ str_bytes (hv_bytes v)"]) (auto simp: encode_header_without_name_def NotIndexed)
  qed (use assms(2) named in \<open>auto simp: last_ok_def encode_header_without_name_def\<close>)
qed

section \<open>Header blocks\<close>

text \<open>The headers of a block with all names filled in; \<open>None\<close> if a header without a name has none before it.\<close>

definition field_name :: "header \<Rightarrow> bytes option" where
  "field_name h = (case h of Field n _ \<Rightarrow> Some n | _ \<Rightarrow> None)"

fun named :: "bytes option \<Rightarrow> bytes option Header list \<Rightarrow> header list option" where
  "named p [] = Some []"
| "named p (h # hs) =
     (case reify h of
        Inr h \<Rightarrow> map_option ((#) h) (named (field_name h) hs)
      | Inl v \<Rightarrow> (case p of None \<Rightarrow> None | Some n \<Rightarrow> map_option ((#) (Field n v)) (named p hs)))"

lemma decode_loop_end: "decode_loop L cr d (cur_of []) = (Inr (), d, cur_of [], [])"
  by (simp add: decode_loop.simps peek_u8_def)

lemma reads_end: "reads L d bs h d' \<Longrightarrow> decode_loop L False d' (cur_of rest) = (r, d'', c, hs) \<Longrightarrow>
    decode_loop L cr d (cur_of (bs @ rest)) = (r, d'', c, h # hs)"
  by (simp add: reads_def)

lemma headers_loop:
  "named p hs = Some xs \<Longrightarrow> \<forall>x\<in>set xs. header_wf L x \<and> header_fits L x \<Longrightarrow> in_step H t d \<Longrightarrow>
     \<forall>n. p = Some n \<longrightarrow> (\<exists>i. lst = Some i \<and> last_ok t i (Name_Field n)) \<Longrightarrow>
     \<exists>t' bs d'. (\<forall>dst. encode_headers_loop H L lst hs t dst = Some (t', dst @ bs)) \<and> in_step H t' d' \<and> d' = d\<lparr>d_table := d_table d'\<rparr> \<and>
       (\<forall>cr. decode_loop L cr d (cur_of bs) = (Inr (), d', cur_of [], map plain xs))"
proof (induction hs arbitrary: p xs t d lst)
  case Nil
  then show ?case by (auto simp: decode_loop_end intro!: exI [of _ t] exI [of _ d])
next
  case (Cons h hs)
  show ?case
  proof (cases "reify h")
    case (Inr h1)
    then obtain ys where ys: "named (field_name h1) hs = Some ys" "xs = h1 # ys" using Cons.prems(1) by auto
    have "header_wf L h1" "header_fits L h1" using Cons.prems(2) ys by simp_all
    from header_step [OF Cons.prems(3) this] obtain index t1 d1 bs where
      s: "et_index H h1 t = Some (index, t1)" "\<forall>dst. encode_header L t1 index dst = Some (dst @ bs)"
        "reads L d bs (plain h1) d1" "in_step H t1 d1" "last_ok t1 index (name h1)" "d1 = d\<lparr>d_table := d_table d1\<rparr>" by blast
    have "\<forall>n. field_name h1 = Some n \<longrightarrow> (\<exists>i. Some index = Some i \<and> last_ok t1 i (Name_Field n))"
      using s(5) by (cases h1) (auto simp: field_name_def)
    from Cons.IH [OF ys(1) _ s(4) this] Cons.prems(2) ys obtain t' bs' d' where
      r: "\<forall>dst. encode_headers_loop H L (Some index) hs t1 dst = Some (t', dst @ bs')" "in_step H t' d'" "d' = d1\<lparr>d_table := d_table d'\<rparr>"
        "\<forall>cr. decode_loop L cr d1 (cur_of bs') = (Inr (), d', cur_of [], map plain ys)" by auto
    have "d' = d\<lparr>d_table := d_table d'\<rparr>" using r(3) s(6) by (metis Decoder.update_convs(3) Decoder.surjective Decoder.select_convs(3))
    then show ?thesis using Inr s r reads_end [OF s(3)] ys(2)
      by (intro exI [of _ t'] exI [of _ "bs @ bs'"] exI [of _ d']) auto
  next
    case (Inl v)
    then obtain n ys where ys: "p = Some n" "named p hs = Some ys" "xs = Field n v # ys" using Cons.prems(1) by (auto split: option.splits)
    obtain i where i: "lst = Some i" "last_ok t i (Name_Field n)" using Cons.prems(4) ys(1) by auto
    have "header_wf L (Field n v)" "header_fits L (Field n v)" using Cons.prems(2) ys by simp_all
    from nameless_step [OF Cons.prems(3) i(2) this] obtain bs where
      s: "\<forall>dst. encode_header_without_name t i v dst = Some (dst @ bs)" "reads L d bs (plain (Field n v)) d" by blast
    from Cons.IH [OF ys(2) _ Cons.prems(3,4)] Cons.prems(2) ys obtain t' bs' d' where
      r: "\<forall>dst. encode_headers_loop H L lst hs t dst = Some (t', dst @ bs')" "in_step H t' d'" "d' = d\<lparr>d_table := d_table d'\<rparr>"
        "\<forall>cr. decode_loop L cr d (cur_of bs') = (Inr (), d', cur_of [], map plain ys)" by auto
    then show ?thesis using Inl s i reads_end [OF s(2)] ys(3)
      by (intro exI [of _ t'] exI [of _ "bs @ bs'"] exI [of _ d']) auto
  qed
qed

section \<open>Size updates\<close>

lemma resize_step:
  assumes "in_step H t d" and "n \<le> d_last_max_update d" and "n < 2 ^ 28"
  shows "\<exists>t' T. resize n t = Some t' \<and> in_step H t' (d\<lparr>d_table := T\<rparr>) \<and>
    (\<forall>rest. decode_loop L True d (cur_of (encode_int n 5 0x20 [] @ rest)) = decode_loop L True (d\<lparr>d_table := T\<rparr>) (cur_of rest))"
proof -
  have "et_full H t" "n < 2 ^ 62" using assms(1,3) by (simp_all add: in_step_def)
  from resize_ok [OF this] obtain t' where t': "resize n t = Some t'" "et_full H t'" "headers t' = fit n (headers t)" "et_max_size t' = n" by blast
  obtain T where T: "dt_set_max_size n (d_table d) = Some T" "dt_ok T" "dt_entries T = fit n (dt_entries (d_table d))" "dt_max_size T = n"
    using dt_set_max_size_spec [of "d_table d" n] assms(1) by (auto simp: in_step_def)
  have "set (fit n (headers t)) \<subseteq> set (headers t)" using fit_prefix [of n "headers t"] by (metis set_take_subset)
  then have "in_step H t' (d\<lparr>d_table := T\<rparr>)" using assms t' T by (auto simp: in_step_def)
  then show ?thesis using t'(1) loop_size_update [OF assms(3,2) T(1)] by blast
qed

fun pending :: "SizeUpdate option \<Rightarrow> nat list" where
  "pending None = []"
| "pending (Some (One v)) = [v]"
| "pending (Some (Two a b)) = [a, b]"

lemma pending_update: "set (pending (e_size_update (update_max_size v e))) \<subseteq> insert v (set (pending (e_size_update e)))"
  by (auto simp: update_max_size_def split: option.splits SizeUpdate.splits)

lemma update_table: "e_table (update_max_size v e) = e_table e"
  by (simp add: update_max_size_def split: option.splits SizeUpdate.splits)

text \<open>Between two blocks: what the encoder still has to announce is within the limit the decoder will take over.\<close>

definition ends_ok :: "(Name \<Rightarrow> nat) \<Rightarrow> Encoder \<Rightarrow> Decoder \<Rightarrow> bool" where
  "ends_ok H e d \<longleftrightarrow> in_step H (e_table e) d \<and>
     (case d_max_size_update d of
        None \<Rightarrow> e_size_update e = None
      | Some m \<Rightarrow> m < 2 ^ 28 \<and> (\<forall>v\<in>set (pending (e_size_update e)). v \<le> m))"

lemma size_updates_step:
  assumes "in_step H (e_table e) d" and "\<forall>v\<in>set (pending (e_size_update e)). v \<le> d_last_max_update d \<and> v < 2 ^ 28"
  shows "\<exists>e' T bs. (\<forall>dst. encode_size_updates e dst = Some (e', dst @ bs)) \<and> in_step H (e_table e') (d\<lparr>d_table := T\<rparr>) \<and>
    e_size_update e' = None \<and>
    (\<forall>rest. decode_loop L True d (cur_of (bs @ rest)) = decode_loop L True (d\<lparr>d_table := T\<rparr>) (cur_of rest))"
proof (cases "e_size_update e")
  case None
  then show ?thesis using assms(1)
    by (intro exI [of _ "e\<lparr>e_size_update := None\<rparr>"] exI [of _ "d_table d"] exI [of _ "[]"]) (simp add: encode_size_updates_def)
next
  case (Some u)
  show ?thesis
  proof (cases u)
    case (One v)
    from resize_step [OF assms(1), of v L] assms(2) Some One obtain t' T where
      t: "resize v (e_table e) = Some t'" "in_step H t' (d\<lparr>d_table := T\<rparr>)"
        "\<forall>rest. decode_loop L True d (cur_of (encode_int v 5 0x20 [] @ rest)) = decode_loop L True (d\<lparr>d_table := T\<rparr>) (cur_of rest)" by auto
    have "\<forall>dst. encode_size_update v dst = dst @ encode_int v 5 0x20 []" unfolding encode_size_update_def using encode_int_append by blast
    then show ?thesis using Some One t
      by (intro exI [of _ "e\<lparr>e_size_update := None, e_table := t'\<rparr>"] exI [of _ T] exI [of _ "encode_int v 5 0x20 []"])
        (simp add: encode_size_updates_def)
  next
    case (Two a b)
    from resize_step [OF assms(1), of a L] assms(2) Some Two obtain t1 T1 where
      t1: "resize a (e_table e) = Some t1" "in_step H t1 (d\<lparr>d_table := T1\<rparr>)"
        "\<forall>rest. decode_loop L True d (cur_of (encode_int a 5 0x20 [] @ rest)) = decode_loop L True (d\<lparr>d_table := T1\<rparr>) (cur_of rest)" by auto
    from resize_step [OF t1(2), of b L] assms(2) Some Two obtain t2 T2 where
      t2: "resize b t1 = Some t2" "in_step H t2 (d\<lparr>d_table := T2\<rparr>)"
        "\<forall>rest. decode_loop L True (d\<lparr>d_table := T1\<rparr>) (cur_of (encode_int b 5 0x20 [] @ rest)) =
           decode_loop L True (d\<lparr>d_table := T2\<rparr>) (cur_of rest)" by auto
    have "\<forall>v dst. encode_size_update v dst = dst @ encode_int v 5 0x20 []" unfolding encode_size_update_def using encode_int_append by blast
    then show ?thesis using Some Two t1 t2
      by (intro exI [of _ "e\<lparr>e_size_update := None, e_table := t2\<rparr>"] exI [of _ T2] exI [of _ "encode_int a 5 0x20 [] @ encode_int b 5 0x20 []"])
        (simp add: encode_size_updates_def)
  qed
qed

lemma block_step:
  assumes "ends_ok H e d" and "named None hs = Some xs" and "\<forall>x\<in>set xs. header_wf L x \<and> header_fits L x"
  shows "\<exists>e' d' bs. (\<forall>dst. hpack_encode H L hs e dst = Some (e', dst @ bs)) \<and>
    hpack_decode L d (cur_of bs) = (Inr (), d', cur_of [], map plain xs) \<and> ends_ok H e' d'"
proof -
  define d0 where "d0 = (case d_max_size_update d of Some n \<Rightarrow> d\<lparr>d_max_size_update := None, d_last_max_update := n\<rparr> | None \<Rightarrow> d)"
  have d0: "in_step H (e_table e) d0" "d_max_size_update d0 = None"
      "\<forall>v\<in>set (pending (e_size_update e)). v \<le> d_last_max_update d0 \<and> v < 2 ^ 28"
    using assms(1) by (auto simp: ends_ok_def d0_def in_step_def split: option.splits)
  obtain e1 T bs1 where s: "\<forall>dst. encode_size_updates e dst = Some (e1, dst @ bs1)" "in_step H (e_table e1) (d0\<lparr>d_table := T\<rparr>)"
      "e_size_update e1 = None" "\<forall>rest. decode_loop L True d0 (cur_of (bs1 @ rest)) = decode_loop L True (d0\<lparr>d_table := T\<rparr>) (cur_of rest)"
    using size_updates_step [OF d0(1,3), of L] by blast
  from headers_loop [OF assms(2,3) s(2), of None] obtain t' bs2 d' where
    l: "\<forall>dst. encode_headers_loop H L None hs (e_table e1) dst = Some (t', dst @ bs2)" "in_step H t' d'"
      "d' = (d0\<lparr>d_table := T\<rparr>)\<lparr>d_table := d_table d'\<rparr>"
      "\<forall>cr. decode_loop L cr (d0\<lparr>d_table := T\<rparr>) (cur_of bs2) = (Inr (), d', cur_of [], map plain xs)" by auto
  have "d_max_size_update d' = None" using d0(2) arg_cong [OF l(3), of d_max_size_update] by simp
  then show ?thesis using s l
    by (intro exI [of _ "e1\<lparr>e_table := t'\<rparr>"] exI [of _ d'] exI [of _ "bs1 @ bs2"])
      (simp add: hpack_encode_def hpack_decode_def ends_ok_def flip: d0_def)
qed

section \<open>A connection\<close>

text \<open>
  What happens on a connection: the decoding end changes the size it allows, which reaches the encoding end, or a
  block is sent. The result are the headers decoded for each block.
\<close>

datatype exchange = Settings nat | Block "bytes option Header list"

fun connection :: "(Name \<Rightarrow> nat) \<Rightarrow> h2_lib \<Rightarrow> Encoder \<Rightarrow> Decoder \<Rightarrow> exchange list \<Rightarrow> header list list option" where
  "connection H L e d [] = Some []"
| "connection H L e d (Settings n # xs) = connection H L (update_max_size n e) (queue_size_update n d) xs"
| "connection H L e d (Block hs # xs) =
     (case hpack_encode H L hs e [] of
        None \<Rightarrow> None
      | Some (e, bs) \<Rightarrow>
          (case hpack_decode L d (cur_of bs) of
             (Inr _, d, c, got) \<Rightarrow> if chunk c = [] then map_option ((#) got) (connection H L e d xs) else None
           | _ \<Rightarrow> None))"

fun block_wf :: "h2_lib \<Rightarrow> exchange \<Rightarrow> bool" where
  "block_wf L (Settings n) \<longleftrightarrow> n < 2 ^ 28"
| "block_wf L (Block hs) \<longleftrightarrow> (case named None hs of None \<Rightarrow> False | Some xs \<Rightarrow> list_all (\<lambda>x. header_wf L x \<and> header_fits L x) xs)"

fun sent :: "exchange list \<Rightarrow> header list list" where
  "sent [] = []"
| "sent (Settings _ # xs) = sent xs"
| "sent (Block hs # xs) = (case named None hs of None \<Rightarrow> [] | Some hs \<Rightarrow> map plain hs) # sent xs"

lemma settings_step: "ends_ok H e d \<Longrightarrow> n < 2 ^ 28 \<Longrightarrow> ends_ok H (update_max_size n e) (queue_size_update n d)"
  by (auto simp: ends_ok_def queue_size_update_def update_table in_step_def max_def split: option.splits
      dest!: subsetD [OF pending_update] intro: order_trans less_imp_le)

lemma connection_ok:
  "ends_ok H e d \<Longrightarrow> list_all (block_wf L) xs \<Longrightarrow> connection H L e d xs = Some (sent xs)"
proof (induction xs arbitrary: e d)
  case (Cons x xs)
  show ?case
  proof (cases x)
    case (Settings n)
    then show ?thesis using Cons settings_step by simp
  next
    case (Block hs)
    then obtain ys where ys: "named None hs = Some ys" "\<forall>x\<in>set ys. header_wf L x \<and> header_fits L x"
      using Cons.prems(2) by (auto simp: list_all_iff split: option.splits)
    from block_step [OF Cons.prems(1) ys] obtain e' d' bs where
      "\<forall>dst. hpack_encode H L hs e dst = Some (e', dst @ bs)" "hpack_decode L d (cur_of bs) = (Inr (), d', cur_of [], map plain ys)" "ends_ok H e' d'"
      by blast
    then show ?thesis using Cons Block ys(1) by simp
  qed
qed simp

text \<open>
  C7: Whatever blocks are encoded on a connection, with changes of the table size allowed in between, the decoder
  reports exactly the headers of every block, in order and with the names of repeated fields filled in (only the mark
  of sensitive values is not transmitted), and neither end fails: encoder, hash index and decoder agree on the dynamic
  table throughout. Both tables start with the same size.
\<close>

theorem hpack_roundtrip:
  assumes "m < 2 ^ 28" and "to_raw_capacity capacity \<le> 2 ^ 63" and "list_all (block_wf L) xs"
  shows "connection H L (encoder_new m capacity) (decoder_new m) xs = Some (sent xs)"
proof (rule connection_ok [OF _ assms(3)])
  show "ends_ok H (encoder_new m capacity) (decoder_new m)"
    using et_new_ok [OF assms(2), of m H] assms(1)
    by (simp add: ends_ok_def in_step_def encoder_new_def decoder_new_def dt_new_def dt_ok_def)
qed

theorem hpack_roundtrip_witness:
  "connection (\<lambda>_. 3) plain_h2 (encoder_new 4096 0) (decoder_new 4096)
     [Block [Method (ascii ''GET''), Field (Some (ascii ''x'')) \<lparr>hv_bytes = ascii ''1'', hv_sensitive = False\<rparr>,
        Field None \<lparr>hv_bytes = ascii ''2'', hv_sensitive = True\<rparr>],
      Settings 40, Block [Field (Some (ascii ''x'')) \<lparr>hv_bytes = ascii ''1'', hv_sensitive = False\<rparr>]] =
   Some [[Method (ascii ''GET''), Field (ascii ''x'') \<lparr>hv_bytes = ascii ''1'', hv_sensitive = False\<rparr>,
        Field (ascii ''x'') \<lparr>hv_bytes = ascii ''2'', hv_sensitive = False\<rparr>],
     [Field (ascii ''x'') \<lparr>hv_bytes = ascii ''1'', hv_sensitive = False\<rparr>]]"
proof -
  let ?xs = "[Block [Method (ascii ''GET''), Field (Some (ascii ''x'')) \<lparr>hv_bytes = ascii ''1'', hv_sensitive = False\<rparr>,
        Field None \<lparr>hv_bytes = ascii ''2'', hv_sensitive = True\<rparr>],
      Settings 40, Block [Field (Some (ascii ''x'')) \<lparr>hv_bytes = ascii ''1'', hv_sensitive = False\<rparr>]]"
  have "list_all (block_wf plain_h2) ?xs"
    by (simp add: plain_h2_def field_name_def header_fits_def ascii_def)
  moreover have "to_raw_capacity 0 \<le> 2 ^ 63" by (simp add: to_raw_capacity_def)
  ultimately show ?thesis using hpack_roundtrip [of 4096 0 plain_h2 ?xs "\<lambda>_. 3"] by (simp add: field_name_def)
qed

end
