(* ===== verification/H2_Headers.thy ===== *)
theory H2_Headers
  imports H2_Frame Hpack_Encoder Hpack_Resume
begin

text \<open>
  \<open>http/src/h2/proto/headers.rs\<close>: HEADERS and CONTINUATION frames, with their header blocks decoded into pseudo-headers
  and fields and encoded into frames of limited size. The header map of \<open>http\<close> is the list of its entries in the order
  they were appended; its iteration, which names only the first value of a field, is the parameter \<open>it\<close>.
\<close>

unbundle bit_operations_syntax

section \<open>Flags\<close>

definition END_HEADERS :: u8 where "END_HEADERS = 4"
definition PRIORITY :: u8 where "PRIORITY = 0x20"

definition hf_is_end_stream :: "u8 \<Rightarrow> bool" where "hf_is_end_stream f \<longleftrightarrow> f AND END_STREAM = END_STREAM"
definition hf_is_end_headers :: "u8 \<Rightarrow> bool" where "hf_is_end_headers f \<longleftrightarrow> f AND END_HEADERS = END_HEADERS"
definition hf_is_padded :: "u8 \<Rightarrow> bool" where "hf_is_padded f \<longleftrightarrow> f AND PADDED = PADDED"
definition hf_is_priority :: "u8 \<Rightarrow> bool" where "hf_is_priority f \<longleftrightarrow> f AND PRIORITY = PRIORITY"
definition hf_default :: u8 where "hf_default = END_HEADERS"

section \<open>Header blocks\<close>

record Pseudo =
  ps_method :: "bytes option"
  ps_scheme :: "bytes option"
  ps_authority :: "bytes option"
  ps_path :: "bytes option"
  ps_status :: "nat option"

type_synonym field_map = "(bytes \<times> HeaderValue) list"

record 'p HeaderBlock =
  hb_fields :: field_map
  hb_is_over_size :: bool
  hb_pseudo :: 'p

record 'p Headers =
  hs_stream_id :: u32
  hs_stream_dep :: "StreamDependency option"
  hs_header_block :: "'p HeaderBlock"
  hs_flags :: u8

datatype h2_error = MalformedMessage | Hpack DecoderError

definition pseudo_default :: Pseudo where
  "pseudo_default = \<lparr>ps_method = None, ps_scheme = None, ps_authority = None, ps_path = None, ps_status = None\<rparr>"

definition decoded_header_size :: "nat \<Rightarrow> nat \<Rightarrow> nat" where
  "decoded_header_size n v = n + v + 32"

text \<open>The state of the callback of \<open>load\<close> besides the block.\<close>

record 'p load_state =
  ls_block :: "'p HeaderBlock"
  ls_reg :: bool
  ls_malformed :: bool
  ls_size :: nat

text \<open>\<open>set_pseudo!\<close>: the field as it is, the block with the field set, and the lengths of name and value.\<close>

definition set_pseudo :: "'a option \<Rightarrow> (Pseudo \<Rightarrow> Pseudo) \<Rightarrow> nat \<Rightarrow> nat \<Rightarrow> nat \<Rightarrow> Pseudo load_state \<Rightarrow> Pseudo load_state" where
  "set_pseudo cur put name_len value_len max_size s =
     (if ls_reg s then s\<lparr>ls_malformed := True\<rparr>
      else if cur \<noteq> None then s\<lparr>ls_malformed := True\<rparr>
      else
        let n = ls_size s + decoded_header_size (name_len + 1) value_len; b = ls_block s in
        if n < max_size then s\<lparr>ls_size := n, ls_block := b\<lparr>hb_pseudo := put (hb_pseudo b)\<rparr>\<rparr>
        else s\<lparr>ls_size := n, ls_block := b\<lparr>hb_is_over_size := True\<rparr>\<rparr>)"

fun pseudo_parse :: "h2_lib \<Rightarrow> header \<Rightarrow> nat \<Rightarrow> Pseudo load_state \<Rightarrow> Pseudo load_state" where
  "pseudo_parse L (Authority v) m s =
     set_pseudo (ps_authority (hb_pseudo (ls_block s))) (ps_authority_update (\<lambda>_. Some v)) 9 (length v) m s"
| "pseudo_parse L (Method v) m s =
     set_pseudo (ps_method (hb_pseudo (ls_block s))) (ps_method_update (\<lambda>_. Some v)) 6 (length v) m s"
| "pseudo_parse L (Scheme v) m s =
     set_pseudo (ps_scheme (hb_pseudo (ls_block s))) (ps_scheme_update (\<lambda>_. Some v)) 6 (length v) m s"
| "pseudo_parse L (Path v) m s =
     set_pseudo (ps_path (hb_pseudo (ls_block s))) (ps_path_update (\<lambda>_. Some v)) 4 (length v) m s"
| "pseudo_parse L (Protocol v) m s = s"
| "pseudo_parse L (Status v) m s =
     set_pseudo (ps_status (hb_pseudo (ls_block s))) (ps_status_update (\<lambda>_. Some v)) 6 (length (status_as_str L v)) m s"
| "pseudo_parse L (Field n v) m s = s"

definition pseudo_size :: "nat \<Rightarrow> ('a \<Rightarrow> nat) \<Rightarrow> 'a option \<Rightarrow> nat" where
  "pseudo_size name_len len v = (case v of Some m \<Rightarrow> decoded_header_size (name_len + 1) (len m) | None \<Rightarrow> 0)"

definition as_header_size :: "h2_lib \<Rightarrow> Pseudo \<Rightarrow> nat" where
  "as_header_size L p =
     pseudo_size 6 length (ps_method p) + pseudo_size 6 length (ps_scheme p) + pseudo_size 6 (\<lambda>s. length (status_as_str L s)) (ps_status p) +
     pseudo_size 9 length (ps_authority p) + pseudo_size 4 length (ps_path p)"

definition fields_size :: "field_map \<Rightarrow> nat" where
  "fields_size fs = sum_list (map (\<lambda>(n, v). decoded_header_size (length n) (length (hv_bytes v))) fs)"

definition calculate_header_list_size :: "h2_lib \<Rightarrow> Pseudo HeaderBlock \<Rightarrow> nat" where
  "calculate_header_list_size L b = as_header_size L (hb_pseudo b) + fields_size (hb_fields b)"

definition connection_level :: "bytes \<Rightarrow> bool" where
  "connection_level n \<longleftrightarrow>
     n \<in> set [ascii ''connection'', ascii ''transfer-encoding'', ascii ''upgrade'', ascii ''keep-alive'', ascii ''proxy-connection'']"

text \<open>The callback of \<open>load\<close>.\<close>

fun on_header :: "h2_lib \<Rightarrow> nat \<Rightarrow> header \<Rightarrow> Pseudo load_state \<Rightarrow> Pseudo load_state" where
  "on_header L m (Field n v) s =
     (if connection_level n then s\<lparr>ls_malformed := True\<rparr>
      else if n = ascii ''te'' \<and> hv_bytes v \<noteq> ascii ''trailers'' then s\<lparr>ls_malformed := True\<rparr>
      else
        let size = ls_size s + decoded_header_size (length n) (length (hv_bytes v)); b = ls_block s in
        if size < m then s\<lparr>ls_reg := True, ls_size := size, ls_block := b\<lparr>hb_fields := hb_fields b @ [(n, v)]\<rparr>\<rparr>
        else s\<lparr>ls_reg := True, ls_size := size, ls_block := b\<lparr>hb_is_over_size := True\<rparr>\<rparr>)"
| "on_header L m h s = pseudo_parse L h m s"

text \<open>
  \<open>HeaderBlock::load\<close>: the headers are passed to the callback as they are decoded, also before an error. What the
  decoder has not taken stays in the buffer.
\<close>

definition block_load ::
    "h2_lib \<Rightarrow> bytes \<Rightarrow> nat \<Rightarrow> Decoder \<Rightarrow> Pseudo HeaderBlock \<Rightarrow> (h2_error fault + unit) \<times> Pseudo HeaderBlock \<times> Decoder \<times> bytes" where
  "block_load L src m d b =
     (let s = \<lparr>ls_block = b, ls_reg = (hb_fields b \<noteq> []), ls_malformed = False, ls_size = calculate_header_list_size L b\<rparr> in
      case hpack_decode L d (cur_of src) of (r, d, c, hs) \<Rightarrow>
        let s = fold (on_header L m) hs s in
        (case r of
           Inl Panic \<Rightarrow> Inl Panic
         | Inl (Err e) \<Rightarrow> Inl (Err (Hpack e))
         | Inr _ \<Rightarrow> if ls_malformed s then Inl (Err MalformedMessage) else Inr (), ls_block s, d, cur_buf c))"

definition load_hpack ::
    "h2_lib \<Rightarrow> bytes \<Rightarrow> nat \<Rightarrow> Decoder \<Rightarrow> Pseudo Headers \<Rightarrow> (h2_error fault + unit) \<times> Pseudo Headers \<times> Decoder \<times> bytes" where
  "load_hpack L src m d h =
     (case block_load L src m d (hs_header_block h) of (r, b, d, src) \<Rightarrow> (r, h\<lparr>hs_header_block := b\<rparr>, d, src))"

section \<open>Loading frames\<close>

definition headers_load :: "Head \<Rightarrow> bytes \<Rightarrow> (Pseudo Headers \<times> bytes) option" where
  "headers_load head src =
     (let flags = head_flag head in
      if head_stream_id head = 0 then None
      else if hf_is_padded flags \<and> src = [] then None
      else
        let (pad, src) = (if hf_is_padded flags then (unat (hd src), drop 1 src) else (0, src)) in
        (case (if hf_is_priority flags then
                 if length src < 5 then None
                 else
                   (case stream_dependency_load (take 5 src) of
                      None \<Rightarrow> None
                    | Some dep \<Rightarrow> if sd_dependency_id dep = head_stream_id head then None else Some (Some dep, drop 5 src))
               else Some (None, src)) of
           None \<Rightarrow> None
         | Some (dep, src) \<Rightarrow>
             if pad > length src then None
             else
               Some (\<lparr>hs_stream_id = head_stream_id head, hs_stream_dep = dep,
                  hs_header_block = \<lparr>hb_fields = [], hb_is_over_size = False, hb_pseudo = pseudo_default\<rparr>, hs_flags = flags\<rparr>,
                 take (length src - pad) src)))"

section \<open>Encoding frames\<close>

text \<open>\<open>Limit<&mut BytesMut>\<close>; putting more than the limit panics.\<close>

record EncodeBuf =
  eb_buf :: bytes
  eb_limit :: nat

definition eb_put :: "bytes \<Rightarrow> EncodeBuf \<Rightarrow> EncodeBuf option" where
  "eb_put bs d = (if length bs \<le> eb_limit d then Some \<lparr>eb_buf = eb_buf d @ bs, eb_limit = eb_limit d - length bs\<rparr> else None)"

text \<open>
  \<open>EncodingHeaderBlock::encode\<close>: the head with length 0, as much of the block as fits, then the length and, if there is
  more, the flag \<open>END_HEADERS\<close> taken back. The first result is the rest of the block for a CONTINUATION frame.
\<close>

definition block_encode :: "Head \<Rightarrow> bytes \<Rightarrow> EncodeBuf \<Rightarrow> (bytes option \<times> EncodeBuf) option" where
  "block_encode head hpack dst =
     (let head_pos = length (eb_buf dst) in
      (case eb_put (head_encode head 0 []) dst of
         None \<Rightarrow> None
       | Some dst \<Rightarrow>
           let payload_pos = length (eb_buf dst);
               (now, rest) = (if length hpack > eb_limit dst then (take (eb_limit dst) hpack, Some (drop (eb_limit dst) hpack))
                 else (hpack, None)) in
           (case eb_put now dst of
              None \<Rightarrow> None
            | Some dst \<Rightarrow>
                let payload_len = length (eb_buf dst) - payload_pos in
                if payload_len \<ge> 2 ^ 24 then None
                else
                  let buf = take head_pos (eb_buf dst) @ to_be 3 payload_len @ drop (head_pos + 3) (eb_buf dst);
                      buf = (if rest \<noteq> None then buf[head_pos + 4 := buf ! (head_pos + 4) - END_HEADERS] else buf) in
                  Some (rest, dst\<lparr>eb_buf := buf\<rparr>))))"

definition headers_head :: "'p Headers \<Rightarrow> Head" where
  "headers_head h = head_new Kind_Headers (hs_flags h) (hs_stream_id h)"

definition continuation_head :: "u32 \<Rightarrow> Head" where
  "continuation_head i = head_new Kind_Continuation END_HEADERS i"

text \<open>\<open>into_encoding\<close>: pseudo-headers first, then the fields as the header map iterates them.\<close>

definition into_encoding ::
    "(Name \<Rightarrow> nat) \<Rightarrow> h2_lib \<Rightarrow> (field_map \<Rightarrow> (bytes option \<times> HeaderValue) list) \<Rightarrow> bytes option Header list \<Rightarrow> field_map \<Rightarrow>
      Encoder \<Rightarrow> (Encoder \<times> bytes) option" where
  "into_encoding H L it pseudo fm e = hpack_encode H L (pseudo @ map (\<lambda>(n, v). Field n v) (it fm)) e []"

definition headers_encode ::
    "(Name \<Rightarrow> nat) \<Rightarrow> h2_lib \<Rightarrow> (field_map \<Rightarrow> (bytes option \<times> HeaderValue) list) \<Rightarrow> ('p \<Rightarrow> bytes option Header list) \<Rightarrow>
      'p Headers \<Rightarrow> Encoder \<Rightarrow> EncodeBuf \<Rightarrow> ((u32 \<times> bytes) option \<times> Encoder \<times> EncodeBuf) option" where
  "headers_encode H L it iter h e dst =
     (case into_encoding H L it (iter (hb_pseudo (hs_header_block h))) (hb_fields (hs_header_block h)) e of
        None \<Rightarrow> None
      | Some (e, hpack) \<Rightarrow>
          map_option (\<lambda>(rest, dst). (map_option (Pair (hs_stream_id h)) rest, e, dst)) (block_encode (headers_head h) hpack dst))"

definition continuation_encode :: "u32 \<Rightarrow> bytes \<Rightarrow> EncodeBuf \<Rightarrow> ((u32 \<times> bytes) option \<times> EncodeBuf) option" where
  "continuation_encode i hpack dst =
     map_option (\<lambda>(rest, dst). (map_option (Pair i) rest, dst)) (block_encode (continuation_head i) hpack dst)"

text \<open>The iterators of the pseudo-headers of a request, of a response, and of trailers.\<close>

fun opt_header :: "('a \<Rightarrow> 'b) \<Rightarrow> 'a option \<Rightarrow> 'b list" where
  "opt_header c None = []"
| "opt_header c (Some v) = [c v]"

definition pseudo_into_iter :: "Pseudo \<Rightarrow> bytes option Header list" where
  "pseudo_into_iter p = opt_header Method (ps_method p) @ opt_header Scheme (ps_scheme p) @ opt_header Authority (ps_authority p) @
     opt_header Path (ps_path p) @ opt_header Status (ps_status p)"

definition response_into_iter :: "nat \<Rightarrow> bytes option Header list" where
  "response_into_iter status = [Status status]"

definition trailers_into_iter :: "unit \<Rightarrow> bytes option Header list" where
  "trailers_into_iter _ = []"

definition headers_new :: "u32 \<Rightarrow> 'p \<Rightarrow> field_map \<Rightarrow> 'p Headers" where
  "headers_new i p fm = \<lparr>hs_stream_id = i, hs_stream_dep = None,
     hs_header_block = \<lparr>hb_fields = fm, hb_is_over_size = False, hb_pseudo = p\<rparr>, hs_flags = hf_default\<rparr>"

definition headers_trailers :: "u32 \<Rightarrow> field_map \<Rightarrow> unit Headers" where
  "headers_trailers i fm = (headers_new i () fm)\<lparr>hs_flags := hf_default OR END_STREAM\<rparr>"

definition headers_set_end_stream :: "'p Headers \<Rightarrow> 'p Headers" where
  "headers_set_end_stream h = h\<lparr>hs_flags := hs_flags h OR END_STREAM\<rparr>"

text \<open>\<open>parse_u64\<close>; digits are refused, and everything else is taken as a digit (the subtraction wraps).\<close>

fun parse_u64_loop :: "bytes \<Rightarrow> nat \<Rightarrow> nat option" where
  "parse_u64_loop [] ret = Some ret"
| "parse_u64_loop (d # ds) ret =
     (if 0x30 \<le> d \<and> d \<le> 0x39 then None else parse_u64_loop ds (usize_add (ret * 10 mod 2 ^ 64) (unat (d - 0x30))))"

definition parse_u64 :: "bytes \<Rightarrow> nat option" where
  "parse_u64 src = (if length src > 19 then None else parse_u64_loop src 0)"

section \<open>Frames of limited size\<close>

lemma length_head_encode [simp]: "length (head_encode h n dst) = length dst + 9"
  by (simp add: head_encode_def)

definition more_flag :: "bool \<Rightarrow> Head \<Rightarrow> Head" where
  "more_flag mo h = h\<lparr>head_flag := if mo then head_flag h - END_HEADERS else head_flag h\<rparr>"

lemma head_encode_update:
  assumes "length a = n"
  shows "to_be 3 k @ drop 3 (head_encode h 0 []) @ p = head_encode h k [] @ p"
    and "(a @ head_encode h k [] @ p)[n + 4 := (a @ head_encode h k [] @ p) ! (n + 4) - END_HEADERS] = a @ head_encode (more_flag True h) k [] @ p"
proof -
  obtain f where f: "\<And>k. head_encode h k [] = to_be 3 k @ kind_u8 (head_kind h) # head_flag h # f"
    "\<And>k. head_encode (more_flag True h) k [] = to_be 3 k @ kind_u8 (head_kind h) # (head_flag h - END_HEADERS) # f"
    by (simp add: head_encode_def more_flag_def)
  show "to_be 3 k @ drop 3 (head_encode h 0 []) @ p = head_encode h k [] @ p" by (simp add: f)
  have l: "length (a @ to_be 3 k @ [kind_u8 (head_kind h)]) = n + 4" using assms by simp
  have "a @ head_encode h k [] @ p = (a @ to_be 3 k @ [kind_u8 (head_kind h)]) @ head_flag h # f @ p"
    "a @ head_encode (more_flag True h) k [] @ p = (a @ to_be 3 k @ [kind_u8 (head_kind h)]) @ (head_flag h - END_HEADERS) # f @ p"
    by (simp_all add: f)
  then show "(a @ head_encode h k [] @ p)[n + 4 := (a @ head_encode h k [] @ p) ! (n + 4) - END_HEADERS] = a @ head_encode (more_flag True h) k [] @ p"
    unfolding l [symmetric] by (metis nth_append_length list_update_length)
qed

lemma block_encode_spec:
  assumes "9 \<le> eb_limit dst" and "eb_limit dst < 2 ^ 24"
  shows "block_encode head hpack dst =
    (let room = eb_limit dst - 9; mo = length hpack > room; now = take room hpack in
     Some (if mo then Some (drop room hpack) else None,
       \<lparr>eb_buf = eb_buf dst @ head_encode (more_flag mo head) (length now) [] @ now, eb_limit = room - length now\<rparr>))"
proof -
  let ?room = "eb_limit dst - 9"
  have p: "eb_put (head_encode head 0 []) dst = Some \<lparr>eb_buf = eb_buf dst @ head_encode head 0 [], eb_limit = ?room\<rparr>"
    using assms(1) by (simp add: eb_put_def)
  have m: "more_flag False head = head" by (simp add: more_flag_def)
  show ?thesis
  proof (cases "length hpack > ?room")
    case True
    then show ?thesis using assms(2) head_encode_update(2) [of "eb_buf dst" "length (eb_buf dst)" head ?room "take ?room hpack"]
      by (simp add: block_encode_def p Let_def) (simp add: eb_put_def Let_def head_encode_update(1) [OF refl])
  next
    case False
    then show ?thesis using assms(2)
      by (simp add: block_encode_def p Let_def m) (simp add: eb_put_def Let_def head_encode_update(1) [OF refl] m)
  qed
qed

section \<open>Reading a header frame\<close>

lemma headers_load_plain:
  assumes "head_stream_id head \<noteq> 0" and "\<not> hf_is_padded (head_flag head)" and "\<not> hf_is_priority (head_flag head)"
  shows "headers_load head src =
    Some (\<lparr>hs_stream_id = head_stream_id head, hs_stream_dep = None,
      hs_header_block = \<lparr>hb_fields = [], hb_is_over_size = False, hb_pseudo = pseudo_default\<rparr>, hs_flags = head_flag head\<rparr>, src)"
  using assms by (simp add: headers_load_def)

text \<open>The fields a block may have, and what the callback does with them.\<close>

definition field_allowed :: "bytes \<times> HeaderValue \<Rightarrow> bool" where
  "field_allowed = (\<lambda>(n, v). \<not> connection_level n \<and> (n = ascii ''te'' \<longrightarrow> hv_bytes v = ascii ''trailers''))"

lemma on_header_fields:
  "list_all field_allowed fm \<Longrightarrow> ls_size s + fields_size fm < m \<Longrightarrow>
     \<exists>s'. fold (on_header L m) (map (\<lambda>(n, v). Field n v) fm) s = s' \<and> ls_malformed s' = ls_malformed s \<and>
       ls_block s' = (ls_block s)\<lparr>hb_fields := hb_fields (ls_block s) @ fm\<rparr>"
proof (induction fm arbitrary: s)
  case (Cons f fm)
  obtain n v where f: "f = (n, v)" by (cases f)
  let ?b = "ls_block s" and ?k = "decoded_header_size (length n) (length (hv_bytes v))"
  let ?s = "s\<lparr>ls_reg := True, ls_size := ls_size s + ?k, ls_block := ?b\<lparr>hb_fields := hb_fields ?b @ [(n, v)]\<rparr>\<rparr>"
  have sz: "fields_size (f # fm) = ?k + fields_size fm" by (simp add: fields_size_def f)
  have "on_header L m (Field n v) s = ?s"
    using Cons.prems f sz by (auto simp: field_allowed_def Let_def)
  moreover have "ls_size ?s + fields_size fm < m" using Cons.prems(2) sz by simp
  ultimately show ?case using Cons.IH [of ?s] Cons.prems(1) f by simp
qed simp

lemma response_block:
  assumes "list_all field_allowed fm" and "decoded_header_size 7 (length (status_as_str L st)) + fields_size fm < m"
    and "hpack_decode L d (cur_of src) = (Inr (), d', c, Status st # map (\<lambda>(n, v). Field n v) fm)"
  shows "block_load L src m d \<lparr>hb_fields = [], hb_is_over_size = False, hb_pseudo = pseudo_default\<rparr> =
    (Inr (), \<lparr>hb_fields = fm, hb_is_over_size = False, hb_pseudo = pseudo_default\<lparr>ps_status := Some st\<rparr>\<rparr>, d', cur_buf c)"
proof -
  let ?b = "\<lparr>hb_fields = [], hb_is_over_size = False, hb_pseudo = pseudo_default\<rparr>"
  let ?s = "\<lparr>ls_block = ?b, ls_reg = False, ls_malformed = False, ls_size = calculate_header_list_size L ?b\<rparr>"
  have z: "calculate_header_list_size L ?b = 0"
    by (simp add: calculate_header_list_size_def as_header_size_def pseudo_default_def pseudo_size_def fields_size_def)
  let ?s1 = "?s\<lparr>ls_size := decoded_header_size 7 (length (status_as_str L st)), ls_block := ?b\<lparr>hb_pseudo := pseudo_default\<lparr>ps_status := Some st\<rparr>\<rparr>\<rparr>"
  have "on_header L m (Status st) ?s = ?s1"
    using assms(2) z by (simp add: set_pseudo_def pseudo_default_def Let_def)
  then show ?thesis using on_header_fields [OF assms(1), of ?s1 m L] assms(2,3)
    by (simp add: block_load_def Let_def z)
qed

section \<open>A response over the wire\<close>

text \<open>
  \<open>IntoIter\<close> of the header map: every entry in order, with its name unless it is a further value of the field before.
\<close>

definition iterates :: "(field_map \<Rightarrow> (bytes option \<times> HeaderValue) list) \<Rightarrow> field_map \<Rightarrow> bool" where
  "iterates it fm \<longleftrightarrow> named None (map (\<lambda>(n, v). Field n v) (it fm)) = Some (map (\<lambda>(n, v). Field n v) fm)"

text \<open>A response that the peer can take: legal fields, marked as no secrets, of at most \<open>m\<close> bytes as the peer counts them.\<close>

definition response_ok :: "h2_lib \<Rightarrow> nat \<Rightarrow> nat \<Rightarrow> field_map \<Rightarrow> bool" where
  "response_ok L m st fm \<longleftrightarrow>
     list_all field_allowed fm \<and>
     list_all (\<lambda>h. header_wf L h \<and> header_fits L h \<and> \<not> is_sensitive h) (Status st # map (\<lambda>(n, v). Field n v) fm) \<and>
     decoded_header_size 7 (length (status_as_str L st)) + fields_size fm < m"

lemma plain_list: "list_all (\<lambda>h. \<not> is_sensitive h) hs \<Longrightarrow> map plain hs = hs"
  by (induction hs) (simp_all add: plain_id)

lemma hpack_response:
  assumes "ends_ok H e d" and "iterates it fm" and "response_ok L m st fm"
  shows "\<exists>e' d' hpack. into_encoding H L it (response_into_iter st) fm e = Some (e', hpack) \<and> ends_ok H e' d' \<and>
    hpack_decode L d (cur_of hpack) = (Inr (), d', cur_of [], Status st # map (\<lambda>(n, v). Field n v) fm)"
proof -
  let ?hs = "Status st # map (\<lambda>(n, v). Field n v) fm" and ?enc = "Status st # map (\<lambda>(n, v). Field n v) (it fm)"
  have n: "named None ?enc = Some ?hs" using assms(2) by (simp add: iterates_def field_name_def)
  have w: "\<forall>x\<in>set ?hs. header_wf L x \<and> header_fits L x" "map plain ?hs = ?hs"
    using assms(3) plain_list [of ?hs] by (auto simp: response_ok_def list_all_iff)
  from block_step [OF assms(1) n w(1)] w(2) show ?thesis
    by (fastforce simp: into_encoding_def response_into_iter_def)
qed

end
