(* ===== verification/H2_Flow.thy ===== *)
theory H2_Flow
  imports H2_Frame "HOL-Library.AList"
begin

text \<open>
  The flow control of \<open>http/src/h2/proto/mod.rs\<close>: \<open>FlowControl\<close> with its slab of streams, what a WINDOW_UPDATE frame
  does to it, and the part of a response task that waits for credit and cuts the body into DATA frames. A slab is the
  list of its entries in the order of their keys; the key of a new entry is the parameter \<open>k\<close>. A waker is the number of
  the stream whose task it wakes.
\<close>

section \<open>The state\<close>

record StreamControlFlow =
  sc_window :: nat
  sc_frame_size :: nat
  sc_waker :: "u32 option"

record FlowControl =
  fc_connection_window :: nat
  fc_stream_window :: nat
  fc_ordered_map :: "(nat \<times> StreamControlFlow) list"
  fc_map :: "u32 \<rightharpoonup> nat"

definition flow_init :: FlowControl where
  "flow_init = \<lparr>fc_connection_window = 65535, fc_stream_window = 65535, fc_ordered_map = [], fc_map = Map.empty\<rparr>"

definition slab_insert :: "nat \<Rightarrow> 'a \<Rightarrow> (nat \<times> 'a) list \<Rightarrow> (nat \<times> 'a) list" where
  "slab_insert k x m = insort_key fst (k, x) m"

section \<open>Credit from the peer\<close>

text \<open>A new initial window of the peer: streams that are open keep theirs.\<close>

definition apply_initial_window :: "u32 option \<Rightarrow> FlowControl \<Rightarrow> FlowControl" where
  "apply_initial_window w f = (case w of Some n \<Rightarrow> f\<lparr>fc_stream_window := unat n\<rparr> | None \<Rightarrow> f)"

text \<open>
  The loop over the streams after an update of the connection window: the first stream with a window is woken if it
  waits, and the loop ends there. The second result is the waker that is called.
\<close>

fun wake_first :: "(nat \<times> StreamControlFlow) list \<Rightarrow> (nat \<times> StreamControlFlow) list \<times> u32 option" where
  "wake_first [] = ([], None)"
| "wake_first ((k, s) # m) =
     (if sc_window s > 0 then ((k, s\<lparr>sc_waker := None\<rparr>) # m, sc_waker s)
      else case wake_first m of (m, w) \<Rightarrow> ((k, s) # m, w))"

text \<open>\<open>Kind::WindowUpdate\<close>; \<open>None\<close> is the panic of the slab on a key it does not have.\<close>

definition window_update :: "WindowUpdate \<Rightarrow> FlowControl \<Rightarrow> (FlowControl \<times> u32 option) option" where
  "window_update w f =
     (if wu_stream_id w = 0 then
        let f = f\<lparr>fc_connection_window := usize_add (fc_connection_window f) (unat (wu_size_increment w))\<rparr> in
        (case wake_first (fc_ordered_map f) of (m, waker) \<Rightarrow> Some (f\<lparr>fc_ordered_map := m\<rparr>, waker))
      else
        (case fc_map f (wu_stream_id w) of
           None \<Rightarrow> Some (f, None)
         | Some key \<Rightarrow>
             (case map_of (fc_ordered_map f) key of
                None \<Rightarrow> None
              | Some s \<Rightarrow>
                  let s' = s\<lparr>sc_window := usize_add (sc_window s) (unat (wu_size_increment w)), sc_waker := None\<rparr>;
                      f = f\<lparr>fc_ordered_map := AList.update key s' (fc_ordered_map f)\<rparr> in
                  Some (f, if fc_connection_window f > 0 then sc_waker s else None))))"

section \<open>A response body\<close>

text \<open>The entry of a stream that is about to send a body, and the guard that removes it.\<close>

definition stream_open :: "nat \<Rightarrow> u32 \<Rightarrow> FlowControl \<Rightarrow> FlowControl" where
  "stream_open k i f =
     f\<lparr>fc_ordered_map := slab_insert k \<lparr>sc_window = fc_stream_window f, sc_frame_size = 16384, sc_waker = None\<rparr> (fc_ordered_map f),
       fc_map := (fc_map f)(i \<mapsto> k)\<rparr>"

definition stream_close :: "u32 \<Rightarrow> FlowControl \<Rightarrow> FlowControl option" where
  "stream_close i f =
     (case fc_map f i of
        None \<Rightarrow> Some f
      | Some key \<Rightarrow>
          if map_of (fc_ordered_map f) key = None then None
          else Some (f\<lparr>fc_map := (fc_map f)(i := None), fc_ordered_map := AList.delete key (fc_ordered_map f)\<rparr>))"

text \<open>
  The poll for credit for \<open>len\<close> bytes: \<open>Some None\<close> is \<open>Pending\<close>, with the waker kept, and \<open>None\<close> the panic of \<open>unwrap\<close>
  or of the slab.
\<close>

definition poll_credit :: "u32 \<Rightarrow> nat \<Rightarrow> FlowControl \<Rightarrow> (nat option \<times> FlowControl) option" where
  "poll_credit i len f =
     (case fc_map f i of
        None \<Rightarrow> None
      | Some key \<Rightarrow>
          (case map_of (fc_ordered_map f) key of
             None \<Rightarrow> None
           | Some s \<Rightarrow>
               if fc_connection_window f = 0 \<or> sc_window s = 0 then
                 Some (None, f\<lparr>fc_ordered_map := AList.update key (s\<lparr>sc_waker := Some i\<rparr>) (fc_ordered_map f)\<rparr>)
               else
                 let len = min len (sc_frame_size s);
                     aval = min (sc_window s) (fc_connection_window f);
                     aval = min aval len in
                 Some (Some aval, f\<lparr>fc_connection_window := fc_connection_window f - aval,
                   fc_ordered_map := AList.update key (s\<lparr>sc_window := sc_window s - aval\<rparr>) (fc_ordered_map f)\<rparr>)))"

text \<open>
  The inner loop over one chunk of the body until it is sent or the task has to wait: the DATA frames, the bytes left,
  and the flow control. A poll that grants nothing would not let the loop end.
\<close>

function send_chunk :: "u32 \<Rightarrow> bytes \<Rightarrow> FlowControl \<Rightarrow> (Data list \<times> bytes \<times> FlowControl) option" where
  "send_chunk i bs f =
     (if bs = [] then Some ([], [], f)
      else
        (case poll_credit i (length bs) f of
           None \<Rightarrow> None
         | Some (None, f) \<Rightarrow> Some ([], bs, f)
         | Some (Some aval, f) \<Rightarrow>
             if aval = 0 \<or> aval > length bs then None
             else
               (case data_new i (take aval bs) of
                  None \<Rightarrow> None
                | Some d \<Rightarrow> map_option (\<lambda>(ds, bs, f). (d # ds, bs, f)) (send_chunk i (drop aval bs) f))))"
  by pat_completeness auto
termination by (relation "measure (\<lambda>(i, bs, f). length bs)") auto

declare send_chunk.simps [simp del]

section \<open>Runs and simulations\<close>

text \<open>A machine whose steps may fail and have outputs, run over a list of events.\<close>

fun runs :: "('s \<Rightarrow> 'e \<Rightarrow> ('s \<times> 'o list) option) \<Rightarrow> 's \<Rightarrow> 'e list \<Rightarrow> ('s \<times> 'o list) option" where
  "runs step s [] = Some (s, [])"
| "runs step s (e # es) =
     (case step s e of
        None \<Rightarrow> None
      | Some (s, os) \<Rightarrow> map_option (\<lambda>(s, os'). (s, os @ os')) (runs step s es))"

lemma runs_append:
  "runs step s (es @ es') = (case runs step s es of None \<Rightarrow> None | Some (s, os) \<Rightarrow> map_option (\<lambda>(s, os'). (s, os @ os')) (runs step s es'))"
  by (induction es arbitrary: s) (auto split: option.splits simp: option.map_comp comp_def case_prod_unfold option.map_ident)

text \<open>An abstraction that every step respects while an invariant holds.\<close>

locale simulation =
  fixes inv :: "'s \<Rightarrow> bool" and abs :: "'s \<Rightarrow> 'a"
    and step :: "'s \<Rightarrow> 'e \<Rightarrow> ('s \<times> 'o list) option" and spec :: "'a \<Rightarrow> 'e \<Rightarrow> ('a \<times> 'o list) option"
  assumes sim: "inv s \<Longrightarrow> spec (abs s) e = map_option (apfst abs) (step s e)"
    and keeps: "inv s \<Longrightarrow> step s e = Some (s', os) \<Longrightarrow> inv s'"
begin

lemma runs_keep: "inv s \<Longrightarrow> runs step s es = Some (s', os) \<Longrightarrow> inv s'"
  by (induction es arbitrary: s os) (auto split: option.splits dest: keeps)

lemma runs_refine: "inv s \<Longrightarrow> runs spec (abs s) es = map_option (apfst abs) (runs step s es)"
  by (induction es arbitrary: s)
    (auto simp: sim option.map_comp comp_def case_prod_unfold apfst_def split: option.splits dest: keeps)

end

section \<open>What flow control promises\<close>

text \<open>The credit of a connection and of its streams, and the events that change it.\<close>

record credit =
  cr_connection :: nat
  cr_initial :: nat
  cr_streams :: "u32 \<rightharpoonup> nat"

datatype flow_event =
    Window WindowUpdate
  | Initial "u32 option"
  | Open u32
  | Poll u32 nat
  | Close u32

fun credit_step :: "credit \<Rightarrow> flow_event \<Rightarrow> (credit \<times> (u32 \<times> nat) list) option" where
  "credit_step c (Window w) =
     (let i = wu_stream_id w; n = unat (wu_size_increment w) in
      Some (if i = 0 then c\<lparr>cr_connection := usize_add (cr_connection c) n\<rparr>
        else c\<lparr>cr_streams := (cr_streams c)(i := map_option (\<lambda>v. usize_add v n) (cr_streams c i))\<rparr>, []))"
| "credit_step c (Initial w) = Some (c\<lparr>cr_initial := case w of Some n \<Rightarrow> unat n | None \<Rightarrow> cr_initial c\<rparr>, [])"
| "credit_step c (Open i) = Some (c\<lparr>cr_streams := (cr_streams c)(i \<mapsto> cr_initial c)\<rparr>, [])"
| "credit_step c (Poll i len) =
     (case cr_streams c i of
        None \<Rightarrow> None
      | Some v \<Rightarrow>
          if cr_connection c = 0 \<or> v = 0 then Some (c, [])
          else
            let n = min (min v (cr_connection c)) (min len 16384) in
            Some (c\<lparr>cr_connection := cr_connection c - n, cr_streams := (cr_streams c)(i \<mapsto> v - n)\<rparr>, [(i, n)]))"
| "credit_step c (Close i) = Some (c\<lparr>cr_streams := (cr_streams c)(i := None)\<rparr>, [])"

fun flow_step :: "(nat list \<Rightarrow> nat) \<Rightarrow> FlowControl \<Rightarrow> flow_event \<Rightarrow> (FlowControl \<times> (u32 \<times> nat) list) option" where
  "flow_step vk f (Window w) = map_option (\<lambda>(f, _). (f, [])) (window_update w f)"
| "flow_step vk f (Initial w) = Some (apply_initial_window w f, [])"
| "flow_step vk f (Open i) = Some (stream_open (vk (map fst (fc_ordered_map f))) i f, [])"
| "flow_step vk f (Poll i len) =
     map_option (\<lambda>(r, f). (f, case r of None \<Rightarrow> [] | Some n \<Rightarrow> [(i, n)])) (poll_credit i len f)"
| "flow_step vk f (Close i) = map_option (\<lambda>f. (f, [])) (stream_close i f)"

definition flow_inv :: "FlowControl \<Rightarrow> bool" where
  "flow_inv f \<longleftrightarrow>
     ran (fc_map f) \<subseteq> dom (map_of (fc_ordered_map f)) \<and> inj_on (fc_map f) (dom (fc_map f)) \<and>
     (\<forall>k s. map_of (fc_ordered_map f) k = Some s \<longrightarrow> sc_frame_size s = 16384)"

definition flow_credit :: "FlowControl \<Rightarrow> credit" where
  "flow_credit f = \<lparr>cr_connection = fc_connection_window f, cr_initial = fc_stream_window f,
     cr_streams = (\<lambda>i. Option.bind (fc_map f i) (\<lambda>k. map_option sc_window (map_of (fc_ordered_map f) k)))\<rparr>"

section \<open>The slab implements it\<close>

lemma map_of_slab_insert: "k \<notin> fst ` set m \<Longrightarrow> map_of (slab_insert k x m) = (map_of m)(k \<mapsto> x)"
  by (induction m) (auto simp: slab_insert_def fun_upd_twist)

definition same_flow :: "StreamControlFlow option \<Rightarrow> StreamControlFlow option \<Rightarrow> bool" where
  "same_flow a b \<longleftrightarrow> map_option sc_window a = map_option sc_window b \<and> map_option sc_frame_size a = map_option sc_frame_size b"

lemma wake_first_same: "wake_first m = (m', w) \<Longrightarrow> same_flow (map_of m' k) (map_of m k)"
  by (induction m arbitrary: m' w) (auto simp: same_flow_def split: if_splits prod.splits)

text \<open>Streams have their own entries: a change of one is a change of its key only.\<close>

lemma flow_inv_key: "flow_inv f \<Longrightarrow> fc_map f i = Some k \<Longrightarrow> \<exists>s. map_of (fc_ordered_map f) k = Some s \<and> sc_frame_size s = 16384"
  by (fastforce simp: flow_inv_def ran_def)

lemma flow_inv_other: "flow_inv f \<Longrightarrow> fc_map f i = Some k \<Longrightarrow> fc_map f j = Some k \<longleftrightarrow> j = i"
  unfolding flow_inv_def inj_on_def by (metis domI)

lemma flow_update:
  assumes "flow_inv f" and "fc_map f i = Some k" and "sc_frame_size s' = 16384"
  shows "flow_inv (f\<lparr>fc_ordered_map := AList.update k s' (fc_ordered_map f)\<rparr>)"
    and "flow_credit (f\<lparr>fc_ordered_map := AList.update k s' (fc_ordered_map f)\<rparr>) =
      (flow_credit f)\<lparr>cr_streams := (cr_streams (flow_credit f))(i \<mapsto> sc_window s')\<rparr>"
proof -
  show "flow_inv (f\<lparr>fc_ordered_map := AList.update k s' (fc_ordered_map f)\<rparr>)"
    using assms(1,3) by (auto simp: flow_inv_def AList.update_conv')
  show "flow_credit (f\<lparr>fc_ordered_map := AList.update k s' (fc_ordered_map f)\<rparr>) =
      (flow_credit f)\<lparr>cr_streams := (cr_streams (flow_credit f))(i \<mapsto> sc_window s')\<rparr>"
    using assms(2) flow_inv_other [OF assms(1,2)]
    by (auto simp: flow_credit_def AList.update_conv' fun_eq_iff bind_eq_Some_conv split: option.splits bind_splits)
qed

lemma flow_wake:
  assumes "flow_inv f" and "wake_first (fc_ordered_map f) = (m, w)"
  shows "flow_inv (f\<lparr>fc_ordered_map := m\<rparr>)" and "flow_credit (f\<lparr>fc_ordered_map := m\<rparr>) = flow_credit f"
proof -
  note same = wake_first_same [OF assms(2), unfolded same_flow_def]
  have "dom (map_of m) = dom (map_of (fc_ordered_map f))" using same by (auto simp: dom_def) (metis map_option_is_None option.exhaust)+
  then show "flow_inv (f\<lparr>fc_ordered_map := m\<rparr>)" using assms(1) same by (auto simp: flow_inv_def) (metis map_option_eq_Some)
  show "flow_credit (f\<lparr>fc_ordered_map := m\<rparr>) = flow_credit f" using same by (simp add: flow_credit_def)
qed

definition step_ok :: "FlowControl \<Rightarrow> flow_event \<Rightarrow> (FlowControl \<times> (u32 \<times> nat) list) option \<Rightarrow> bool" where
  "step_ok f e r \<longleftrightarrow> credit_step (flow_credit f) e = map_option (apfst flow_credit) r \<and> (\<forall>f' os. r = Some (f', os) \<longrightarrow> flow_inv f')"

lemma flow_inv_windows [simp]:
  "flow_inv (f\<lparr>fc_connection_window := n\<rparr>) = flow_inv f" "flow_inv (f\<lparr>fc_stream_window := n\<rparr>) = flow_inv f"
  by (simp_all add: flow_inv_def)

lemma flow_credit_windows [simp]:
  "flow_credit (f\<lparr>fc_connection_window := n\<rparr>) = (flow_credit f)\<lparr>cr_connection := n\<rparr>"
  "flow_credit (f\<lparr>fc_stream_window := n\<rparr>) = (flow_credit f)\<lparr>cr_initial := n\<rparr>"
  "cr_connection (flow_credit f) = fc_connection_window f" "cr_initial (flow_credit f) = fc_stream_window f"
  by (simp_all add: flow_credit_def)

lemma flow_credit_stream:
  "fc_map f i = Some k \<Longrightarrow> map_of (fc_ordered_map f) k = Some s \<Longrightarrow> cr_streams (flow_credit f) i = Some (sc_window s)"
  "fc_map f i = None \<Longrightarrow> cr_streams (flow_credit f) i = None"
  by (simp_all add: flow_credit_def)

lemma window_step: "flow_inv f \<Longrightarrow> step_ok f (Window w) (flow_step vk f (Window w))"
proof (cases "wu_stream_id w = 0")
  case True
  assume i: "flow_inv f"
  let ?f = "f\<lparr>fc_connection_window := usize_add (fc_connection_window f) (unat (wu_size_increment w))\<rparr>"
  obtain m x where m: "wake_first (fc_ordered_map f) = (m, x)" by fastforce
  then show ?thesis using True i flow_wake [of ?f m x]
    by (simp add: step_ok_def window_update_def Let_def)
next
  case False
  assume i: "flow_inv f"
  show ?thesis
  proof (cases "fc_map f (wu_stream_id w)")
    case None
    then show ?thesis using False i flow_credit_stream(2) [OF None] by (simp add: step_ok_def window_update_def fun_upd_idem)
  next
    case (Some k)
    with i obtain s where s: "map_of (fc_ordered_map f) k = Some s" "sc_frame_size s = 16384" using flow_inv_key by blast
    show ?thesis using False i Some s flow_update [OF i Some] flow_credit_stream(1) [OF Some s(1)]
      by (simp add: step_ok_def window_update_def Let_def)
  qed
qed

lemma poll_step: "flow_inv f \<Longrightarrow> step_ok f (Poll i len) (flow_step vk f (Poll i len))"
proof (cases "fc_map f i")
  case None
  then show ?thesis using flow_credit_stream(2) [OF None] by (simp add: step_ok_def poll_credit_def)
next
  case (Some k)
  assume i: "flow_inv f"
  then obtain s where s: "map_of (fc_ordered_map f) k = Some s" "sc_frame_size s = 16384" using flow_inv_key Some by blast
  let ?n = "min (min (sc_window s) (fc_connection_window f)) (min len 16384)"
  let ?f = "f\<lparr>fc_connection_window := fc_connection_window f - ?n\<rparr>"
  note u = flow_update [OF i Some, of "s\<lparr>sc_waker := Some i\<rparr>"] flow_update [of ?f i k "s\<lparr>sc_window := sc_window s - ?n\<rparr>"]
  have same: "(cr_streams (flow_credit f))(i \<mapsto> sc_window s) = cr_streams (flow_credit f)"
    using flow_credit_stream(1) [OF Some s(1)] by (simp add: fun_upd_idem)
  show ?thesis using i Some s u flow_credit_stream(1) [OF Some s(1)] same
    by (simp add: step_ok_def poll_credit_def Let_def)
qed

lemma open_step:
  assumes "flow_inv f" and "vk (map fst (fc_ordered_map f)) \<notin> fst ` set (fc_ordered_map f)"
  shows "step_ok f (Open i) (flow_step vk f (Open i))"
proof -
  let ?k = "vk (map fst (fc_ordered_map f))"
  have k: "map_of (fc_ordered_map f) ?k = None" using assms(2) by (simp add: map_of_eq_None_iff)
  then have fresh: "fc_map f j \<noteq> Some ?k" for j using flow_inv_key [OF assms(1)] by fastforce
  note new = map_of_slab_insert [OF assms(2)]
  have "flow_inv (stream_open ?k i f)"
    using assms(1) fresh unfolding flow_inv_def stream_open_def
    by (auto simp: new inj_on_def ran_def split: if_splits)
  moreover have "flow_credit (stream_open ?k i f) = (flow_credit f)\<lparr>cr_streams := (cr_streams (flow_credit f))(i \<mapsto> fc_stream_window f)\<rparr>"
    using fresh by (auto simp: flow_credit_def stream_open_def new fun_eq_iff split: bind_splits)
  ultimately show ?thesis by (simp add: step_ok_def)
qed

lemma close_step: "flow_inv f \<Longrightarrow> step_ok f (Close i) (flow_step vk f (Close i))"
proof (cases "fc_map f i")
  case None
  assume "flow_inv f"
  with None show ?thesis using flow_credit_stream(2) [OF None] by (simp add: step_ok_def stream_close_def fun_upd_idem)
next
  case (Some k)
  assume i: "flow_inv f"
  then obtain s where s: "map_of (fc_ordered_map f) k = Some s" using flow_inv_key Some by blast
  let ?f = "f\<lparr>fc_map := (fc_map f)(i := None), fc_ordered_map := AList.delete k (fc_ordered_map f)\<rparr>"
  have "flow_inv ?f"
    using i flow_inv_other [OF i Some] unfolding flow_inv_def by (auto simp: inj_on_def ran_def AList.delete_conv')
  moreover have "flow_credit ?f = (flow_credit f)\<lparr>cr_streams := (cr_streams (flow_credit f))(i := None)\<rparr>"
    using flow_inv_other [OF i Some] by (auto simp: flow_credit_def fun_eq_iff AList.delete_conv' split: bind_splits)
  ultimately show ?thesis using Some s by (simp add: step_ok_def stream_close_def)
qed

lemma initial_step: "flow_inv f \<Longrightarrow> step_ok f (Initial w) (flow_step vk f (Initial w))"
  by (simp add: step_ok_def apply_initial_window_def split: option.splits)

text \<open>What the slab promises: a new key is not in use.\<close>

locale vacant_keys =
  fixes vk :: "nat list \<Rightarrow> nat"
  assumes vacant: "vk ks \<notin> set ks"

sublocale vacant_keys \<subseteq> flow: simulation flow_inv flow_credit "flow_step vk" credit_step
proof
  fix f e f' os
  assume i: "flow_inv f"
  have v: "vk (map fst (fc_ordered_map f)) \<notin> fst ` set (fc_ordered_map f)" using vacant by (metis list.set_map)
  have "step_ok f e (flow_step vk f e)"
    using window_step poll_step open_step close_step initial_step i v by (cases e) blast+
  then show "credit_step (flow_credit f) e = map_option (apfst flow_credit) (flow_step vk f e)"
    "flow_step vk f e = Some (f', os) \<Longrightarrow> flow_inv f'"
    by (simp_all add: step_ok_def)
qed

text \<open>Keys above every key in use are vacant.\<close>

definition next_key :: "nat list \<Rightarrow> nat" where
  "next_key ks = fold (\<lambda>k m. max (Suc k) m) ks 0"

interpretation next_keys: vacant_keys next_key
proof
  have "(\<forall>k\<in>set ks. k < fold (\<lambda>k m. max (Suc k) m) ks m) \<and> m \<le> fold (\<lambda>k m. max (Suc k) m) ks m" for ks and m :: nat
    by (induction ks arbitrary: m) (auto, meson Suc_le_lessD le_trans max.cobounded1, meson le_trans max.cobounded2)
  then show "next_key ks \<notin> set ks" for ks by (metis next_key_def less_irrefl)
qed

lemma flow_inv_init: "flow_inv flow_init"
  by (simp add: flow_inv_def flow_init_def)

definition credit_init :: credit where
  "credit_init = \<lparr>cr_connection = 65535, cr_initial = 65535, cr_streams = Map.empty\<rparr>"

lemma flow_credit_init: "flow_credit flow_init = credit_init"
  by (simp add: flow_credit_def flow_init_def credit_init_def)

text \<open>The bytes granted and the credit given by the peer, for the connection and for a stream.\<close>

definition granted :: "(u32 \<Rightarrow> bool) \<Rightarrow> (u32 \<times> nat) list \<Rightarrow> nat" where
  "granted P os = sum_list (map snd (filter (\<lambda>(i, n). P i) os))"

lemma granted_append [simp]: "granted P (as @ bs) = granted P as + granted P bs"
  by (simp add: granted_def)

fun given :: "u32 \<Rightarrow> flow_event \<Rightarrow> nat" where
  "given i (Window w) = (if wu_stream_id w = i then unat (wu_size_increment w) else 0)"
| "given i _ = 0"

lemma usize_add_le: "usize_add a b \<le> a + b"
  by (simp add: usize_add_def)

lemma credit_connection:
  "runs credit_step c es = Some (c', os) \<Longrightarrow> granted (\<lambda>_. True) os + cr_connection c' \<le> cr_connection c + sum_list (map (given 0) es)"
proof (induction es arbitrary: c os)
  case (Cons e es)
  then obtain c1 o1 o2 where s: "credit_step c e = Some (c1, o1)" "runs credit_step c1 es = Some (c', o2)" "os = o1 @ o2"
    by (auto split: option.splits)
  have "granted (\<lambda>_. True) o1 + cr_connection c1 \<le> cr_connection c + given 0 e"
    using s(1) usize_add_le by (cases e) (auto simp: granted_def Let_def split: option.splits if_splits)
  then show ?case using Cons.IH [OF s(2)] s(3) by simp
qed (simp add: granted_def)

lemma credit_step_closed:
  "credit_step c e = Some (c', os) \<Longrightarrow> e \<noteq> Open i \<Longrightarrow> cr_streams c i = None \<Longrightarrow> cr_streams c' i = None \<and> granted ((=) i) os = 0"
  by (cases e) (auto simp: granted_def Let_def split: option.splits if_splits)

lemma credit_closed:
  "runs credit_step c es = Some (c', os) \<Longrightarrow> Open i \<notin> set es \<Longrightarrow> cr_streams c i = None \<Longrightarrow> granted ((=) i) os = 0"
proof (induction es arbitrary: c os)
  case (Cons e es)
  then obtain c1 o1 o2 where s: "credit_step c e = Some (c1, o1)" "runs credit_step c1 es = Some (c', o2)" "os = o1 @ o2"
    by (auto split: option.splits)
  with credit_step_closed [OF s(1), of i] Cons show ?case by auto
qed (simp add: granted_def)

lemma credit_stream:
  "runs credit_step c es = Some (c', os) \<Longrightarrow> i \<noteq> 0 \<Longrightarrow> Open i \<notin> set es \<Longrightarrow> cr_streams c i = Some v \<Longrightarrow>
     granted ((=) i) os \<le> v + sum_list (map (given i) es)"
proof (induction es arbitrary: c os v)
  case (Cons e es)
  then obtain c1 o1 o2 where s: "credit_step c e = Some (c1, o1)" "runs credit_step c1 es = Some (c', o2)" "os = o1 @ o2"
    by (auto split: option.splits)
  show ?case
  proof (cases "cr_streams c1 i")
    case None
    then have "granted ((=) i) o1 = 0"
      using s(1) Cons.prems(4) by (cases e) (auto simp: granted_def Let_def split: option.splits if_splits)
    then show ?thesis using credit_closed [OF s(2) _ None] Cons.prems(3) s(3) by simp
  next
    case (Some v1)
    have "granted ((=) i) o1 + v1 \<le> v + given i e"
      using s(1) Some Cons.prems usize_add_le by (cases e) (auto simp: granted_def Let_def split: option.splits if_splits)
    then show ?thesis using Cons.IH [OF s(2) _ _ Some] Cons.prems s(3) by simp
  qed
qed (simp add: granted_def)

context vacant_keys
begin

lemma flow_refines_from: "flow_inv f \<Longrightarrow> runs credit_step (flow_credit f) es = map_option (apfst flow_credit) (runs (flow_step vk) f es)"
  by (rule flow.runs_refine)

lemma flow_refines: "runs credit_step credit_init es = map_option (apfst flow_credit) (runs (flow_step vk) flow_init es)"
  using flow_refines_from [OF flow_inv_init] by (simp add: flow_credit_init)

lemma flow_keeps: "runs (flow_step vk) flow_init es = Some (f, os) \<Longrightarrow> flow_inv f"
  by (rule flow.runs_keep [OF flow_inv_init])

end

text \<open>
  C11: Flow control with its slab of streams, its map of keys and its wakers behaves as an account of credit per
  connection and per stream: every sequence of WINDOW_UPDATE frames, new initial windows, responses that start and end,
  and polls for credit, in whatever order the tasks run, grants the same bytes to the same streams and fails exactly when
  a stream without an entry is polled. The slab is only trusted to give keys that are not in use.
\<close>

theorem flow_control_refines:
  assumes "\<And>ks. vk ks \<notin> set ks"
  shows "map_option (apfst flow_credit) (runs (flow_step vk) flow_init es) = runs credit_step credit_init es"
  by (rule vacant_keys.flow_refines [symmetric]) (unfold_locales, rule assms)

theorem flow_control_refines_witness:
  "(\<forall>ks. next_key ks \<notin> set ks) \<and>
   map_option (apfst flow_credit) (runs (flow_step next_key) flow_init [Open 1, Poll 1 20000, Window \<lparr>wu_stream_id = 1, wu_size_increment = 7\<rparr>]) =
   Some (\<lparr>cr_connection = 49151, cr_initial = 65535, cr_streams = [1 \<mapsto> 49158]\<rparr>, [(1, 16384)])"
  using next_keys.vacant
  by (subst flow_control_refines) (simp_all add: credit_init_def Let_def usize_add_def)

text \<open>
  C10: A connection never sends more than its peer allows. Whatever the order of frames, responses and polls, the bytes
  granted to all streams are at most the initial 65535 plus what WINDOW_UPDATE frames gave the connection; and from the
  moment a response starts, the bytes granted to its stream are at most the initial window then in force plus what
  WINDOW_UPDATE frames gave that stream. The initial window is the one of the last SETTINGS frame before the response:
  a later SETTINGS frame changes the windows of streams to come only, so where it lowers the initial window this bound
  is not the one the peer computes.
\<close>

theorem flow_control_safe:
  assumes "\<And>ks. vk ks \<notin> set ks"
    and "runs (flow_step vk) flow_init pre = Some (f0, os0)"
    and "runs (flow_step vk) f0 (Open i # post) = Some (f, os)"
    and "i \<noteq> 0" and "Open i \<notin> set post"
  shows "granted (\<lambda>_. True) (os0 @ os) \<le> 65535 + sum_list (map (given 0) (pre @ post))
    \<and> granted ((=) i) os \<le> fc_stream_window f0 + sum_list (map (given i) post)"
proof -
  have v: "vacant_keys vk" by unfold_locales (rule assms)
  have pre: "runs credit_step credit_init pre = Some (flow_credit f0, os0)"
    using vacant_keys.flow_refines [OF v, of pre] assms(2) by simp
  have i: "flow_inv f0" using vacant_keys.flow_keeps [OF v] assms(2) by blast
  then have post: "runs credit_step (flow_credit f0) (Open i # post) = Some (flow_credit f, os)"
    using vacant_keys.flow_refines_from [OF v i, of "Open i # post"] assms(3) by simp
  then have "granted ((=) i) os \<le> fc_stream_window f0 + sum_list (map (given i) post)"
    using credit_stream [OF _ assms(4,5)] by auto
  moreover have "granted (\<lambda>_. True) os0 + granted (\<lambda>_. True) os \<le> 65535 + sum_list (map (given 0) pre) + sum_list (map (given 0) post)"
    using credit_connection [OF pre] credit_connection [OF post] by (simp add: credit_init_def)
  ultimately show ?thesis by simp
qed

theorem flow_control_safe_witness:
  "\<exists>f. (\<forall>ks. next_key ks \<notin> set ks) \<and> runs (flow_step next_key) flow_init [Initial (Some 20000)] = Some (flow_init\<lparr>fc_stream_window := 20000\<rparr>, []) \<and>
     runs (flow_step next_key) (flow_init\<lparr>fc_stream_window := 20000\<rparr>) (Open 1 # [Poll 1 40000, Poll 1 40000]) = Some (f, [(1, 16384), (1, 3616)]) \<and>
     granted (\<lambda>_. True) ([] @ [(1, 16384), (1, 3616)]) \<le> 65535 + sum_list (map (given 0) ([Initial (Some 20000)] @ [Poll 1 40000, Poll 1 40000])) \<and>
     granted ((=) 1) [(1, 16384), (1, 3616)] \<le> fc_stream_window (flow_init\<lparr>fc_stream_window := 20000\<rparr>) + sum_list (map (given 1) [Poll 1 40000, Poll 1 40000])"
proof -
  let ?g = "flow_init\<lparr>fc_stream_window := 20000\<rparr>"
  let ?f = "(stream_open 0 1 ?g)\<lparr>fc_connection_window := 45535, fc_ordered_map := [(0, \<lparr>sc_window = 0, sc_frame_size = 16384, sc_waker = None\<rparr>)]\<rparr>"
  have v: "\<And>ks. next_key ks \<notin> set ks" by (rule next_keys.vacant)
  have r0: "runs (flow_step next_key) flow_init [Initial (Some 20000)] = Some (?g, [])"
    by (simp add: apply_initial_window_def)
  have r: "runs (flow_step next_key) ?g (Open 1 # [Poll 1 40000, Poll 1 40000]) = Some (?f, [(1, 16384), (1, 3616)])"
    by (simp add: flow_init_def stream_open_def slab_insert_def poll_credit_def Let_def next_key_def)
  note b = flow_control_safe [OF v r0 r]
  show ?thesis by (rule exI [of _ ?f]) (intro conjI allI v r0 r b [THEN conjunct1] b [THEN conjunct2]; simp)
qed

section \<open>A body makes progress\<close>

text \<open>The entry of a stream.\<close>

definition stream_entry :: "FlowControl \<Rightarrow> u32 \<Rightarrow> StreamControlFlow option" where
  "stream_entry f i = Option.bind (fc_map f i) (map_of (fc_ordered_map f))"

lemma stream_entryE:
  assumes "stream_entry f i = Some s"
  obtains k where "fc_map f i = Some k" and "map_of (fc_ordered_map f) k = Some s"
  using assms by (auto simp: stream_entry_def bind_eq_Some_conv)

lemma stream_entry_update [simp]:
  "fc_map f i = Some k \<Longrightarrow> stream_entry (f\<lparr>fc_ordered_map := AList.update k s m\<rparr>) i = Some s"
  "fc_map f i = Some k \<Longrightarrow> stream_entry (f\<lparr>fc_connection_window := n, fc_ordered_map := AList.update k s m\<rparr>) i = Some s"
  by (simp_all add: stream_entry_def AList.update_conv')

text \<open>
  What one run of the inner loop does: it sends the start of the chunk, as much as both windows allow, in frames of 1 to
  16384 bytes; if something is left the task has left its waker.
\<close>

definition sends :: "u32 \<Rightarrow> bytes \<Rightarrow> FlowControl \<Rightarrow> Data list \<Rightarrow> bytes \<Rightarrow> FlowControl \<Rightarrow> bool" where
  "sends i bs f ds rest f' \<longleftrightarrow>
     (\<exists>s s'. stream_entry f i = Some s \<and> stream_entry f' i = Some s' \<and>
        (let n = min (length bs) (min (sc_window s) (fc_connection_window f)) in
         concat (map da_data ds) = take n bs \<and> rest = drop n bs \<and>
         list_all (\<lambda>d. da_stream_id d = i \<and> \<not> data_is_end_stream d \<and> da_data d \<noteq> [] \<and> length (da_data d) \<le> 16384) ds \<and>
         sc_window s' = sc_window s - n \<and> fc_connection_window f' = fc_connection_window f - n \<and>
         sc_frame_size s' = sc_frame_size s \<and> (rest \<noteq> [] \<longrightarrow> sc_waker s' = Some i)))"

lemma poll_credit_entry:
  assumes "stream_entry f i = Some s"
  shows "poll_credit i len f =
    (if fc_connection_window f = 0 \<or> sc_window s = 0 then
       Some (None, f\<lparr>fc_ordered_map := AList.update (the (fc_map f i)) (s\<lparr>sc_waker := Some i\<rparr>) (fc_ordered_map f)\<rparr>)
     else
       let n = min (min (sc_window s) (fc_connection_window f)) (min len (sc_frame_size s)) in
       Some (Some n, f\<lparr>fc_connection_window := fc_connection_window f - n,
         fc_ordered_map := AList.update (the (fc_map f i)) (s\<lparr>sc_window := sc_window s - n\<rparr>) (fc_ordered_map f)\<rparr>))"
  by (rule stream_entryE [OF assms]) (simp add: poll_credit_def Let_def)

lemma sends_iff:
  assumes "stream_entry f i = Some s" and "min (length bs) (min (sc_window s) (fc_connection_window f)) = n"
  shows "sends i bs f ds rest f' \<longleftrightarrow>
    (\<exists>s'. stream_entry f' i = Some s' \<and> concat (map da_data ds) = take n bs \<and> rest = drop n bs \<and>
      list_all (\<lambda>d. da_stream_id d = i \<and> \<not> data_is_end_stream d \<and> da_data d \<noteq> [] \<and> length (da_data d) \<le> 16384) ds \<and>
      sc_window s' = sc_window s - n \<and> fc_connection_window f' = fc_connection_window f - n \<and>
      sc_frame_size s' = sc_frame_size s \<and> (rest \<noteq> [] \<longrightarrow> sc_waker s' = Some i))"
  by (simp add: sends_def Let_def assms)

lemma min_rest: "n \<le> a \<Longrightarrow> n \<le> b \<Longrightarrow> n \<le> c \<Longrightarrow> min a (min b c) = n + min (a - n) (min (b - n) (c - n))" for n :: nat
  by (simp add: min_diff)

lemma send_chunk_sends:
  "i \<noteq> 0 \<Longrightarrow> stream_entry f i = Some s \<Longrightarrow> sc_frame_size s = 16384 \<Longrightarrow> \<exists>ds rest f'. send_chunk i bs f = Some (ds, rest, f') \<and> sends i bs f ds rest f'"
proof (induction "length bs" arbitrary: bs f s rule: less_induct)
  case less
  obtain k where k: "fc_map f i = Some k" using less.prems(2) by (rule stream_entryE)
  let ?c = "fc_connection_window f"
  show ?case
  proof (cases "bs = [] \<or> ?c = 0 \<or> sc_window s = 0")
    case True
    then show ?thesis using less.prems k
      by (auto simp: send_chunk.simps [of i bs f] poll_credit_entry sends_def Let_def)
  next
    case False
    define n where n: "n = min (min (sc_window s) ?c) (min (length bs) 16384)"
    let ?s = "s\<lparr>sc_window := sc_window s - n\<rparr>"
    let ?f = "f\<lparr>fc_connection_window := ?c - n, fc_ordered_map := AList.update k ?s (fc_ordered_map f)\<rparr>"
    let ?d = "\<lparr>da_stream_id = i, da_data = take n bs, da_flags = 0, da_pad_len = None\<rparr>"
    have b: "0 < n" "n \<le> length bs" "n \<le> sc_window s" "n \<le> ?c" "n \<le> 16384" using False by (simp_all add: n)
    have e: "stream_entry ?f i = Some ?s" using k by simp
    obtain ds rest f' where r: "send_chunk i (drop n bs) ?f = Some (ds, rest, f')" "sends i (drop n bs) ?f ds rest f'"
      using less.hyps [of "drop n bs" ?f ?s, OF _ less.prems(1) e] less.prems(3) b False by auto
    have "send_chunk i bs f = Some (?d # ds, rest, f')"
      using False b less.prems(1) k r(1)
      by (simp add: send_chunk.simps [of i bs f] poll_credit_entry [OF less.prems(2)] less.prems(3) Let_def data_new_def flip: n)
    moreover have "sends i bs f (?d # ds) rest f'"
    proof -
      define m where m0: "m = min (length bs - n) (min (sc_window s - n) (?c - n))"
      have m: "min (length bs) (min (sc_window s) ?c) = n + m" unfolding m0 by (rule min_rest [OF b(2-4)])
      have m1: "min (length (drop n bs)) (min (sc_window ?s) (fc_connection_window ?f)) = m" by (simp add: m0)
      have d: "bs \<noteq> []" "min (length bs) n = n" "\<not> data_is_end_stream ?d"
        using b(2) False by (simp_all add: data_is_end_stream_def END_STREAM_def)
      from r(2) [unfolded sends_iff [OF e m1]] show ?thesis
        unfolding sends_iff [OF less.prems(2) m] by (elim exE conjE, intro exI conjI) (simp_all add: take_add d b(1,5) add.commute [of m n])
    qed
    ultimately show ?thesis by blast
  qed
qed

lemma usize_add_0: "usize_add 0 (unat x) = unat x" for x :: u32
  by (simp add: usize_add_def) (rule mod_less, rule less_trans [OF unsigned_less], simp)

lemma sends_progress:
  assumes "sends i bs f ds rest f'" and "rest \<noteq> []" and "stream_entry f i = Some s"
  shows "\<exists>s'. stream_entry f' i = Some s' \<and> sc_waker s' = Some i \<and> sc_frame_size s' = sc_frame_size s \<and>
    (fc_connection_window f' = 0 \<or> sc_window s' = 0)"
proof -
  let ?n = "min (length bs) (min (sc_window s) (fc_connection_window f))"
  obtain s' where s': "stream_entry f' i = Some s'" "rest = drop ?n bs" "sc_window s' = sc_window s - ?n"
      "fc_connection_window f' = fc_connection_window f - ?n" "sc_frame_size s' = sc_frame_size s" "sc_waker s' = Some i"
    using assms(1,2) unfolding sends_iff [OF assms(3) refl] by blast
  have "?n < length bs" using assms(2) s'(2) by (metis drop_all linorder_not_less)
  then have "sc_window s - ?n = 0 \<or> fc_connection_window f - ?n = 0" by linarith
  then show ?thesis using s' by auto
qed

lemma window_update_entry:
  assumes "i \<noteq> 0" and "stream_entry f i = Some s" and "0 < fc_connection_window f"
  shows "\<exists>f'. window_update \<lparr>wu_stream_id = i, wu_size_increment = inc\<rparr> f = Some (f', sc_waker s) \<and>
    stream_entry f' i = Some (s\<lparr>sc_window := usize_add (sc_window s) (unat inc), sc_waker := None\<rparr>) \<and>
    fc_connection_window f' = fc_connection_window f"
  using assms by (elim stream_entryE) (simp add: window_update_def Let_def)

text \<open>
  C13: A response body is not stuck while its own stream is short of credit. A run over a chunk sends, in order and in
  frames of 1 to 16384 bytes, as much of it as the two windows allow. If bytes are left although the connection has
  credit, the WINDOW_UPDATE frame for the stream that comes next wakes the task, and its next run sends as many of the
  bytes left as the update and the connection allow, at least one. The condition on the connection is needed: without
  its credit the same frame discards the waker, as the next property shows.
\<close>

theorem blocked_body_resumes:
  assumes "i \<noteq> 0" and "flow_inv f" and "stream_entry f i = Some s" and "0 < inc"
  shows "\<exists>ds rest f'. send_chunk i bs f = Some (ds, rest, f') \<and> sends i bs f ds rest f' \<and>
    (rest \<noteq> [] \<and> 0 < fc_connection_window f' \<longrightarrow>
      (\<exists>f2 ds2 rest2 f3. window_update \<lparr>wu_stream_id = i, wu_size_increment = inc\<rparr> f' = Some (f2, Some i) \<and>
        send_chunk i rest f2 = Some (ds2, rest2, f3) \<and> concat (map da_data ds2) @ rest2 = rest \<and>
        length (concat (map da_data ds2)) = min (length rest) (min (unat inc) (fc_connection_window f')) \<and> ds2 \<noteq> []))"
proof -
  have fs: "sc_frame_size s = 16384" using assms(2,3) flow_inv_key by (elim stream_entryE) fastforce
  obtain ds rest f' where r: "send_chunk i bs f = Some (ds, rest, f')" "sends i bs f ds rest f'"
    using send_chunk_sends [OF assms(1,3) fs] by blast
  have "\<exists>f2 ds2 rest2 f3. window_update \<lparr>wu_stream_id = i, wu_size_increment = inc\<rparr> f' = Some (f2, Some i) \<and>
      send_chunk i rest f2 = Some (ds2, rest2, f3) \<and> concat (map da_data ds2) @ rest2 = rest \<and>
      length (concat (map da_data ds2)) = min (length rest) (min (unat inc) (fc_connection_window f')) \<and> ds2 \<noteq> []"
    if b: "rest \<noteq> []" "0 < fc_connection_window f'"
  proof -
    obtain s' where s': "stream_entry f' i = Some s'" "sc_waker s' = Some i" "sc_frame_size s' = 16384" "sc_window s' = 0"
      using sends_progress [OF r(2) b(1) assms(3)] b(2) fs by auto
    let ?s = "s'\<lparr>sc_window := unat inc, sc_waker := None\<rparr>"
    have "usize_add 0 (unat inc) = unat inc" by (rule usize_add_0)
    then obtain f2 where f2: "window_update \<lparr>wu_stream_id = i, wu_size_increment = inc\<rparr> f' = Some (f2, Some i)"
        "stream_entry f2 i = Some ?s" "fc_connection_window f2 = fc_connection_window f'"
      using window_update_entry [OF assms(1) s'(1) b(2), of inc] s'(2,4) by auto
    obtain ds2 rest2 f3 where r2: "send_chunk i rest f2 = Some (ds2, rest2, f3)" "sends i rest f2 ds2 rest2 f3"
      using send_chunk_sends [OF assms(1) f2(2), of rest] s'(3) by auto
    define n where n: "n = min (length rest) (min (unat inc) (fc_connection_window f'))"
    have "0 < n" using b assms(4) by (simp add: n unat_gt_0)
    moreover have "concat (map da_data ds2) = take n rest" "rest2 = drop n rest" "n \<le> length rest"
      using r2(2) [unfolded sends_iff [OF f2(2) refl]] f2(3) by (auto simp: n)
    ultimately show ?thesis unfolding n [symmetric] using f2(1) r2(1) b(1) by (intro exI conjI) auto
  qed
  then show ?thesis by - (rule exI [of _ ds], rule exI [of _ rest], rule exI [of _ f'], use r in simp)
qed

theorem blocked_body_resumes_witness:
  "\<exists>ds rest f'. send_chunk 1 [7, 8] (stream_open 0 1 (flow_init\<lparr>fc_stream_window := 1\<rparr>)) = Some (ds, rest, f') \<and> rest = [8] \<and>
     (\<exists>f2 ds2 f3. window_update \<lparr>wu_stream_id = 1, wu_size_increment = 5\<rparr> f' = Some (f2, Some 1) \<and>
       send_chunk 1 rest f2 = Some (ds2, [], f3) \<and> concat (map da_data ds2) = [8])"
proof -
  let ?f = "stream_open 0 1 (flow_init\<lparr>fc_stream_window := 1\<rparr>)" and ?s = "\<lparr>sc_window = 1, sc_frame_size = 16384, sc_waker = None\<rparr>"
  have e: "flow_inv ?f" "stream_entry ?f 1 = Some ?s" "fc_connection_window ?f = 65535"
    by (simp_all add: flow_inv_def stream_entry_def stream_open_def flow_init_def slab_insert_def)
  let ?resumes = "\<lambda>rest f'. \<exists>f2 ds2 rest2 f3. window_update \<lparr>wu_stream_id = 1, wu_size_increment = 5\<rparr> f' = Some (f2, Some 1) \<and>
        send_chunk 1 rest f2 = Some (ds2, rest2, f3) \<and> concat (map da_data ds2) @ rest2 = rest \<and>
        length (concat (map da_data ds2)) = min (length rest) (min (unat (5 :: u32)) (fc_connection_window f')) \<and> ds2 \<noteq> []"
  have "\<exists>ds rest f'. send_chunk 1 [7, 8] ?f = Some (ds, rest, f') \<and> sends 1 [7, 8] ?f ds rest f' \<and>
     (rest \<noteq> [] \<and> 0 < fc_connection_window f' \<longrightarrow> ?resumes rest f')"
    by (rule blocked_body_resumes [OF _ e(1,2)]) simp_all
  then obtain ds rest f' where r: "send_chunk 1 [7, 8] ?f = Some (ds, rest, f')" "sends 1 [7, 8] ?f ds rest f'"
     "rest \<noteq> [] \<and> 0 < fc_connection_window f' \<longrightarrow> ?resumes rest f'" by (elim exE conjE) rule
  from r(2) [unfolded sends_iff [OF e(2) refl] e(3)] have "rest = [8]" "fc_connection_window f' = 65534" by auto
  moreover from this r(3) obtain f2 ds2 rest2 f3 where "window_update \<lparr>wu_stream_id = 1, wu_size_increment = 5\<rparr> f' = Some (f2, Some 1)"
      "send_chunk 1 rest f2 = Some (ds2, rest2, f3)" "concat (map da_data ds2) @ rest2 = [8]" "length (concat (map da_data ds2)) = 1"
    by auto
  moreover from this(3,4) have "concat (map da_data ds2) = [8]" "rest2 = []" by (cases "concat (map da_data ds2)"; simp)+
  ultimately show ?thesis using r(1) by auto
qed

text \<open>A sequence of WINDOW_UPDATE frames and the tasks it wakes.\<close>

fun window_updates :: "WindowUpdate list \<Rightarrow> FlowControl \<Rightarrow> (FlowControl \<times> u32 list) option" where
  "window_updates [] f = Some (f, [])"
| "window_updates (w # ws) f =
     (case window_update w f of
        None \<Rightarrow> None
      | Some (f, waker) \<Rightarrow> map_option (apsnd (append (case waker of None \<Rightarrow> [] | Some i \<Rightarrow> [i]))) (window_updates ws f))"

text \<open>No entry holds the waker of a task.\<close>

definition unheld :: "u32 \<Rightarrow> FlowControl \<Rightarrow> bool" where
  "unheld i f \<longleftrightarrow> (\<forall>(k, s) \<in> set (fc_ordered_map f). sc_waker s \<noteq> Some i)"

lemma set_update_subset: "set (AList.update k v m) \<subseteq> insert (k, v) (set m)"
  by (induction m) auto

lemma set_update_distinct: "distinct (map fst m) \<Longrightarrow> set (AList.update k v m) \<subseteq> insert (k, v) {(k', v') \<in> set m. k' \<noteq> k}"
  by (induction m) (auto simp: image_iff)

lemma wake_first_unheld:
  "wake_first m = (m', w) \<Longrightarrow> \<forall>(k, s) \<in> set m. sc_waker s \<noteq> Some i \<Longrightarrow> (\<forall>(k, s) \<in> set m'. sc_waker s \<noteq> Some i) \<and> w \<noteq> Some i"
  by (induction m arbitrary: m' w) (auto split: if_splits prod.splits)

lemma window_update_unheld:
  assumes "flow_inv f" and "unheld i f"
  shows "\<exists>f' w. window_update u f = Some (f', w) \<and> flow_inv f' \<and> unheld i f' \<and> w \<noteq> Some i"
proof -
  have ok: "flow_inv f'" if "window_update u f = Some (f', w)" for f' w
    using window_step [OF assms(1), of u] that by (auto simp: step_ok_def)
  show ?thesis
  proof (cases "wu_stream_id u = 0")
    case True
    obtain m w where m: "wake_first (fc_ordered_map f) = (m, w)" by (cases "wake_first (fc_ordered_map f)")
    then show ?thesis using True ok wake_first_unheld [OF m, of i] assms(2) by (simp add: window_update_def Let_def unheld_def)
  next
    case False
    show ?thesis
    proof (cases "fc_map f (wu_stream_id u)")
      case None
      then show ?thesis using False assms by (simp add: window_update_def)
    next
      case (Some k)
      obtain s where s: "map_of (fc_ordered_map f) k = Some s" using flow_inv_key [OF assms(1) Some] by blast
      then have "sc_waker s \<noteq> Some i" using assms(2) map_of_SomeD by (fastforce simp: unheld_def)
      moreover have "unheld i (f\<lparr>fc_ordered_map := AList.update k (s\<lparr>sc_window := n, sc_waker := None\<rparr>) (fc_ordered_map f)\<rparr>)" for n
        using assms(2) set_update_subset by (fastforce simp: unheld_def)
      ultimately show ?thesis using ok False Some s by (simp add: window_update_def Let_def)
    qed
  qed
qed

lemma window_updates_unheld:
  "flow_inv f \<Longrightarrow> unheld i f \<Longrightarrow> \<exists>f' woken. window_updates ws f = Some (f', woken) \<and> i \<notin> set woken"
proof (induction ws arbitrary: f)
  case (Cons u ws)
  obtain f1 w where u: "window_update u f = Some (f1, w)" "flow_inv f1" "unheld i f1" "w \<noteq> Some i"
    using window_update_unheld [OF Cons.prems] by blast
  from Cons.IH [OF u(2,3)] u(1,4) show ?case by (cases w) auto
qed simp

text \<open>
  C39: A WINDOW_UPDATE frame for a stream while the connection has no credit loses the waker of its task. A response task
  is polled and has to wait because the connection window is empty. The WINDOW_UPDATE frame for its stream takes the
  waker out of the entry and wakes nobody; and then no sequence of WINDOW_UPDATE frames, whatever credit it gives to the
  connection and to the stream, wakes the task again. The hypotheses say that the slab has each key once and that the
  waker of the task, if an entry holds it, is in the entry of its own stream.
\<close>

theorem stream_update_loses_waker:
  assumes "i \<noteq> 0" and "flow_inv f" and "stream_entry f i = Some s" and "fc_connection_window f = 0"
    and "distinct (map fst (fc_ordered_map f))" and "\<And>k s. (k, s) \<in> set (fc_ordered_map f) \<Longrightarrow> sc_waker s = Some i \<Longrightarrow> fc_map f i = Some k"
  shows "\<exists>f1 f2 woken. poll_credit i len f = Some (None, f1) \<and> stream_entry f1 i = Some (s\<lparr>sc_waker := Some i\<rparr>) \<and>
    window_updates (\<lparr>wu_stream_id = i, wu_size_increment = inc\<rparr> # ws) f1 = Some (f2, woken) \<and> i \<notin> set woken"
proof -
  obtain k where k: "fc_map f i = Some k" "map_of (fc_ordered_map f) k = Some s" using assms(3) by (elim stream_entryE)
  let ?upd = "\<lambda>s' f. f\<lparr>fc_ordered_map := AList.update k s' (fc_ordered_map f)\<rparr>"
  define f1 where "f1 = ?upd (s\<lparr>sc_waker := Some i\<rparr>) f"
  have p: "poll_credit i len f = Some (None, f1)" using k assms(4) by (simp add: poll_credit_def f1_def)
  have fs: "sc_frame_size s = 16384" using assms(2) k flow_inv_key by fastforce
  have i1: "flow_inv f1" unfolding f1_def by (rule flow_update(1) [OF assms(2) k(1)]) (simp add: fs)
  have e1: "fc_map f1 i = Some k" "map_of (fc_ordered_map f1) k = Some (s\<lparr>sc_waker := Some i\<rparr>)"
    using k by (simp_all add: f1_def AList.update_conv')
  let ?s2 = "s\<lparr>sc_window := usize_add (sc_window s) (unat inc), sc_waker := None\<rparr>"
  have w: "window_update \<lparr>wu_stream_id = i, wu_size_increment = inc\<rparr> f1 = Some (?upd ?s2 f1, None)"
    using assms(1,4) e1 by (simp add: window_update_def Let_def f1_def)
  have i2: "flow_inv (?upd ?s2 f1)" by (rule flow_update(1) [OF i1 e1(1)]) (simp add: fs)
  have d: "distinct (map fst (fc_ordered_map f1))" unfolding f1_def by (simp add: assms(5) distinct_update)
  have "unheld i (?upd ?s2 f1)"
    using set_update_distinct [OF d, of k ?s2] set_update_distinct [OF assms(5), of k "s\<lparr>sc_waker := Some i\<rparr>"] assms(6) k(1)
    by (fastforce simp: unheld_def f1_def)
  from window_updates_unheld [OF i2 this, of ws] show ?thesis
    using p w e1 by (auto simp: stream_entry_def)
qed

theorem stream_update_loses_waker_witness:
  "\<exists>f f1 f2 woken. runs (flow_step next_key) flow_init [Open 1, Open 3, Poll 3 65535, Poll 3 65535, Poll 3 65535, Poll 3 65535] =
       Some (f, [(3, 16384), (3, 16384), (3, 16384), (3, 16383)]) \<and>
     poll_credit 1 5 f = Some (None, f1) \<and>
     stream_entry f1 1 = Some \<lparr>sc_window = 65535, sc_frame_size = 16384, sc_waker = Some 1\<rparr> \<and>
     window_updates [\<lparr>wu_stream_id = 1, wu_size_increment = 7\<rparr>, \<lparr>wu_stream_id = 0, wu_size_increment = 9\<rparr>] f1 = Some (f2, woken) \<and> 1 \<notin> set woken"
proof -
  let ?s = "\<lparr>sc_window = 65535, sc_frame_size = 16384, sc_waker = None\<rparr>"
  let ?f = "\<lparr>fc_connection_window = 0, fc_stream_window = 65535, fc_ordered_map = [(0, ?s), (1, ?s\<lparr>sc_window := 0\<rparr>)], fc_map = [1 \<mapsto> 0, 3 \<mapsto> 1]\<rparr>"
  have r: "runs (flow_step next_key) flow_init [Open 1, Open 3, Poll 3 65535, Poll 3 65535, Poll 3 65535, Poll 3 65535] =
      Some (?f, [(3, 16384), (3, 16384), (3, 16384), (3, 16383)])"
    by (simp add: flow_init_def stream_open_def slab_insert_def poll_credit_def Let_def next_key_def)
  have e: "\<exists>f1 f2 woken. poll_credit 1 5 ?f = Some (None, f1) \<and> stream_entry f1 1 = Some (?s\<lparr>sc_waker := Some 1\<rparr>) \<and>
     window_updates [\<lparr>wu_stream_id = 1, wu_size_increment = 7\<rparr>, \<lparr>wu_stream_id = 0, wu_size_increment = 9\<rparr>] f1 = Some (f2, woken) \<and> 1 \<notin> set woken"
    by (rule stream_update_loses_waker) (auto simp: flow_inv_def stream_entry_def inj_on_def split: if_splits)
  have "?s\<lparr>sc_waker := Some 1\<rparr> = \<lparr>sc_window = 65535, sc_frame_size = 16384, sc_waker = Some 1\<rparr>" by simp
  with r e show ?thesis by metis
qed

text \<open>
  C38: An update of the connection window wakes one task at most, the first in the slab whose stream has credit, even if
  others wait too: of two streams that wait for the connection, the second is not woken. If the first then sends less
  than the update gave, the connection has credit and the second still waits.
\<close>

theorem connection_update_wakes_one:
  assumes "fc_ordered_map f = (k1, s1) # (k2, s2) # m" and "k1 \<noteq> k2" and "fc_map f i1 = Some k1" and "fc_map f i2 = Some k2"
    and "sc_waker s1 = Some i1" and "sc_waker s2 = Some i2" and "0 < sc_window s1" and "0 < sc_window s2"
    and "fc_connection_window f = 0" and "0 < len" and "len < unat inc" and "len \<le> sc_window s1" and "len \<le> sc_frame_size s1"
  shows "\<exists>f1 f2. window_update \<lparr>wu_stream_id = 0, wu_size_increment = inc\<rparr> f = Some (f1, Some i1) \<and>
    poll_credit i1 len f1 = Some (Some len, f2) \<and> 0 < fc_connection_window f2 \<and> stream_entry f2 i2 = Some s2"
proof -
  let ?f1 = "f\<lparr>fc_connection_window := unat inc, fc_ordered_map := (k1, s1\<lparr>sc_waker := None\<rparr>) # (k2, s2) # m\<rparr>"
  have "usize_add 0 (unat inc) = unat inc" by (rule usize_add_0)
  then have 1: "window_update \<lparr>wu_stream_id = 0, wu_size_increment = inc\<rparr> f = Some (?f1, Some i1)"
    using assms(1,5,7,9) by (simp add: window_update_def Let_def)
  have "poll_credit i1 len ?f1 = Some (Some len, ?f1\<lparr>fc_connection_window := unat inc - len,
      fc_ordered_map := (k1, s1\<lparr>sc_waker := None, sc_window := sc_window s1 - len\<rparr>) # (k2, s2) # m\<rparr>)"
    using assms(3,7,10-13) by (simp add: poll_credit_def Let_def min_def)
  with 1 show ?thesis using assms(2,4,11) by (auto simp: stream_entry_def)
qed

theorem connection_update_wakes_one_witness:
  "\<exists>f1 f2. window_update \<lparr>wu_stream_id = 0, wu_size_increment = 100\<rparr>
     \<lparr>fc_connection_window = 0, fc_stream_window = 65535,
       fc_ordered_map = [(0, \<lparr>sc_window = 9, sc_frame_size = 16384, sc_waker = Some 1\<rparr>), (1, \<lparr>sc_window = 9, sc_frame_size = 16384, sc_waker = Some 3\<rparr>)],
       fc_map = [1 \<mapsto> 0, 3 \<mapsto> 1]\<rparr> = Some (f1, Some 1) \<and>
     poll_credit 1 5 f1 = Some (Some 5, f2) \<and> 0 < fc_connection_window f2 \<and>
     stream_entry f2 3 = Some \<lparr>sc_window = 9, sc_frame_size = 16384, sc_waker = Some 3\<rparr>"
  by (rule connection_update_wakes_one) auto

end
