(* ===== verification/Spec2Isabelle.thy ===== *)
theory Spec2Isabelle
  imports Ws_Handshake H1_Dispatch Rate_State Hpack_Resume H2_Headers H2_Flow
begin

text \<open>
  A verification library for the protocol core of xitca-web.

  \<^bold>\<open>The program.\<close> xitca-web is a web framework in crates. Under \<open>src/\<close>: \<open>http\<close> (HTTP/1, /2 and /3 servers),
  \<open>http-ws\<close> (WebSocket), \<open>http-rate\<close> (rate limiting), \<open>unsafe_collection\<close> and \<open>io\<close> (queues and buffers), and
  the crates around them: \<open>router\<close>, \<open>service\<close>, \<open>server\<close>, \<open>web\<close>, \<open>client\<close>, \<open>tls\<close>, \<open>http-encoding\<close>,
  \<open>http-multipart\<close>, \<open>http-file\<close>, \<open>postgres\<close>, \<open>tokio-uring\<close>, \<open>codegen\<close>.

  \<^bold>\<open>Theories and the code they model.\<close>
  \<^item> \<open>Prelude\<close>: byte strings, wrapping and checked arithmetic, big-endian numbers, text tokens; the contracts
    \<open>frame_codec\<close> (an encoder with its decoder) and \<open>bit_flags\<close> (a byte of flags).
  \<^item> WebSocket, \<open>http-ws\<close>: \<open>Ws_Proto\<close> (\<open>proto.rs\<close>, \<open>error.rs\<close>), \<open>Ws_Mask\<close> (\<open>mask.rs\<close>), \<open>Utf8\<close> (lossy UTF-8 of
    the standard library), \<open>Ws_Frame\<close> (\<open>frame.rs\<close>), \<open>Ws_Codec\<close> (\<open>codec.rs\<close>, \<open>stream.rs\<close>), \<open>Ws_Handshake\<close> (\<open>lib.rs\<close>).
  \<^item> Buffers: \<open>Bound_Queue\<close> (\<open>unsafe_collection/src/bound_queue\<close>), \<open>Buf_List\<close> (\<open>bytes/buf_list.rs\<close>), \<open>Io_Buf\<close>
    (\<open>io/src/bytes.rs\<close>, \<open>http/src/util/buffered\<close>).
  \<^item> HTTP/1, \<open>http/src/h1\<close>: \<open>H1_Codec\<close> (body decoding of \<open>proto/codec.rs\<close>), \<open>H1_Chunked\<close> (the byte-wise reference
    machine for it), \<open>H1_Write\<close> (\<open>proto/buf_write.rs\<close> and body encoding), \<open>H1_Context\<close> (\<open>proto/context.rs\<close>,
    \<open>header.rs\<close>, \<open>error.rs\<close>), \<open>H1_Decode\<close> (\<open>proto/decode.rs\<close>), \<open>H1_Encode\<close> (\<open>proto/encode.rs\<close>), \<open>H1_Body\<close> (\<open>body.rs\<close>),
    \<open>H1_Dispatch\<close> (timer, body reader and error answers of \<open>dispatcher.rs\<close>).
  \<^item> HTTP/2, \<open>http/src/h2/proto/hpack\<close>: \<open>Huffman_Table\<close> (the tables of \<open>huffman/table.rs\<close>), \<open>Huffman_Tree\<close> (the code as a
    tree, and that the tables describe it), \<open>Huffman\<close> (\<open>huffman/mod.rs\<close>), \<open>Hpack_Header\<close> (\<open>header.rs\<close>, the static table, the
    dynamic table of RFC 7541), \<open>Hpack_Int\<close> (integers and strings), \<open>Hpack_Decoder\<close> (\<open>decoder.rs\<close>), \<open>Hpack_Resume\<close> (decoding
    in pieces), \<open>Robin_Hood\<close> and \<open>Hpack_Table\<close> (\<open>table.rs\<close>: the hash index and the table of the encoder), \<open>Hpack_Encoder\<close>
    (\<open>encoder.rs\<close>, and encoder and decoder on one connection).
  \<^item> HTTP/2, \<open>http/src/h2/proto\<close>: \<open>H2_Frame\<close> (\<open>head.rs\<close>, \<open>stream_id.rs\<close>, \<open>reason.rs\<close>, \<open>settings.rs\<close>, \<open>window_update.rs\<close>,
    \<open>go_away.rs\<close>, \<open>reset.rs\<close>, \<open>priority.rs\<close>, \<open>data.rs\<close>), \<open>H2_Headers\<close> (\<open>headers.rs\<close>: header blocks, and HEADERS and
    CONTINUATION frames), \<open>H2_Flow\<close> (flow control and the sending of bodies in \<open>mod.rs\<close>; the contract \<open>simulation\<close>).
  \<^item> Rate limiting, \<open>http-rate\<close>: \<open>Rate_Gcra\<close> (\<open>quota.rs\<close>, \<open>nanos.rs\<close>, \<open>gcra.rs\<close>, \<open>snapshot.rs\<close>), \<open>Rate_State\<close>
    (\<open>state\<close>, \<open>lib.rs\<close>, \<open>error.rs\<close>).

  \<^bold>\<open>How the model relates to the code.\<close> A struct is a record, an enum a datatype, a method a function that
  returns the updated state; \<open>Inl\<close> is an error and \<open>Inr\<close> a value, and a panic is the value \<open>Panic\<close> of the type
  \<open>fault\<close> (or \<open>None\<close> where nothing else can fail). Machine words are words where bits matter and natural
  numbers with the wrap-around or the check written out elsewhere. A trait is a record of functions with a locale
  for its contract. An index, slice or unwrap of the code that can fail is a branch to the panic; a call of a waker is
  counted, or named by the task it wakes, in the state or the result. An asynchronous operation is the function from what it polls to what it yields; a socket is a
  script of its answers. Code of other packages (\<open>httparse\<close>, the header map, SHA-1, Base64, FNV, \<open>bytes::Chain\<close>) is a
  parameter with its documented behaviour as hypothesis.

  \<^bold>\<open>What the lemmas show.\<close> Round trips of frames, messages, chunked bodies and header blocks; independence of how
  input is cut into reads; refinement of the ring buffers to lists, of the fast mask to the byte-wise one and of both
  header tables to the table of the specification; that nothing is
  lost between buffers and socket or between connection task and service; unambiguous framing of requests and
  responses; absence of panics, and the inputs for which there is one; the bounds of the rate limiter under
  concurrency; that HTTP/2 flow control is an account of credit which is never overdrawn, when a waiting body
  goes on, and when its task is not woken again. Where the code departs from the expected behaviour the lemma states what
  it does: a size update that is only admitted at the beginning of a piece of a header block, a refused header name that
  panics, a final WebSocket fragment without its mark, a lost waker.

  \<^bold>\<open>Fuel.\<close> \<open>drain\<close> and \<open>reader_ready\<close> take the number of turns as fuel; the length of the input plus two (three)
  is proved to be enough. The loops over the hash index take the size of the array, and the walk along the slots with
  one name the number of slots; under the invariant of the table they end before. The other loops are total functions.

  \<^bold>\<open>Not modelled.\<close> The sockets, TLS, timers and the executor (input and output); the derive macros of \<open>codegen\<close>;
  the dispatch of HTTP/2 frames to requests and the server over the package \<open>h2\<close>; HTTP/3, the clients of other
  protocols, and the web layer above the services.
\<close>

section \<open>Responses on the wire\<close>

text \<open>
  C1: A response with a chunked body goes through the wire. For the flat buffer and for the vectored buffer the
  server queues the head followed by a body, and a decoder that reads that body in any portions yields the
  concatenation of the chunks the service produced, sees the end, and leaves nothing over.
\<close>

theorem chunked_response_roundtrip:
  assumes "head_writer L parts hint cx [] = (Inr (EncodeChunked, cx'), out)" and "\<forall>b\<in>set chunks. length b \<le> u64_max"
  shows "\<exists>body w'. respond h1_write_buf L parts hint chunks cx w = Some (cx', w') \<and> wb_buf w' = wb_buf w @ out @ body \<and>
    (length chunks + 2 \<le> BUF_LIST_CNT \<longrightarrow>
      (\<exists>v. respond (h1_list_write_buf chain1 chain2) L parts hint chunks cx lw_new = Some (cx', v) \<and>
         seq_chunks.encoded.lw_bytes v = out @ body)) \<and>
    (\<forall>xs. concat xs = body \<longrightarrow> feed tc_decode_chunked [] xs = Some (concat chunks, OnEof, TC_Eof, []))"
proof -
  obtain w' where w: "respond h1_write_buf L parts hint chunks cx w = Some (cx', w')"
    "wb_buf w' = wb_buf w @ out @ chunked_wire chunks"
    using write_buf_response.respond_chunked [OF assms(1) TrueI] by blast
  have v: "\<exists>v. respond (h1_list_write_buf chain1 chain2) L parts hint chunks cx lw_new = Some (cx', v) \<and>
      seq_chunks.encoded.lw_bytes v = out @ chunked_wire chunks" if "length chunks + 2 \<le> BUF_LIST_CNT"
  proof -
    have "seq_chunks.list_room (Suc (Suc (length chunks))) lw_new"
      using seq_chunks.list_writer.room_mono [OF seq_chunks.list_new_room(1)] that by simp
    from seq_chunks.list_response.respond_chunked [OF assms(1) this] show ?thesis
      using seq_chunks.list_new_room(2) by auto
  qed
  show ?thesis using w v chunked_wire_feed [OF assms(2), of _ "[]"] by (intro exI [of _ "chunked_wire chunks"] exI [of _ w']) simp
qed

theorem chunked_response_roundtrip_witness:
  "\<exists>cx' out body w'. head_writer chunked_request (plain_parts 200) (0, None) (with_addr 0 []) [] = (Inr (EncodeChunked, cx'), out) \<and>
     respond h1_write_buf chunked_request (plain_parts 200) (0, None) [ascii ''ab'', [], ascii ''cde''] (with_addr 0 [])
       \<lparr>wb_buf = [], wb_want_flush = False\<rparr> = Some (cx', w') \<and> wb_buf w' = out @ body \<and>
     (\<forall>xs. concat xs = body \<longrightarrow> feed tc_decode_chunked [] xs = Some (ascii ''abcde'', OnEof, TC_Eof, []))"
proof -
  have "is_head_method (with_addr 0 [] :: (HeaderName \<times> bytes) list Context) = False"
    "is_connect_method (with_addr 0 [] :: (HeaderName \<times> bytes) list Context) = False"
    by (simp_all add: is_head_method_def is_connect_method_def with_addr_def cs_new_def cs_contains_def HEAD_def CONNECT_def)
  then obtain cx' out where h: "head_writer chunked_request (plain_parts 200) (0, None) (with_addr 0 []) [] = (Inr (EncodeChunked, cx'), out)"
    by (simp add: head_writer_def encode_head_inner_def skip_framing_def is_informational_def encode_headers_def from_stream_def
        NONE_BODY_HINT_def chunked_request_def one_request_def finish_headers_def write_framing_def Let_def)
  have "\<forall>b\<in>set [ascii ''ab'', [], ascii ''cde'']. length b \<le> u64_max" by (simp add: ascii_def u64_max_def)
  from chunked_response_roundtrip [OF h this, of "\<lparr>wb_buf = [], wb_want_flush = False\<rparr>"] h show ?thesis
    by (auto simp: ascii_def simp del: feed.simps)
qed

text \<open>
  C24: A response with a body of known length puts exactly the bytes of the body after its head, for the flat and
  for the vectored buffer.
\<close>

theorem sized_response_body:
  assumes "head_writer L parts hint cx [] = (Inr (TC_Length (length (concat chunks)), cx'), out)"
  shows "(\<exists>w'. respond h1_write_buf L parts hint chunks cx w = Some (cx', w') \<and> wb_buf w' = wb_buf w @ out @ concat chunks) \<and>
    (length chunks < BUF_LIST_CNT \<longrightarrow>
      (\<exists>v. respond (h1_list_write_buf chain1 chain2) L parts hint chunks cx lw_new = Some (cx', v) \<and>
         seq_chunks.encoded.lw_bytes v = out @ concat chunks))"
proof -
  have "\<exists>v. respond (h1_list_write_buf chain1 chain2) L parts hint chunks cx lw_new = Some (cx', v) \<and>
      seq_chunks.encoded.lw_bytes v = out @ concat chunks" if "length chunks < BUF_LIST_CNT"
  proof -
    have "seq_chunks.list_room (Suc (length chunks)) lw_new"
      using seq_chunks.list_writer.room_mono [OF seq_chunks.list_new_room(1)] that by simp
    from seq_chunks.list_response.respond_length [OF assms this] show ?thesis
      using seq_chunks.list_new_room(2) by auto
  qed
  then show ?thesis using write_buf_response.respond_length [OF assms TrueI] by blast
qed

theorem sized_response_body_witness:
  "\<exists>cx' out w'. head_writer chunked_request (plain_parts 200) (3, Some 3) (with_addr 0 []) [] = (Inr (TC_Length 3, cx'), out) \<and>
     respond h1_write_buf chunked_request (plain_parts 200) (3, Some 3) [[1], [2, 3]] (with_addr 0 [])
       \<lparr>wb_buf = [9], wb_want_flush = False\<rparr> = Some (cx', w') \<and> wb_buf w' = [9] @ out @ [1, 2, 3]"
proof -
  have "is_head_method (with_addr 0 [] :: (HeaderName \<times> bytes) list Context) = False"
    "is_connect_method (with_addr 0 [] :: (HeaderName \<times> bytes) list Context) = False"
    by (simp_all add: is_head_method_def is_connect_method_def with_addr_def cs_new_def cs_contains_def HEAD_def CONNECT_def)
  then obtain cx' out where h: "head_writer chunked_request (plain_parts 200) (3, Some 3) (with_addr 0 []) [] = (Inr (TC_Length 3, cx'), out)"
    by (simp add: head_writer_def encode_head_inner_def skip_framing_def is_informational_def encode_headers_def from_stream_def
        NONE_BODY_HINT_def chunked_request_def one_request_def finish_headers_def write_framing_def Let_def u64_max_def)
  then have "head_writer chunked_request (plain_parts 200) (3, Some 3) (with_addr 0 []) [] =
      (Inr (TC_Length (length (concat [[1], [2, 3 :: u8]])), cx'), out)" by simp
  from sized_response_body [OF this, of "\<lparr>wb_buf = [9], wb_want_flush = False\<rparr>"] h show ?thesis by auto
qed

end
